(* ===== verification/Prelude.thy ===== *)
theory Prelude
  imports Main "HOL-Library.Word" "HOL-Library.AList" "HOL-Library.List_Lexorder"
begin

text \<open>
  Shared vocabulary of the development: Go's machine integers as words, byte slices and strings
  as byte lists, big-endian integers as \<^verbatim>\<open>encoding/binary\<close> reads and writes them, Go maps as
  association lists with distinct keys, instants and durations as integers of nanoseconds, and
  byte streams as \<^verbatim>\<open>io.ReadFull\<close> consumes them. The lemmas here carry the proofs of the
  component theories.
\<close>

unbundle bit_operations_syntax

section \<open>Types\<close>

type_synonym byte = "8 word"
type_synonym u16 = "16 word"
type_synonym u32 = "32 word"
type_synonym u64 = "64 word"

text \<open>A Go string is a sequence of bytes, like a byte slice; \<open>lit\<close> writes an ASCII literal.\<close>

type_synonym bytes = "byte list"
type_synonym gostring = "byte list"

definition lit :: "string \<Rightarrow> gostring" where
  "lit s = map of_char s"

lemma lit_Nil [simp]: "lit [] = []"
  and lit_Cons [simp]: "lit (c # cs) = of_char c # lit cs"
  by (simp_all add: lit_def)

text \<open>
  Where the code tells a nil slice from an empty one the slice is an option, \<open>None\<close> for nil;
  \<^verbatim>\<open>len\<close>, \<^verbatim>\<open>range\<close> and \<^verbatim>\<open>bytes.Equal\<close> take nil for empty, which \<open>raw\<close> does.
\<close>

definition raw :: "bytes option \<Rightarrow> bytes" where
  "raw b = (case b of None \<Rightarrow> [] | Some x \<Rightarrow> x)"

lemma raw_Some [simp]: "raw (Some x) = x" and raw_None [simp]: "raw None = []"
  by (simp_all add: raw_def)

text \<open>
  The named collections: \<open>codec\<close> holds the rewrite rules of encoders and decoders,
  \<open>gomaps\<close> those of the maps.
\<close>

named_theorems codec \<open>encoding and decoding of byte sequences\<close>
named_theorems gomaps \<open>lookup, update and deletion in Go maps\<close>

section \<open>Big-endian integers\<close>

text \<open>\<^verbatim>\<open>binary.BigEndian.PutUint16\<close> and \<^verbatim>\<open>Uint16\<close>, and the 32 and 64 bit forms.\<close>

definition put16 :: "u16 \<Rightarrow> bytes" where
  "put16 v = [ucast (drop_bit 8 v), ucast v]"

definition get16 :: "byte \<Rightarrow> byte \<Rightarrow> u16" where
  "get16 b0 b1 = ucast b1 OR push_bit 8 (ucast b0)"

definition put32 :: "u32 \<Rightarrow> bytes" where
  "put32 v = [ucast (drop_bit 24 v), ucast (drop_bit 16 v), ucast (drop_bit 8 v), ucast v]"

definition get32 :: "byte \<Rightarrow> byte \<Rightarrow> byte \<Rightarrow> byte \<Rightarrow> u32" where
  "get32 b0 b1 b2 b3 =
     ucast b3 OR push_bit 8 (ucast b2) OR push_bit 16 (ucast b1) OR push_bit 24 (ucast b0)"

definition put64 :: "u64 \<Rightarrow> bytes" where
  "put64 v = map (\<lambda>i. ucast (drop_bit (8 * i) v)) [7, 6, 5, 4, 3, 2, 1, 0]"

fun get64 :: "bytes \<Rightarrow> u64" where
  "get64 bs = fold (\<lambda>b acc. push_bit 8 acc OR ucast b) bs 0"

lemma bit_byte_out: "8 \<le> n \<Longrightarrow> \<not> bit (b :: byte) n"
  using bit_imp_le_length [of b n] by auto

lemma get16_put16 [simp, codec]: "get16 (ucast (drop_bit 8 v)) (ucast v) = v"
proof (rule bit_word_eqI)
  fix n assume "n < LENGTH(16)"
  then show "bit (get16 (ucast (drop_bit 8 v)) (ucast v)) n = bit v n"
    by (cases "n < 8") (auto simp: get16_def bit_simps)
qed

lemma put16_get16 [simp, codec]: "put16 (get16 b0 b1) = [b0, b1]"
  by (auto simp: put16_def get16_def intro!: bit_word_eqI) (auto simp: bit_simps bit_byte_out)

lemma length_put16 [simp]: "length (put16 v) = 2"
  by (simp add: put16_def)

lemma length_put32 [simp]: "length (put32 v) = 4"
  by (simp add: put32_def)

lemma length_put64 [simp]: "length (put64 v) = 8"
  by (simp add: put64_def)

lemma get32_put32 [simp, codec]:
  "get32 (ucast (drop_bit 24 v)) (ucast (drop_bit 16 v)) (ucast (drop_bit 8 v)) (ucast v) = v"
proof (rule bit_word_eqI)
  fix n assume "n < LENGTH(32)"
  then consider "n < 8" | "8 \<le> n" "n < 16" | "16 \<le> n" "n < 24" | "24 \<le> n" "n < 32"
    by fastforce
  then show "bit (get32 (ucast (drop_bit 24 v)) (ucast (drop_bit 16 v))
      (ucast (drop_bit 8 v)) (ucast v)) n = bit v n"
    by cases (auto simp: get32_def bit_simps)
qed

lemma push_byte: "push_bit 8 (drop_bit (n + 8) v) OR ucast (ucast (drop_bit n v) :: byte) = drop_bit n v"
  for v :: u64
proof (rule bit_word_eqI)
  fix i assume "i < LENGTH(64)"
  then show "bit (push_bit 8 (drop_bit (n + 8) v) OR ucast (ucast (drop_bit n v) :: byte)) i
      = bit (drop_bit n v) i"
    by (cases "i < 8") (auto simp: bit_simps)
qed

lemma get64_put64 [simp, codec]: "get64 (put64 v) = v"
proof -
  have "drop_bit 64 v = 0"
    by (rule bit_word_eqI) (auto simp: bit_simps dest: bit_imp_le_length)
  then have "ucast (ucast (drop_bit 56 v) :: byte) = drop_bit 56 v"
    using push_byte [of 56 v] by simp
  then show ?thesis
    using push_byte [of 0 v] push_byte [of 8 v] push_byte [of 16 v] push_byte [of 24 v]
      push_byte [of 32 v] push_byte [of 40 v] push_byte [of 48 v]
    by (simp add: put64_def del: push_bit_or)
qed

lemma get32_cong_put32: "get32 (put32 v ! 0) (put32 v ! 1) (put32 v ! 2) (put32 v ! 3) = v"
  by (simp add: put32_def)

section \<open>Go maps\<close>

text \<open>
  A Go map is an association list whose keys are distinct: \<open>map_of m k\<close> is a lookup, with
  \<open>None\<close> for a missing key, \<open>AList.update\<close> an assignment, \<open>AList.delete\<close> the builtin
  \<^verbatim>\<open>delete\<close>, \<open>length\<close> the builtin \<^verbatim>\<open>len\<close>, and \<open>retain\<close> a loop that deletes the entries
  failing a test. Go leaves the iteration order open; the definitions that iterate only
  delete, count or collect, and their lemmas do not depend on the order.
\<close>

type_synonym ('k, 'v) gomap = "('k \<times> 'v) list"

abbreviation gm_ok :: "('k, 'v) gomap \<Rightarrow> bool" where
  "gm_ok m \<equiv> distinct (map fst m)"

definition retain :: "('k \<Rightarrow> 'v \<Rightarrow> bool) \<Rightarrow> ('k, 'v) gomap \<Rightarrow> ('k, 'v) gomap" where
  "retain P m = filter (\<lambda>(k, v). P k v) m"

declare update_conv' [simp, gomaps] delete_conv' [simp, gomaps]
  distinct_update [simp, gomaps] distinct_delete [simp, gomaps]

lemma retain_ok [simp, gomaps]: "gm_ok m \<Longrightarrow> gm_ok (retain P m)"
  by (induction m) (auto simp: retain_def)

lemma retain_lookup [gomaps]:
  "gm_ok m \<Longrightarrow> map_of (retain P m) k =
     (case map_of m k of None \<Rightarrow> None | Some v \<Rightarrow> if P k v then Some v else None)"
  by (induction m) (auto simp: retain_def map_of_eq_None_iff rev_image_eqI split: option.splits)

lemma length_update [gomaps]:
  "length (AList.update k v m) = (if map_of m k = None then Suc (length m) else length m)"
  by (induction m) auto

lemma length_retain: "length (retain P m) \<le> length m"
  by (simp add: retain_def)

lemma length_delete_le: "length (AList.delete k m) \<le> length m"
  by (simp add: AList.delete_eq)

lemma length_delete_present:
  "map_of m k \<noteq> None \<Longrightarrow> length (AList.delete k m) < length m"
  by (induction m) (auto simp: le_imp_less_Suc length_delete_le split: if_splits)

text \<open>A loop that changes a state and collects effects.\<close>

fun steps :: "('a \<Rightarrow> 's \<Rightarrow> 's \<times> 'e list) \<Rightarrow> 'a list \<Rightarrow> 's \<Rightarrow> 's \<times> 'e list" where
  "steps f [] s = (s, [])"
| "steps f (x # xs) s = (let (s, es) = f x s; (s, es') = steps f xs s in (s, es @ es'))"

section \<open>Time\<close>

text \<open>
  An instant is the number of nanoseconds since Go's zero \<^verbatim>\<open>time.Time\<close>, which is \<open>0\<close>; a
  \<^verbatim>\<open>time.Duration\<close> is a number of nanoseconds. \<^verbatim>\<open>Time.Sub\<close> saturates at the ends of the
  64-bit range, so the age of a zero instant is the largest duration.
\<close>

type_synonym gotime = int
type_synonym duration = int

definition max_duration :: duration where "max_duration = 2 ^ 63 - 1"
definition min_duration :: duration where "min_duration = - (2 ^ 63)"

definition time_sub :: "gotime \<Rightarrow> gotime \<Rightarrow> duration" where
  "time_sub t u = max min_duration (min max_duration (t - u))"

abbreviation (input) millisecond :: duration where "millisecond \<equiv> 1000000"
abbreviation (input) second :: duration where "second \<equiv> 1000000000"

lemma time_sub_self [simp]: "time_sub t t = 0"
  by (simp add: time_sub_def max_duration_def min_duration_def)

lemma time_sub_ge: "0 \<le> d \<Longrightarrow> d \<le> max_duration \<Longrightarrow> d \<le> time_sub t u \<longleftrightarrow> d \<le> t - u"
  by (auto simp: time_sub_def max_duration_def min_duration_def)

lemma time_sub_gt: "0 \<le> d \<Longrightarrow> d < max_duration \<Longrightarrow> d < time_sub t u \<longleftrightarrow> d < t - u"
  by (auto simp: time_sub_def max_duration_def min_duration_def)

section \<open>Byte streams\<close>

text \<open>
  A reader is the list of bytes it still delivers before the end of the stream.
  \<^verbatim>\<open>io.ReadFull\<close> returns exactly the bytes asked for, \<^verbatim>\<open>io.EOF\<close> when there is none at all,
  \<^verbatim>\<open>io.ErrUnexpectedEOF\<close> when there are some but too few.
\<close>

datatype io_error = EOF | ErrUnexpectedEOF

definition read_full :: "nat \<Rightarrow> bytes \<Rightarrow> io_error + bytes \<times> bytes" where
  "read_full n s = (if n \<le> length s then Inr (take n s, drop n s)
     else if s = [] then Inl EOF else Inl ErrUnexpectedEOF)"

lemma read_full_append [simp, codec]: "length a = n \<Longrightarrow> read_full n (a @ b) = Inr (a, b)"
  by (simp add: read_full_def)

lemma read_full_Inr:
  "read_full n s = Inr (a, b) \<longleftrightarrow> n \<le> length s \<and> a = take n s \<and> b = drop n s"
  by (auto simp: read_full_def)

lemma read_full_split: "read_full n s = Inr (a, b) \<Longrightarrow> s = a @ b \<and> length a = n"
  by (auto simp: read_full_Inr)

section \<open>Length-prefixed fields\<close>

text \<open>The field \<^verbatim>\<open>[u16 length][bytes]\<close> that the relay header and both NAT envelopes use.\<close>

lemma list_split2: "2 \<le> length p \<Longrightarrow> p = p ! 0 # p ! 1 # drop 2 p"
  by (cases p; cases "tl p") auto

lemma unat_of_nat16 [simp]: "n < 65536 \<Longrightarrow> unat (of_nat n :: u16) = n"
  by (simp add: unat_of_nat)

lemma unat8_less: "unat (w :: byte) < 256"
  using unsigned_less [of w] by simp

lemma unat16_less: "unat (w :: u16) < 65536"
  using unsigned_less [of w] by simp

lemma unat64_less: "unat (w :: u64) < 18446744073709551616"
  using unsigned_less [of w] by simp

lemma unat_inc: "unat (e + 1) = unat e + 1" if "unat e < 18446744073709551615" for e :: u64
  using that by (simp add: unat_word_ariths)

lemma unat_inc_less: "e < ep \<Longrightarrow> unat (e + 1) = unat e + 1" for e ep :: u64
  using unat64_less [of ep] by (intro unat_inc) (simp add: word_less_nat_alt)

lemma put16_unat: "put16 (of_nat (unat w)) = put16 w"
  by simp

lemma get16_of_len: "n < 65536 \<Longrightarrow>
    unat (get16 ((put16 (of_nat n) @ xs) ! 0) ((put16 (of_nat n) @ xs) ! Suc 0)) = n"
  by (simp add: put16_def)

lemma drop2_put16 [simp]: "drop 2 (put16 v @ xs) = xs"
  by (simp add: put16_def)

text \<open>A field at the front of a byte string, read back.\<close>

lemma field_split:
  assumes "2 \<le> length p" "n = unat (get16 (p ! 0) (p ! 1))" "n \<le> length p - 2"
  shows "p = put16 (of_nat n) @ take n (drop 2 p) @ drop n (drop 2 p)"
  using list_split2 [OF assms(1)] assms(2) by (metis append_Cons append_Nil append_take_drop_id
      put16_get16 put16_unat)

lemma field_front:
  "length a < 65536 \<Longrightarrow> p = put16 (of_nat (length a)) @ a @ r \<Longrightarrow>
   unat (get16 (p ! 0) (p ! Suc 0)) = length a \<and> drop 2 p = a @ r \<and> length p = 2 + length a + length r"
  by (simp add: get16_of_len)

end
