(* ===== verification/Gotext.thy ===== *)
theory Gotext
  imports Prelude
begin

text \<open>
  Functions of package \<^verbatim>\<open>strings\<close> on UTF-8 text that the program calls: \<open>TrimSpace\<close> for key
  files and option values, \<open>ToLower\<close> as far as comparisons with ASCII words can tell.
\<close>

section \<open>Surrounding white space\<close>

text \<open>
  \<^verbatim>\<open>strings.TrimSpace\<close> removes the leading and the trailing code points that Unicode calls white
  space; \<open>space_len\<close> and \<open>space_end\<close> measure the first and the last code point of a
  string when it is one of them, and are 0 when it is not.
\<close>

definition ascii_space :: "byte \<Rightarrow> bool" where
  "ascii_space c \<longleftrightarrow> c \<in> {9, 10, 11, 12, 13, 32}"

definition wide_spaces2 :: "bytes list" where
  "wide_spaces2 = [[0xC2, 0x85], [0xC2, 0xA0]]"

definition wide_spaces3 :: "bytes list" where
  "wide_spaces3 = [[0xE1, 0x9A, 0x80], [0xE2, 0x80, 0x80], [0xE2, 0x80, 0x81], [0xE2, 0x80, 0x82],
     [0xE2, 0x80, 0x83], [0xE2, 0x80, 0x84], [0xE2, 0x80, 0x85], [0xE2, 0x80, 0x86],
     [0xE2, 0x80, 0x87], [0xE2, 0x80, 0x88], [0xE2, 0x80, 0x89], [0xE2, 0x80, 0x8A],
     [0xE2, 0x80, 0xA8], [0xE2, 0x80, 0xA9], [0xE2, 0x80, 0xAF], [0xE2, 0x81, 0x9F],
     [0xE3, 0x80, 0x80]]"

definition space_len :: "gostring \<Rightarrow> nat" where
  "space_len s = (if s \<noteq> [] \<and> ascii_space (hd s) then 1
     else if take 2 s \<in> set wide_spaces2 then 2
     else if take 3 s \<in> set wide_spaces3 then 3 else 0)"

definition space_end :: "gostring \<Rightarrow> nat" where
  "space_end s = (if s \<noteq> [] \<and> ascii_space (last s) then 1
     else if drop (length s - 2) s \<in> set wide_spaces2 then 2
     else if drop (length s - 3) s \<in> set wide_spaces3 then 3 else 0)"

lemma space_len_Nil: "space_len [] = 0"
  and space_end_Nil: "space_end [] = 0"
  by (simp_all add: space_len_def space_end_def wide_spaces2_def wide_spaces3_def)

lemma space_len_less: "space_len s \<noteq> 0 \<Longrightarrow> length (drop (space_len s) s) < length s"
  by (cases s) (simp_all add: space_len_Nil diff_less)

lemma space_end_less: "space_end s \<noteq> 0 \<Longrightarrow> length (take (length s - space_end s) s) < length s"
  by (cases s) (simp_all add: space_end_Nil)

function trim_left :: "gostring \<Rightarrow> gostring" where
  "trim_left s = (if space_len s = 0 then s else trim_left (drop (space_len s) s))"
  by pat_completeness auto
termination by (relation "measure length") (use space_len_less in auto)

function trim_right :: "gostring \<Rightarrow> gostring" where
  "trim_right s = (if space_end s = 0 then s else trim_right (take (length s - space_end s) s))"
  by pat_completeness auto
termination by (relation "measure length") (use space_end_less in auto)

declare trim_left.simps [simp del] trim_right.simps [simp del]

definition TrimSpace :: "gostring \<Rightarrow> gostring" where
  "TrimSpace s = trim_right (trim_left s)"

section \<open>Lower case\<close>

text \<open>
  \<^verbatim>\<open>strings.ToLower\<close>, up to the code points whose lower case is not ASCII: those stay as they
  are, which no comparison with an ASCII word can tell. The ones that become ASCII are the
  capital letters, the dotted capital I (\<^verbatim>\<open>U+0130\<close>) and the Kelvin sign (\<^verbatim>\<open>U+212A\<close>).
\<close>

fun ToLower :: "gostring \<Rightarrow> gostring" where
  "ToLower [] = []"
| "ToLower (c # s) =
     (if 65 \<le> c \<and> c \<le> 90 then (c + 32) # ToLower s
      else if c = 0xC4 \<and> take 1 s = [0xB0] then 105 # ToLower (drop 1 s)
      else if c = 0xE2 \<and> take 2 s = [0x84, 0xAA] then 107 # ToLower (drop 2 s)
      else c # ToLower s)"

end
