(* ===== verification/Interfaces.thy ===== *)
theory Interfaces
  imports Prelude
begin

text \<open>
  The contracts between components, as locales: what a client relies on and what the provider's
  theory proves when it interprets the locale on its own definitions.
\<close>

section \<open>The replay gate\<close>

text \<open>
  What \<^verbatim>\<open>Peer.onData\<close> needs of a replay window: \<open>check\<close> answers without changing the window,
  a nonce it passes has not been committed before, a nonce above all committed ones passes, and
  committing a nonce that passes succeeds and adds exactly it to the seen nonces.
\<close>

locale replay_gate =
  fixes check :: "'w \<Rightarrow> u64 \<Rightarrow> bool option"
    and commit :: "'w \<Rightarrow> u64 \<Rightarrow> 'w option"
    and tracks :: "'w \<Rightarrow> nat set \<Rightarrow> bool"
  assumes check_total: "tracks w T \<Longrightarrow> \<exists>b. check w n = Some b"
    and check_fresh: "tracks w T \<Longrightarrow> check w n = Some True \<Longrightarrow> unat n \<notin> T"
    and check_newest: "tracks w T \<Longrightarrow> \<forall>t\<in>T. t < unat n \<Longrightarrow> check w n = Some True"
    and commit_tracks: "tracks w T \<Longrightarrow> check w n = Some True \<Longrightarrow>
      \<exists>w'. commit w n = Some w' \<and> tracks w' (insert (unat n) T)"

context replay_gate
begin

text \<open>The newest nonce goes all the way through the gate.\<close>

lemma newest_commits:
  assumes "tracks w T" "\<forall>t\<in>T. t < unat n"
  obtains w' where "check w n = Some True" "commit w n = Some w'" "tracks w' (insert (unat n) T)"
  using check_newest [OF assms] commit_tracks [OF assms(1)] by blast

end

section \<open>Text forms of addresses\<close>

text \<open>
  What an envelope that carries an address as text needs: a valid address has a text of bounded
  length that resolves to the same endpoint.
\<close>

locale addr_codec =
  fixes valid :: "'a \<Rightarrow> bool"
    and show_addr :: "'a \<Rightarrow> gostring"
    and resolve :: "gostring \<Rightarrow> 'a option"
    and same :: "'a \<Rightarrow> 'a \<Rightarrow> bool"
  assumes resolve_show: "valid a \<Longrightarrow> \<exists>b. resolve (show_addr a) = Some b \<and> same a b"
    and show_nonempty: "valid a \<Longrightarrow> show_addr a \<noteq> []"
    and show_bounded: "valid a \<Longrightarrow> length (show_addr a) \<le> 1024"

context addr_codec
begin

text \<open>An address as a length-prefixed field, read back.\<close>

lemma show_field:
  assumes "valid a" "p = put16 (of_nat (length (show_addr a))) @ show_addr a @ f"
  shows "unat (get16 (p ! 0) (p ! Suc 0)) = length (show_addr a)"
    and "drop 2 p = show_addr a @ f" and "length p = 2 + length (show_addr a) + length f"
    and "0 < length (show_addr a)"
  using field_front [OF _ assms(2)] show_bounded [OF assms(1)] show_nonempty [OF assms(1)] by auto

end

section \<open>Windowed rate budgets\<close>

text \<open>
  A budget that is drawn from in windows of one second. A draw in a live window is granted only
  when the amount still fits, and then counts; a draw without a live window opens one at its
  own instant. A refused draw may be charged too. Pruning a budget only discards a window that
  is no longer live.
\<close>

locale rate_budget =
  fixes draw :: "int \<Rightarrow> gotime \<Rightarrow> 'c \<Rightarrow> bool \<times> 'c"
    and prune :: "gotime \<Rightarrow> 'c \<Rightarrow> 'c"
    and used :: "'c \<Rightarrow> int"
    and live :: "'c \<Rightarrow> gotime \<Rightarrow> bool"
    and cap :: int
  assumes draw_live: "0 \<le> a \<Longrightarrow> live c t \<Longrightarrow> draw a t c = (b, c') \<Longrightarrow>
        (b \<longrightarrow> used c + a \<le> cap) \<and> used c + (if b then a else 0) \<le> used c' \<and> live c' = live c"
    and draw_fresh: "0 \<le> a \<Longrightarrow> \<not> live c t \<Longrightarrow> draw a t c = (b, c') \<Longrightarrow>
        (b \<longrightarrow> a \<le> cap) \<and> (if b then a else 0) \<le> used c' \<and> live c' = (\<lambda>u. u - t < second)"
    and prune_live: "live c t \<Longrightarrow> prune t c = c"
    and prune_dead: "prune t c = c \<or> live (prune t c) = (\<lambda>u. False)"

text \<open>A history of a budget: draws of an amount and prunings, each at an instant.\<close>

type_synonym budget_event = "gotime \<times> int option"

fun granted ::
    "(int \<Rightarrow> gotime \<Rightarrow> 'c \<Rightarrow> bool \<times> 'c) \<Rightarrow> (gotime \<Rightarrow> 'c \<Rightarrow> 'c) \<Rightarrow> 'c \<Rightarrow> budget_event list
     \<Rightarrow> int \<times> 'c" where
  "granted draw prune c [] = (0, c)"
| "granted draw prune c ((t, None) # es) = granted draw prune (prune t c) es"
| "granted draw prune c ((t, Some a) # es) =
     (let (b, c') = draw a t c; (g, c'') = granted draw prune c' es
      in ((if b then a else 0) + g, c''))"

lemma granted_append:
  "granted draw prune c (es @ fs) =
     (let (g, c') = granted draw prune c es; (h, c'') = granted draw prune c' fs in (g + h, c''))"
  by (induction draw prune c es rule: granted.induct) (simp_all add: Let_def split: prod.splits)

definition amounts_ok :: "budget_event list \<Rightarrow> bool" where
  "amounts_ok es \<longleftrightarrow> (\<forall>t a. (t, Some a) \<in> set es \<longrightarrow> 0 \<le> a)"

lemma amounts_ok_simps [simp]:
  "amounts_ok []" "amounts_ok ((t, None) # es) = amounts_ok es"
  "amounts_ok ((t, Some a) # es) \<longleftrightarrow> 0 \<le> a \<and> amounts_ok es"
  "amounts_ok (es @ fs) \<longleftrightarrow> amounts_ok es \<and> amounts_ok fs"
  by (auto simp: amounts_ok_def)

context rate_budget
begin

lemma granted_one_window:
  "amounts_ok es \<Longrightarrow> (\<forall>t\<in>fst ` set es. live c t) \<Longrightarrow>
   fst (granted draw prune c es) \<le> max 0 (cap - used c)"
proof (induction es arbitrary: c)
  case (Cons e es)
  obtain t x where e: "e = (t, x)" by force
  show ?case
  proof (cases x)
    case None
    then show ?thesis using Cons prune_live by (simp add: e)
  next
    case (Some a)
    obtain b c' where d: "draw a t c = (b, c')" by force
    have a: "0 \<le> a" "live c t" using Cons.prems by (simp_all add: e Some)
    have s: "b \<longrightarrow> used c + a \<le> cap" "used c + (if b then a else 0) \<le> used c'" "live c' = live c"
      using draw_live [OF a d] by auto
    have "amounts_ok es" "\<forall>t\<in>fst ` set es. live c' t"
      using Cons.prems s(3) by (simp_all add: e Some)
    from Cons.IH [OF this] have "fst (granted draw prune c' es) \<le> max 0 (cap - used c')" .
    then show ?thesis using Cons.prems(1) s by (auto simp: e Some d Let_def split: prod.splits)
  qed
qed simp

text \<open>The first draw of a window, and what follows it within a second.\<close>

lemma granted_fresh:
  assumes "\<not> live c t" "0 \<le> a" "amounts_ok es" "\<forall>u\<in>fst ` set es. u < t + second" "0 \<le> cap"
  shows "fst (granted draw prune c ((t, Some a) # es)) \<le> cap"
proof -
  obtain b c' where d: "draw a t c = (b, c')" by force
  have s: "b \<longrightarrow> a \<le> cap" "(if b then a else 0) \<le> used c'" "live c' = (\<lambda>u. u - t < second)"
    using draw_fresh [OF assms(2,1) d] by auto
  have "fst (granted draw prune c' es) \<le> max 0 (cap - used c')"
    using assms(3,4) s(3) by (intro granted_one_window) auto
  then show ?thesis using assms(2,5) s by (auto simp: d Let_def min_def split: prod.splits if_splits)
qed

lemma granted_dead:
  assumes "0 \<le> cap"
  shows "live c = (\<lambda>u. False) \<Longrightarrow> amounts_ok es \<Longrightarrow>
    (\<forall>t\<in>fst ` set es. from \<le> t \<and> t < from + second) \<Longrightarrow> fst (granted draw prune c es) \<le> cap"
proof (induction es arbitrary: c)
  case (Cons e es)
  obtain t x where e: "e = (t, x)" by force
  show ?case
  proof (cases x)
    case None
    then show ?thesis using Cons prune_dead [of t c] by (auto simp: e)
  next
    case (Some a)
    have "fst (granted draw prune c ((t, Some a) # es)) \<le> cap"
      using Cons.prems assms by (intro granted_fresh) (fastforce simp: e Some)+
    then show ?thesis by (simp add: e Some)
  qed
qed (use assms in simp)

text \<open>Within any one second at most two windows are touched.\<close>

lemma granted_two_windows:
  assumes "0 \<le> cap"
  shows "amounts_ok es \<Longrightarrow> (\<forall>t\<in>fst ` set es. from \<le> t \<and> t < from + second) \<Longrightarrow>
    fst (granted draw prune c es) \<le> max 0 (cap - used c) + cap"
proof (induction es arbitrary: c)
  case (Cons e es)
  obtain t x where e: "e = (t, x)" by force
  have rest: "amounts_ok es" "\<forall>t\<in>fst ` set es. from \<le> t \<and> t < from + second"
    using Cons.prems by (cases x; simp add: e)+
  show ?case
  proof (cases x)
    case None
    show ?thesis
      using prune_dead [of t c] Cons.IH [OF rest] granted_dead [OF assms _ rest, of "prune t c"]
      by (auto simp: e None)
  next
    case (Some a)
    show ?thesis
    proof (cases "live c t")
      case False
      have "fst (granted draw prune c ((t, Some a) # es)) \<le> cap"
        using False Cons.prems assms by (intro granted_fresh) (fastforce simp: e Some)+
      then show ?thesis by (simp add: e Some)
    next
      case True
      obtain b c' where d: "draw a t c = (b, c')" by force
      have s: "b \<longrightarrow> used c + a \<le> cap" "used c + (if b then a else 0) \<le> used c'"
        using draw_live [OF _ True d] Cons.prems(1) by (auto simp: e Some)
      have "fst (granted draw prune c' es) \<le> max 0 (cap - used c') + cap"
        using Cons.IH [OF rest] by simp
      then show ?thesis using Cons.prems(1) s by (auto simp: e Some d Let_def split: prod.splits)
    qed
  qed
qed (use assms in simp)

lemma granted_bound:
  assumes "0 \<le> cap" "0 \<le> used c" "amounts_ok es"
    and "\<forall>t\<in>fst ` set es. from \<le> t \<and> t < from + second"
  shows "fst (granted draw prune c es) \<le> 2 * cap"
  using granted_two_windows [OF assms(1,3,4), of c] assms(1,2) by simp

end

section \<open>Packet sinks\<close>

text \<open>
  What the router needs of the sinks it sends through: a sink has its own part of the world,
  \<open>view\<close>, and sending through another sink leaves it as it is.
\<close>

locale packet_sink =
  fixes send :: "'s \<Rightarrow> bytes \<Rightarrow> 'w \<Rightarrow> bool \<times> 'w"
    and view :: "'s \<Rightarrow> 'w \<Rightarrow> 'v"
  assumes send_local: "s \<noteq> s' \<Longrightarrow> view s' (snd (send s m w)) = view s' w"

section \<open>Packet queues\<close>

text \<open>
  A device that hands back what was written to it: \<^verbatim>\<open>tun.BufferDevice\<close> promises first-in
  first-out order of whole packets, cut to the reader's buffer.
\<close>

locale packet_queue =
  fixes put :: "bytes \<Rightarrow> 'd \<Rightarrow> bool \<times> 'd"
    and take_from :: "nat \<Rightarrow> 'd \<Rightarrow> ((unit + bytes) \<times> 'd) option"
    and queue :: "'d \<Rightarrow> bytes list"
    and ended :: "'d \<Rightarrow> bool"
  assumes put_open: "\<not> ended d \<Longrightarrow> \<exists>d'. put p d = (True, d') \<and> queue d' = queue d @ [p] \<and> \<not> ended d'"
    and put_ended: "ended d \<Longrightarrow> put p d = (False, d)"
    and take_next: "queue d = p # ps \<Longrightarrow>
      \<exists>d'. take_from n d = Some (Inr (take n p), d') \<and> queue d' = ps \<and> (ended d' \<longleftrightarrow> ended d)"
    and take_ended: "queue d = [] \<Longrightarrow> ended d \<Longrightarrow> take_from n d = Some (Inl (), d)"

context packet_queue
begin

fun put_all :: "bytes list \<Rightarrow> 'd \<Rightarrow> 'd" where
  "put_all [] d = d"
| "put_all (p # ps) d = put_all ps (snd (put p d))"

fun take_n :: "nat \<Rightarrow> nat \<Rightarrow> 'd \<Rightarrow> (bytes list \<times> 'd) option" where
  "take_n n 0 d = Some ([], d)"
| "take_n n (Suc k) d = (case take_from n d of
     Some (Inr p, d') \<Rightarrow> map_option (\<lambda>(ps, d''). (p # ps, d'')) (take_n n k d')
   | _ \<Rightarrow> None)"

lemma put_all_queue: "\<not> ended d \<Longrightarrow> queue (put_all ps d) = queue d @ ps \<and> \<not> ended (put_all ps d)"
proof (induction ps arbitrary: d)
  case (Cons p ps)
  obtain d' where "put p d = (True, d')" "queue d' = queue d @ [p]" "\<not> ended d'"
    using put_open [OF Cons.prems] by blast
  then show ?case using Cons.IH [of d'] by simp
qed simp

lemma take_n_queue:
  "queue d = ps @ qs \<Longrightarrow> \<exists>d'. take_n n (length ps) d = Some (map (take n) ps, d') \<and> queue d' = qs"
proof (induction ps arbitrary: d)
  case (Cons p ps)
  obtain d' where d': "take_from n d = Some (Inr (take n p), d')" "queue d' = ps @ qs"
    using take_next [of d p "ps @ qs" n] Cons.prems by auto
  from Cons.IH [OF d'(2)] d'(1) show ?case by auto
qed simp

text \<open>First in, first out.\<close>

lemma fifo:
  assumes "\<not> ended d" "queue d = []"
  shows "\<exists>d'. take_n n (length ps) (put_all ps d) = Some (map (take n) ps, d') \<and> queue d' = []"
  using take_n_queue [of "put_all ps d" ps "[]" n] put_all_queue [OF assms(1), of ps] assms(2) by simp

end

section \<open>Read loops\<close>

text \<open>
  A loop over what a socket delivers. A read gives a datagram or an error; \<open>Inl True\<close> is an error
  after which the loop returns, the socket being closed or the context done. Any other error is
  counted and the loop goes on. \<open>None\<close> is a panic of the handler.
\<close>

fun serve_loop :: "('s \<Rightarrow> 's) \<Rightarrow> ('a \<Rightarrow> 's \<Rightarrow> ('s \<times> 'o list) option) \<Rightarrow> (bool + 'a) list \<Rightarrow> 's \<Rightarrow> ('s \<times> 'o list) option" where
  "serve_loop dropped handle [] s = Some (s, [])"
| "serve_loop dropped handle (Inl stop # rs) s =
     (if stop then Some (s, []) else serve_loop dropped handle rs (dropped s))"
| "serve_loop dropped handle (Inr x # rs) s =
     (case handle x s of
        None \<Rightarrow> None
      | Some (s, out) \<Rightarrow> map_option (\<lambda>(s, out'). (s, out @ out')) (serve_loop dropped handle rs s))"

text \<open>
  What a server owes to its loop: handling a datagram and counting a read error each move the sum
  of its counters by one.
\<close>

locale accounted_server =
  fixes dropped :: "'s \<Rightarrow> 's"
    and handle :: "'a \<Rightarrow> 's \<Rightarrow> ('s \<times> 'o list) option"
    and counted :: "'s \<Rightarrow> u64"
  assumes drop_counts: "counted (dropped s) = counted s + 1"
    and handle_counts: "handle x s = Some (s', out) \<Longrightarrow> counted s' = counted s + 1"

context accounted_server
begin

lemma loop_counts:
  "serve_loop dropped handle rs s = Some (s', out) \<Longrightarrow>
   counted s' = counted s + of_nat (length (takeWhile (\<lambda>r. r \<noteq> Inl True) rs))"
proof (induction rs arbitrary: s out)
  case (Cons r rs)
  show ?case
  proof (cases r)
    case (Inl stop)
    then show ?thesis using Cons.prems Cons.IH [of "dropped s"] drop_counts [of s] by (auto split: if_splits)
  next
    case (Inr x)
    then obtain s1 o1 o2 where h: "handle x s = Some (s1, o1)" "serve_loop dropped handle rs s1 = Some (s', o2)"
      using Cons.prems by (auto split: option.splits)
    then show ?thesis using Cons.IH [OF h(2)] handle_counts [OF h(1)] Inr by simp
  qed
qed simp

text \<open>A handler that never panics never stops its loop but by a read.\<close>

lemma loop_total: "(\<And>x s. handle x s \<noteq> None) \<Longrightarrow> serve_loop dropped handle rs s \<noteq> None"
proof (induction rs arbitrary: s)
  case (Cons r rs)
  then show ?case by (cases r) (auto split: option.splits)
qed simp

end

section \<open>Links that lose messages\<close>

text \<open>
  A link carries items in order, each with the next nonce. A step tells whether its item was
  delivered, and then has its result as the only output.
\<close>

fun link_run :: "('x \<Rightarrow> 's \<Rightarrow> ('s \<times> bool \<times> 'o list) option) \<Rightarrow> 'x list \<Rightarrow> 's \<Rightarrow> ('s \<times> bool list \<times> 'o list) option" where
  "link_run step [] s = Some (s, [], [])"
| "link_run step (x # xs) s =
     (case step x s of
        None \<Rightarrow> None
      | Some (s, d, out) \<Rightarrow> map_option (\<lambda>(s, ds, outs). (s, d # ds, out @ outs)) (link_run step xs s))"

definition delivered :: "('x \<Rightarrow> 'o) \<Rightarrow> 'x list \<Rightarrow> bool list \<Rightarrow> 'o list" where
  "delivered result xs ds = map (result \<circ> fst) (filter snd (zip xs ds))"

lemma delivered_simps [simp]: "delivered result [] ds = []"
  "delivered result (x # xs) (d # ds) = (if d then [result x] else []) @ delivered result xs ds"
  by (simp_all add: delivered_def)

text \<open>
  What a link owes to its user: it stays up, at the next nonce, whether an item is delivered or
  lost, as long as it does not lose \<open>patience\<close> items in a row; \<open>c\<close> counts those lost.
\<close>

locale lossy_link =
  fixes step :: "'x \<Rightarrow> 's \<Rightarrow> ('s \<times> bool \<times> 'o list) option"
    and up :: "nat \<Rightarrow> u64 \<Rightarrow> 's \<Rightarrow> bool"
    and fit :: "'x \<Rightarrow> bool"
    and result :: "'x \<Rightarrow> 'o"
    and patience :: nat
  assumes step_up: "up c n s \<Longrightarrow> unat n < 18446744073709551615 \<Longrightarrow> fit x \<Longrightarrow> c + 1 < patience \<Longrightarrow>
      \<exists>s' d. step x s = Some (s', d, if d then [result x] else []) \<and> up (if d then 0 else c + 1) (n + 1) s'"

context lossy_link
begin

text \<open>A run too short to exhaust the patience gives exactly what was delivered, in order.\<close>

lemma run_delivers:
  "up c n s \<Longrightarrow> unat n + length xs \<le> 18446744073709551615 \<Longrightarrow> \<forall>x\<in>set xs. fit x \<Longrightarrow> c + length xs < patience \<Longrightarrow>
   \<exists>s' ds c'. link_run step xs s = Some (s', ds, delivered result xs ds) \<and> length ds = length xs
     \<and> up c' (n + of_nat (length xs)) s'"
proof (induction xs arbitrary: c n s)
  case (Cons x xs)
  have u: "unat n < 18446744073709551615" "unat (n + 1) = unat n + 1" using Cons.prems(2) by (simp_all add: unat_inc)
  obtain s1 d where 1: "step x s = Some (s1, d, if d then [result x] else [])" "up (if d then 0 else c + 1) (n + 1) s1"
    using step_up [OF Cons.prems(1) u(1), of x] Cons.prems(3,4) by auto
  have "unat (n + 1) + length xs \<le> 18446744073709551615" "\<forall>x\<in>set xs. fit x" "(if d then 0 else c + 1) + length xs < patience"
    using Cons.prems(2-4) u(2) by auto
  from Cons.IH [OF 1(2) this] obtain s' ds c' where
    "link_run step xs s1 = Some (s', ds, delivered result xs ds)" "length ds = length xs" "up c' (n + 1 + of_nat (length xs)) s'"
    by blast
  then show ?case using 1(1) by (intro exI [of _ s'] exI [of _ "d # ds"] exI [of _ c']) (simp add: add.assoc)
qed auto

end

text \<open>A link on which the item says whether it is delivered, and never that too many in a row are lost.\<close>

fun spared :: "nat \<Rightarrow> nat \<Rightarrow> bool list \<Rightarrow> bool" where
  "spared patience c [] = True"
| "spared patience c (True # ds) = spared patience 0 ds"
| "spared patience c (False # ds) = (c + 1 < patience \<and> spared patience (c + 1) ds)"

locale scheduled_link =
  fixes step :: "'x \<Rightarrow> 's \<Rightarrow> ('s \<times> bool \<times> 'o list) option"
    and up :: "nat \<Rightarrow> u64 \<Rightarrow> 's \<Rightarrow> bool"
    and fit :: "'x \<Rightarrow> bool"
    and result :: "'x \<Rightarrow> 'o"
    and patience :: nat
    and flag :: "'x \<Rightarrow> bool"
  assumes step_flag: "up c n s \<Longrightarrow> unat n < 18446744073709551615 \<Longrightarrow> fit x \<Longrightarrow> flag x \<or> c + 1 < patience \<Longrightarrow>
      \<exists>s'. step x s = Some (s', flag x, if flag x then [result x] else []) \<and> up (if flag x then 0 else c + 1) (n + 1) s'"

sublocale scheduled_link \<subseteq> lossy_link step up fit result patience
  by unfold_locales (use step_flag in blast)

context scheduled_link
begin

lemma run_scheduled:
  "up c n s \<Longrightarrow> unat n + length xs \<le> 18446744073709551615 \<Longrightarrow> \<forall>x\<in>set xs. fit x \<Longrightarrow> spared patience c (map flag xs) \<Longrightarrow>
   \<exists>s' c'. link_run step xs s = Some (s', map flag xs, map result (filter flag xs)) \<and> up c' (n + of_nat (length xs)) s'"
proof (induction xs arbitrary: c n s)
  case (Cons x xs)
  have u: "unat n < 18446744073709551615" "unat (n + 1) = unat n + 1" using Cons.prems(2) by (simp_all add: unat_inc)
  have s: "flag x \<or> c + 1 < patience" "spared patience (if flag x then 0 else c + 1) (map flag xs)"
    using Cons.prems(4) by (cases "flag x"; simp)+
  obtain s1 where 1: "step x s = Some (s1, flag x, if flag x then [result x] else [])" "up (if flag x then 0 else c + 1) (n + 1) s1"
    using step_flag [OF Cons.prems(1) u(1) _ s(1)] Cons.prems(3) by auto
  have "unat (n + 1) + length xs \<le> 18446744073709551615" "\<forall>x\<in>set xs. fit x" using Cons.prems(2,3) u(2) by auto
  from Cons.IH [OF 1(2) this s(2)] obtain s' c' where
    "link_run step xs s1 = Some (s', map flag xs, map result (filter flag xs))" "up c' (n + 1 + of_nat (length xs)) s'" by blast
  then show ?case using 1(1) by (auto simp: add.assoc)
qed auto

end

end
