(* ===== verification/Framing.thy ===== *)
theory Framing
  imports Prelude
begin

text \<open>
  Package \<^verbatim>\<open>internal/record\<close>: the data-plane frame \<^verbatim>\<open>[1B type][2B length BE][payload]\<close>, its
  builder \<open>Frame\<close> (which panics, here \<open>None\<close>, on a payload the length field cannot carry),
  its datagram parser \<open>Parse\<close> and its stream reader \<open>ReadFrame\<close>.
\<close>

section \<open>Constants and errors\<close>

definition TypeHS1 :: byte where "TypeHS1 = 1"
definition TypeHS2 :: byte where "TypeHS2 = 2"
definition TypeHS3 :: byte where "TypeHS3 = 3"
definition TypeProbe :: byte where "TypeProbe = 4"
definition TypeData :: byte where "TypeData = 5"
definition TypeRelay :: byte where "TypeRelay = 7"

lemmas frame_types = TypeHS1_def TypeHS2_def TypeHS3_def TypeProbe_def TypeData_def TypeRelay_def

definition HeaderLen :: nat where "HeaderLen = 3"
definition maxPayloadLen :: nat where "maxPayloadLen = 65535"

datatype frame_error =
    ErrTooShort
  | ErrOversized
  | ErrTrailing
  | ReadHeader io_error  \<comment> \<open>\<^verbatim>\<open>record: read header: %w\<close>\<close>
  | ReadPayload io_error \<comment> \<open>\<^verbatim>\<open>record: read payload: %w\<close>\<close>

section \<open>Building and parsing\<close>

definition Frame :: "byte \<Rightarrow> bytes \<Rightarrow> bytes option" where
  "Frame t payload =
     (if length payload > maxPayloadLen then None
      else Some ([t] @ put16 (of_nat (length payload)) @ payload))"

definition Parse :: "bytes \<Rightarrow> frame_error + byte \<times> bytes" where
  "Parse datagram =
     (if length datagram < HeaderLen then Inl ErrTooShort
      else let t = datagram ! 0;
               n = unat (get16 (datagram ! 1) (datagram ! 2))
           in if n > length datagram - HeaderLen then Inl ErrOversized
              else if length datagram > HeaderLen + n then Inl ErrTrailing
              else Inr (t, take n (drop HeaderLen datagram)))"

definition ReadFrame :: "bytes \<Rightarrow> frame_error + (byte \<times> bytes) \<times> bytes" where
  "ReadFrame r =
     (case read_full HeaderLen r of
        Inl e \<Rightarrow> Inl (ReadHeader e)
      | Inr (hdr, r1) \<Rightarrow>
          let t = hdr ! 0;
              n = unat (get16 (hdr ! 1) (hdr ! 2))
          in (case read_full n r1 of
                Inl e \<Rightarrow> Inl (ReadPayload e)
              | Inr (payload, r2) \<Rightarrow> Inr ((t, payload), r2)))"

section \<open>Lemmas\<close>

lemma Frame_length: "Frame t p = Some f \<Longrightarrow> length f = HeaderLen + length p"
  by (auto simp: Frame_def HeaderLen_def split: if_splits)

lemma Frame_shape:
  "Frame t p = Some f \<Longrightarrow> f = t # put16 (of_nat (length p)) @ p \<and> length p \<le> maxPayloadLen"
  by (auto simp: Frame_def split: if_splits)

lemma Frame_Some [simp]: "length p \<le> maxPayloadLen \<Longrightarrow> Frame t p = Some (t # put16 (of_nat (length p)) @ p)"
  by (simp add: Frame_def)

lemma Frame_None: "Frame t p = None \<longleftrightarrow> maxPayloadLen < length p"
  by (simp add: Frame_def)

lemma Parse_Frame [codec]: "Frame t p = Some f \<Longrightarrow> Parse f = Inr (t, p)"
  by (auto dest!: Frame_shape simp: Parse_def HeaderLen_def maxPayloadLen_def put16_def Let_def)

lemma header_split: "HeaderLen \<le> length d \<Longrightarrow> d = [d ! 0, d ! 1, d ! 2] @ drop HeaderLen d"
  by (cases d; cases "tl d"; cases "tl (tl d)") (auto simp: HeaderLen_def)

lemma Parse_Inr_iff:
  "Parse d = Inr (t, p) \<longleftrightarrow> Frame t p = Some d"
proof
  assume *: "Parse d = Inr (t, p)"
  define n where "n = get16 (d ! 1) (d ! 2)"
  from * have len: "HeaderLen \<le> length d" and n: "length d = HeaderLen + unat n"
    and t: "t = d ! 0" and p: "p = drop HeaderLen d"
    by (auto simp: Parse_def Let_def n_def split: if_splits)
  have "length p = unat n" using n p by simp
  moreover have "unat n < 65536" by (rule unat16_less)
  ultimately have "Frame t p = Some ([d ! 0] @ put16 n @ drop HeaderLen d)"
    using t p by (simp add: maxPayloadLen_def)
  also have "\<dots> = Some d"
    using header_split [OF len] by (simp add: n_def)
  finally show "Frame t p = Some d" .
qed (rule Parse_Frame)

lemma ReadFrame_Frame [codec]:
  assumes "Frame t p = Some f"
  shows "ReadFrame (f @ rest) = Inr ((t, p), rest)"
proof -
  from assms have f: "f @ rest = (t # put16 (of_nat (length p))) @ (p @ rest)"
    and len: "length p \<le> maxPayloadLen"
    by (auto dest: Frame_shape)
  have "read_full HeaderLen ((t # put16 (of_nat (length p))) @ (p @ rest))
      = Inr (t # put16 (of_nat (length p)), p @ rest)"
    by (rule read_full_append) (simp add: HeaderLen_def)
  with f len show ?thesis
    by (simp add: ReadFrame_def maxPayloadLen_def put16_def)
qed

text \<open>A stream reader that calls \<open>ReadFrame\<close> \<open>k\<close> times.\<close>

fun read_frames :: "nat \<Rightarrow> bytes \<Rightarrow> frame_error + (byte \<times> bytes) list \<times> bytes" where
  "read_frames 0 s = Inr ([], s)"
| "read_frames (Suc k) s =
     (case ReadFrame s of
        Inl e \<Rightarrow> Inl e
      | Inr (tp, s') \<Rightarrow>
          (case read_frames k s' of Inl e \<Rightarrow> Inl e | Inr (tps, s'') \<Rightarrow> Inr (tp # tps, s'')))"

definition stream_of :: "(byte \<times> bytes) list \<Rightarrow> bytes" where
  "stream_of tps = concat (map (\<lambda>(t, p). case Frame t p of None \<Rightarrow> [] | Some f \<Rightarrow> f) tps)"

lemma read_frames_stream:
  "(\<forall>(t, p)\<in>set tps. length p \<le> maxPayloadLen) \<Longrightarrow>
   read_frames (length tps) (stream_of tps @ rest) = Inr (tps, rest)"
proof (induction tps)
  case (Cons tp tps)
  obtain t p where tp: "tp = (t, p)" by force
  then have f: "Frame t p = Some (t # put16 (of_nat (length p)) @ p)" using Cons.prems by simp
  have "ReadFrame (stream_of (tp # tps) @ rest) = Inr ((t, p), stream_of tps @ rest)"
    using ReadFrame_Frame [OF f, of "stream_of tps @ rest"] f by (simp add: stream_of_def tp)
  then show ?case using Cons by (simp add: tp)
qed (simp add: stream_of_def)

lemma ReadFrame_header_only:
  "ReadFrame [t, b1, b2] =
     (if get16 b1 b2 = 0 then Inr ((t, []), []) else Inl (ReadPayload EOF))"
proof -
  have "unat (get16 b1 b2) = 0 \<longleftrightarrow> get16 b1 b2 = 0" by (simp add: unat_eq_0)
  then show ?thesis by (simp add: ReadFrame_def HeaderLen_def read_full_def Let_def)
qed

section \<open>Properties\<close>

text \<open>C33: \<open>Parse\<close> accepts exactly the datagrams \<open>Frame\<close> builds, and returns what was framed:
  every other datagram (short, oversized, trailing bytes) is an error.\<close>

theorem parse_accepts_exactly_frames: "(Parse d = Inr (t, p)) = (Frame t p = Some d)"
  by (rule Parse_Inr_iff)

text \<open>Frames written one after another to a stream are read back one by one, type and
  payload, and the reader leaves exactly the bytes that follow them.\<close>

theorem frame_stream_roundtrip:
  assumes "\<forall>(t, p)\<in>set tps. length p \<le> maxPayloadLen"
  shows "read_frames (length tps) (stream_of tps @ rest) = Inr (tps, rest)"
  using assms by (rule read_frames_stream)

theorem frame_stream_roundtrip_witness:
  "read_frames 2 (stream_of [(5, [1, 2]), (4, [])] @ [9]) = Inr ([(5, [1, 2]), (4, [])], [9])"
proof -
  have "read_frames (length [(5 :: byte, [1, 2 :: byte]), (4, [])])
        (stream_of [(5, [1, 2]), (4, [])] @ [9])
      = Inr ([(5, [1, 2]), (4, [])], [9])"
    by (rule frame_stream_roundtrip) (simp add: maxPayloadLen_def)
  then show ?thesis by (simp add: numeral_2_eq_2 del: read_frames.simps)
qed

text \<open>A stream cut right after a frame's header is reported with the end-of-file error of a
  clean frame boundary: \<open>ReadFrame\<close> wraps \<^verbatim>\<open>io.EOF\<close> when the payload is missing completely, not
  \<^verbatim>\<open>io.ErrUnexpectedEOF\<close>, so a caller testing \<^verbatim>\<open>errors.Is(err, io.EOF)\<close> takes the truncated
  frame for a clean end.\<close>

theorem truncated_frame_is_eof:
  "ReadFrame [t, b1, b2] =
     (if get16 b1 b2 = 0 then Inr ((t, []), []) else Inl (ReadPayload EOF))"
  by (rule ReadFrame_header_only)

end
