(* ===== verification/Replay_Window.thy ===== *)
theory Replay_Window
  imports Interfaces
begin

text \<open>
  The receive window of DATA frames, \<^verbatim>\<open>internal/peer/replay.go\<close>: a bitmap of 64-bit words that
  slides with the highest accepted nonce. An index out of the bitmap's range panics in Go, so
  the operations that index it return an option. The window refines a set of seen nonces:
  \<open>tracks w T\<close> relates a window to the set \<open>T\<close> of the nonces committed to it, and
  \<open>fresh_spec\<close> says which nonces such a set leaves acceptable.
\<close>

section \<open>The window and its operations\<close>

record replay_window =
  rw_size :: u64
  rw_max :: u64
  rw_start :: u64
  rw_bits :: "u64 list"
  rw_zeroSeen :: bool

definition replayWindowSizeBits :: u64 where "replayWindowSizeBits = 2048"

definition newReplayWindow :: "u64 \<Rightarrow> replay_window" where
  "newReplayWindow sz =
     \<lparr>rw_size = sz, rw_max = 0, rw_start = 0,
      rw_bits = replicate (unat ((sz + 63) div 64)) 0, rw_zeroSeen = False\<rparr>"

definition windowStart :: "u64 \<Rightarrow> u64 \<Rightarrow> u64" where
  "windowStart mx sz = (if mx \<ge> sz then mx - sz + 1 else 0)"

definition setBit :: "replay_window \<Rightarrow> u64 \<Rightarrow> replay_window option" where
  "setBit w idx =
     (let i = unat (idx div 64)
      in if i < length (rw_bits w)
         then Some (w\<lparr>rw_bits := (rw_bits w)[i := rw_bits w ! i OR push_bit (unat (idx mod 64)) 1]\<rparr>)
         else None)"

definition getBit :: "replay_window \<Rightarrow> u64 \<Rightarrow> bool option" where
  "getBit w idx =
     (let i = unat (idx div 64)
      in if i < length (rw_bits w)
         then Some (rw_bits w ! i AND push_bit (unat (idx mod 64)) 1 \<noteq> 0)
         else None)"

definition Check :: "replay_window \<Rightarrow> u64 \<Rightarrow> bool option" where
  "Check w nonce =
     (if nonce = 0 then Some (\<not> rw_zeroSeen w)
      else if rw_max w = 0 then Some True
      else if nonce > rw_max w then Some True
      else if nonce < rw_start w then Some False
      else map_option Not (getBit w (nonce - rw_start w)))"

text \<open>The two loops of \<^verbatim>\<open>advance\<close>, over the word indices from \<open>dw\<close> on.\<close>

definition shift_aligned :: "nat \<Rightarrow> u64 list \<Rightarrow> u64 list" where
  "shift_aligned dw bits =
     fold (\<lambda>wi nw. nw[wi - dw := bits ! wi]) [dw..<length bits] (replicate (length bits) 0)"

definition shift_unaligned_step :: "nat \<Rightarrow> nat \<Rightarrow> u64 list \<Rightarrow> nat \<Rightarrow> u64 list \<Rightarrow> u64 list" where
  "shift_unaligned_step dw db bits wi nw =
     (let v = bits ! wi
      in if v = 0 then nw
         else let nw1 = nw[wi - dw := nw ! (wi - dw) OR drop_bit db v]
              in if wi - dw \<ge> 1
                 then nw1[wi - dw - 1 := nw1 ! (wi - dw - 1) OR push_bit (64 - db) v]
                 else nw1)"

definition shift_unaligned :: "nat \<Rightarrow> nat \<Rightarrow> u64 list \<Rightarrow> u64 list" where
  "shift_unaligned dw db bits =
     fold (shift_unaligned_step dw db bits) [dw..<length bits] (replicate (length bits) 0)"

definition advance :: "replay_window \<Rightarrow> u64 \<Rightarrow> replay_window" where
  "advance w nonce =
     (let newStart = windowStart nonce (rw_size w);
          shift = newStart - rw_start w;
          bits =
            (if shift > 0 then
               (if shift \<ge> rw_size w then replicate (length (rw_bits w)) 0
                else let dw = unat (shift div 64); db = unat (shift mod 64)
                     in if db = 0 then shift_aligned dw (rw_bits w)
                        else shift_unaligned dw db (rw_bits w))
             else rw_bits w)
      in w\<lparr>rw_bits := bits, rw_start := newStart, rw_max := nonce\<rparr>)"

definition Commit :: "replay_window \<Rightarrow> u64 \<Rightarrow> replay_window option" where
  "Commit w nonce =
     (if nonce = 0 then Some (w\<lparr>rw_zeroSeen := True\<rparr>)
      else if rw_max w = 0 then
        let w1 = w\<lparr>rw_max := nonce, rw_start := windowStart nonce (rw_size w),
                    rw_bits := replicate (length (rw_bits w)) 0\<rparr>
        in setBit w1 (nonce - rw_start w1)
      else let w1 = (if nonce > rw_max w then advance w nonce else w)
           in setBit w1 (nonce - rw_start w1))"

definition Accept :: "replay_window \<Rightarrow> u64 \<Rightarrow> (bool \<times> replay_window) option" where
  "Accept w nonce =
     (case Check w nonce of
        None \<Rightarrow> None
      | Some b \<Rightarrow>
          if \<not> b then Some (False, w)
          else (case Commit w nonce of None \<Rightarrow> None | Some w' \<Rightarrow> Some (True, w')))"

section \<open>The bitmap as a set of positions\<close>

definition bitat :: "u64 list \<Rightarrow> nat \<Rightarrow> bool" where
  "bitat bits i \<longleftrightarrow> i div 64 < length bits \<and> bit (bits ! (i div 64)) (i mod 64)"

lemma bitat_zeros [simp]: "\<not> bitat (replicate n 0) i"
  by (simp add: bitat_def)

lemma bit_test: "(v AND 2 ^ n \<noteq> 0) = bit v n" if "n < 64" for v :: u64
proof -
  have "v AND 2 ^ n = (if bit v n then 2 ^ n else 0)"
    by (rule bit_word_eqI) (auto simp: bit_simps)
  moreover have "(2 :: u64) ^ n \<noteq> 0"
    using that by (auto simp: bit_eq_iff bit_simps intro!: exI [of _ n])
  ultimately show ?thesis by simp
qed

lemma unat_divmod64: "unat (idx div 64) = unat idx div 64" "unat (idx mod 64) = unat idx mod 64"
  for idx :: u64
  by (simp_all add: unat_div_distrib unat_mod_distrib)

lemma getBit_bitat:
  "unat idx div 64 < length (rw_bits w) \<Longrightarrow> getBit w idx = Some (bitat (rw_bits w) (unat idx))"
  by (simp add: getBit_def unat_divmod64 bit_test bitat_def)

lemma setBit_bits:
  assumes "unat idx div 64 < length (rw_bits w)"
  obtains bs where "setBit w idx = Some (w\<lparr>rw_bits := bs\<rparr>)" "length bs = length (rw_bits w)"
    "\<And>i. bitat bs i \<longleftrightarrow> bitat (rw_bits w) i \<or> i = unat idx"
proof
  let ?i = "unat idx div 64" and ?r = "unat idx mod 64"
  let ?bs = "(rw_bits w)[?i := rw_bits w ! ?i OR push_bit ?r 1]"
  show "setBit w idx = Some (w\<lparr>rw_bits := ?bs\<rparr>)"
    using assms by (simp add: setBit_def unat_divmod64 Let_def)
  show "length ?bs = length (rw_bits w)" by simp
  fix i
  have "i div 64 = ?i \<and> i mod 64 = ?r \<longleftrightarrow> i = unat idx"
    by (metis div_mult_mod_eq)
  then show "bitat ?bs i \<longleftrightarrow> bitat (rw_bits w) i \<or> i = unat idx"
    using assms by (auto simp: bitat_def nth_list_update bit_simps bit_1_iff)
qed

section \<open>Sliding the bitmap\<close>

lemma shift_aligned_prefix:
  assumes "dw \<le> m" "m \<le> length bits"
  shows "length (fold (\<lambda>wi nw. nw[wi - dw := bits ! wi]) [dw..<m] (replicate (length bits) 0))
           = length bits"
    and "j < length bits \<Longrightarrow>
      fold (\<lambda>wi nw. nw[wi - dw := bits ! wi]) [dw..<m] (replicate (length bits) (0 :: u64)) ! j
        = (if j + dw < m then bits ! (j + dw) else 0)"
  using assms
proof (induction m arbitrary: j)
  case (Suc m)
  { case 1 then show ?case using Suc.IH(1) by (cases "dw = Suc m") auto }
  { case 2
    then show ?case
      using Suc.IH by (cases "dw = Suc m") (auto simp: nth_list_update not_less less_Suc_eq) }
qed auto

lemma shift_aligned_bits:
  "bitat (shift_aligned dw bits) i \<longleftrightarrow> bitat bits (i + 64 * dw)"
  "length (shift_aligned dw bits) = length bits"
proof -
  show len: "length (shift_aligned dw bits) = length bits"
    using shift_aligned_prefix(1) [of dw "length bits" bits]
    by (cases "dw \<le> length bits") (auto simp: shift_aligned_def)
  show "bitat (shift_aligned dw bits) i \<longleftrightarrow> bitat bits (i + 64 * dw)"
    using shift_aligned_prefix(2) [of dw "length bits" bits "i div 64"] len
    by (cases "dw \<le> length bits")
      (auto simp: bitat_def shift_aligned_def add.commute split: if_splits)
qed

definition moved :: "nat \<Rightarrow> nat \<Rightarrow> u64 list \<Rightarrow> nat \<Rightarrow> nat \<Rightarrow> u64" where
  "moved dw db bits m j =
     (if j + dw < m then drop_bit db (bits ! (j + dw)) else 0)
       OR (if j + dw + 1 < m then push_bit (64 - db) (bits ! (j + dw + 1)) else 0)"

lemma shift_unaligned_step_nth:
  assumes "dw \<le> m" "m < length bits" "length nw = length bits" "j < length bits"
    and "\<And>j. j < length bits \<Longrightarrow> nw ! j = moved dw db bits m j"
  shows "shift_unaligned_step dw db bits m nw ! j = moved dw db bits (Suc m) j"
proof -
  consider "j = 0" "m = dw" | "0 < j" "m = j + dw" | "j + dw + 1 = m"
    | "j + dw \<noteq> m" "j + dw + 1 \<noteq> m" by fastforce
  then show ?thesis
    using assms by cases (auto simp: shift_unaligned_step_def moved_def Let_def nth_list_update)
qed

lemma length_shift_unaligned_step [simp]:
  "length (shift_unaligned_step dw db bits wi nw) = length nw"
  by (simp add: shift_unaligned_step_def Let_def)

lemma shift_unaligned_prefix:
  assumes "dw \<le> m" "m \<le> length bits"
  shows "length (fold (shift_unaligned_step dw db bits) [dw..<m] (replicate (length bits) 0))
           = length bits"
    and "j < length bits \<Longrightarrow>
      fold (shift_unaligned_step dw db bits) [dw..<m] (replicate (length bits) 0) ! j
        = moved dw db bits m j"
  using assms
proof (induction m arbitrary: j)
  case 0
  { case 1 then show ?case by simp }
  { case 2 then show ?case by (simp add: moved_def) }
next
  case (Suc m)
  { case 1 then show ?case using Suc.IH(1) by (cases "dw = Suc m") auto }
  { case 2
    show ?case
    proof (cases "dw = Suc m")
      case True
      then show ?thesis using 2 by (simp add: moved_def)
    next
      case False
      then show ?thesis
        using 2 Suc.IH by (simp add: shift_unaligned_step_nth)
    qed }
qed

lemma moved_bit:
  assumes "0 < db" "db < 64" "r < 64"
  shows "bit (moved dw db bits (length bits) j) r \<longleftrightarrow>
    (if r + db < 64 then j + dw < length bits \<and> bit (bits ! (j + dw)) (r + db)
     else j + dw + 1 < length bits \<and> bit (bits ! (j + dw + 1)) (r + db - 64))"
proof (cases "r + db < 64")
  case True
  then show ?thesis using assms by (auto simp: moved_def bit_simps add.commute)
next
  case False
  then have "64 - db \<le> r" "r - (64 - db) = r + db - 64" using assms by auto
  moreover have "\<not> bit (v :: u64) (db + r)" for v
    using False bit_imp_le_length [of v "db + r"] by auto
  ultimately show ?thesis using assms False by (auto simp: moved_def bit_simps)
qed

lemma divmod64: "s < 64 \<Longrightarrow> (64 * k + s) div 64 = k \<and> (64 * k + s) mod 64 = s" for k s :: nat
  by simp

lemma shift_unaligned_bits:
  assumes "0 < db" "db < 64"
  shows "bitat (shift_unaligned dw db bits) i \<longleftrightarrow> bitat bits (i + 64 * dw + db)"
    and "length (shift_unaligned dw db bits) = length bits"
proof -
  show len: "length (shift_unaligned dw db bits) = length bits"
    using shift_unaligned_prefix(1) [of dw "length bits" bits db]
    by (cases "dw \<le> length bits") (auto simp: shift_unaligned_def)
  define j r where "j = i div 64" and "r = i mod 64"
  have i: "i = 64 * j + r" and r: "r < 64" by (simp_all add: j_def r_def)
  have "i + 64 * dw + db = 64 * (if r + db < 64 then j + dw else j + dw + 1)
      + (if r + db < 64 then r + db else r + db - 64)"
    and "(if r + db < 64 then r + db else r + db - 64) < 64"
    using i r assms by auto
  then have pos: "(i + 64 * dw + db) div 64 = (if r + db < 64 then j + dw else j + dw + 1)"
    "(i + 64 * dw + db) mod 64 = (if r + db < 64 then r + db else r + db - 64)"
    by (simp_all only: divmod64)
  have nth: "shift_unaligned dw db bits ! j = moved dw db bits (length bits) j"
    if "j < length bits"
    using that shift_unaligned_prefix(2) [of dw "length bits" bits j db]
    by (cases "dw \<le> length bits") (auto simp: shift_unaligned_def moved_def)
  show "bitat (shift_unaligned dw db bits) i \<longleftrightarrow> bitat bits (i + 64 * dw + db)"
    unfolding bitat_def pos len
    using nth moved_bit [OF assms r, of dw bits j] by (auto simp flip: j_def r_def)
qed

section \<open>The abstract window\<close>

text \<open>
  The specification: a set \<open>T\<close> of the nonces already accepted. A nonce is acceptable if it is
  not in \<open>T\<close> and is not older than the last \<open>sz\<close> nonces up to the highest accepted one; nonce
  \<open>0\<close> has its own flag and never ages.
\<close>

definition nonce_max :: "nat set \<Rightarrow> nat" where
  "nonce_max T = Max (insert 0 T)"

definition fresh_spec :: "nat \<Rightarrow> nat set \<Rightarrow> nat \<Rightarrow> bool" where
  "fresh_spec sz T n \<longleftrightarrow> n \<notin> T \<and> (n = 0 \<or> nonce_max T < n + sz)"

definition tracks :: "replay_window \<Rightarrow> nat set \<Rightarrow> bool" where
  "tracks w T \<longleftrightarrow>
     finite T \<and> 0 < unat (rw_size w)
     \<and> length (rw_bits w) = (unat (rw_size w) + 63) div 64
     \<and> (rw_zeroSeen w \<longleftrightarrow> 0 \<in> T)
     \<and> unat (rw_max w) = nonce_max T
     \<and> (rw_max w \<noteq> 0 \<longrightarrow>
          rw_start w = windowStart (rw_max w) (rw_size w)
          \<and> (\<forall>i. bitat (rw_bits w) i \<longleftrightarrow> unat (rw_start w) + i \<in> T - {0}))"

lemma nonce_max_ge: "finite T \<Longrightarrow> n \<in> T \<Longrightarrow> n \<le> nonce_max T"
  by (simp add: nonce_max_def)

lemma nonce_max_insert [simp]: "finite T \<Longrightarrow> nonce_max (insert n T) = max n (nonce_max T)"
  by (cases "T = {}") (simp_all add: nonce_max_def insert_commute [of 0])

lemma nonce_max_0: "finite T \<Longrightarrow> nonce_max T = 0 \<Longrightarrow> T \<subseteq> {0}"
  using nonce_max_ge by fastforce

lemma windowStart_unat:
  assumes "0 < unat sz"
  shows "unat (windowStart mx sz) = (if unat sz \<le> unat mx then unat mx - unat sz + 1 else 0)"
proof (cases "sz \<le> mx")
  case True
  then have d: "unat (mx - sz) = unat mx - unat sz" by (rule unat_sub)
  moreover have "unat mx - unat sz + 1 < 2 ^ 64"
    using assms unat64_less [of mx] by simp
  ultimately have "unat (mx - sz + 1) = unat mx - unat sz + 1"
    by (simp add: unat_word_ariths)
  with True show ?thesis by (simp add: windowStart_def word_le_nat_alt)
qed (simp add: windowStart_def word_le_nat_alt)

lemma window_index:
  assumes "tracks w T" "rw_start w \<le> n" "unat n - unat (rw_start w) < unat (rw_size w)"
  shows "unat (n - rw_start w) = unat n - unat (rw_start w)"
    and "unat (n - rw_start w) div 64 < length (rw_bits w)"
  using assms by (auto simp: unat_sub tracks_def)

lemma Check_spec:
  assumes tr: "tracks w T"
  shows "Check w n = Some (fresh_spec (unat (rw_size w)) T (unat n))"
proof -
  have fin: "finite T" and sz: "0 < unat (rw_size w)" and mx: "unat (rw_max w) = nonce_max T"
    using tr by (auto simp: tracks_def)
  note start = windowStart_unat [OF sz, of "rw_max w"]
  consider "n = 0" | "n \<noteq> 0" "rw_max w = 0" | "n \<noteq> 0" "rw_max w \<noteq> 0" "rw_max w < n"
    | "n \<noteq> 0" "rw_max w \<noteq> 0" "n \<le> rw_max w" by force
  then show ?thesis
  proof cases
    case 1
    then show ?thesis using tr by (simp add: Check_def tracks_def fresh_spec_def)
  next
    case 2
    then have "unat n \<notin> T" using nonce_max_0 [OF fin] mx by (auto simp: unat_eq_0)
    with 2 mx sz show ?thesis by (simp add: Check_def fresh_spec_def)
  next
    case 3
    then have "unat n \<notin> T" using nonce_max_ge [OF fin] mx by (force simp: word_less_nat_alt)
    with 3 mx sz show ?thesis by (simp add: Check_def fresh_spec_def word_less_nat_alt)
  next
    case 4
    have st: "rw_start w = windowStart (rw_max w) (rw_size w)"
      and bits: "\<And>i. bitat (rw_bits w) i \<longleftrightarrow> unat (rw_start w) + i \<in> T - {0}"
      using tr 4 by (auto simp: tracks_def)
    have le: "unat n \<le> unat (rw_max w)" "unat n \<noteq> 0" using 4 by (auto simp: word_le_nat_alt unat_eq_0)
    show ?thesis
    proof (cases "n < rw_start w")
      case True
      then have "unat n + unat (rw_size w) \<le> nonce_max T"
        using start mx by (simp add: st word_less_nat_alt split: if_splits)
      with 4 True le show ?thesis by (simp add: Check_def fresh_spec_def)
    next
      case False
      then have ge: "rw_start w \<le> n" by simp
      have rng: "unat n - unat (rw_start w) < unat (rw_size w)" "nonce_max T < unat n + unat (rw_size w)"
        using start le ge sz mx by (auto simp: st word_le_nat_alt split: if_splits)
      have "unat (rw_start w) + unat (n - rw_start w) = unat n"
        using ge by (simp add: unat_sub word_le_nat_alt)
      then have "bitat (rw_bits w) (unat (n - rw_start w)) \<longleftrightarrow> unat n \<in> T - {0}"
        using bits by metis
      then have "getBit w (n - rw_start w) = Some (unat n \<in> T)"
        using window_index(2) [OF tr ge rng(1)] le by (simp add: getBit_bitat)
      with 4 False rng(2) show ?thesis by (simp add: Check_def fresh_spec_def leD)
    qed
  qed
qed

text \<open>The bitmap after a slide, and the two ways a commit reaches its final \<open>setBit\<close>.\<close>

lemma advance_fields [simp]:
  "rw_size (advance w n) = rw_size w" "rw_zeroSeen (advance w n) = rw_zeroSeen w"
  "rw_max (advance w n) = n" "rw_start (advance w n) = windowStart n (rw_size w)"
  by (simp_all add: advance_def Let_def)

lemma advance_bits:
  assumes len: "length (rw_bits w) = (unat (rw_size w) + 63) div 64"
    and ge: "rw_start w \<le> windowStart n (rw_size w)"
    and out: "\<And>i. bitat (rw_bits w) i \<Longrightarrow> i < unat (rw_size w)"
  shows "length (rw_bits (advance w n)) = length (rw_bits w)"
    and "bitat (rw_bits (advance w n)) i \<longleftrightarrow>
      bitat (rw_bits w) (i + (unat (windowStart n (rw_size w)) - unat (rw_start w)))"
proof -
  define shift where "shift = windowStart n (rw_size w) - rw_start w"
  have sh: "unat shift = unat (windowStart n (rw_size w)) - unat (rw_start w)"
    using ge by (simp add: shift_def unat_sub)
  have split: "unat shift = 64 * unat (shift div 64) + unat (shift mod 64)"
    by (simp add: unat_divmod64)
  have db: "unat (shift mod 64) < 64" by (simp add: unat_divmod64)
  have adv: "rw_bits (advance w n) =
      (if shift > 0 then
         if shift \<ge> rw_size w then replicate (length (rw_bits w)) 0
         else if unat (shift mod 64) = 0 then shift_aligned (unat (shift div 64)) (rw_bits w)
         else shift_unaligned (unat (shift div 64)) (unat (shift mod 64)) (rw_bits w)
       else rw_bits w)"
    by (simp add: advance_def Let_def shift_def)
  have *: "length (rw_bits (advance w n)) = length (rw_bits w) \<and>
    (bitat (rw_bits (advance w n)) i \<longleftrightarrow> bitat (rw_bits w) (i + unat shift))"
  proof -
    consider "shift = 0" | "shift \<noteq> 0" "rw_size w \<le> shift"
      | "shift \<noteq> 0" "shift < rw_size w" "unat (shift mod 64) = 0"
      | "shift \<noteq> 0" "shift < rw_size w" "0 < unat (shift mod 64)" by fastforce
    then show ?thesis
    proof cases
      case 1
      then show ?thesis by (simp add: adv)
    next
      case 2
      then show ?thesis using out [of "i + unat shift"]
        by (auto simp: adv word_le_nat_alt word_gt_0)
    next
      case 3
      then show ?thesis using shift_aligned_bits split 3(2) [folded not_le]
        by (simp add: adv word_gt_0)
    next
      case 4
      then show ?thesis using shift_unaligned_bits [OF 4(3) db] split 4(2) [folded not_le]
        by (simp add: adv word_gt_0 add.assoc)
    qed
  qed
  then show "length (rw_bits (advance w n)) = length (rw_bits w)"
    and "bitat (rw_bits (advance w n)) i \<longleftrightarrow>
      bitat (rw_bits w) (i + (unat (windowStart n (rw_size w)) - unat (rw_start w)))"
    using sh by simp_all
qed

text \<open>
  \<open>positioned w T\<close>: the window covers its highest nonce \<open>rw_max w\<close>, and its bitmap holds the
  members of \<open>T\<close>; setting the bit of a nonce in range adds that nonce.
\<close>

definition positioned :: "replay_window \<Rightarrow> nat set \<Rightarrow> bool" where
  "positioned w T \<longleftrightarrow>
     finite T \<and> 0 < unat (rw_size w)
     \<and> length (rw_bits w) = (unat (rw_size w) + 63) div 64
     \<and> (rw_zeroSeen w \<longleftrightarrow> 0 \<in> T)
     \<and> rw_max w \<noteq> 0
     \<and> rw_start w = windowStart (rw_max w) (rw_size w)
     \<and> (\<forall>i. bitat (rw_bits w) i \<longleftrightarrow> unat (rw_start w) + i \<in> T - {0})"

lemma positioned_tracks: "positioned w T \<Longrightarrow> unat (rw_max w) = nonce_max T \<Longrightarrow> tracks w T"
  by (simp add: positioned_def tracks_def)

lemma tracks_positioned: "tracks w T \<Longrightarrow> rw_max w \<noteq> 0 \<Longrightarrow> positioned w T"
  by (simp add: positioned_def tracks_def)

lemma positioned_setBit:
  assumes pos: "positioned w T" and n: "n \<noteq> 0" "n \<le> rw_max w" "rw_start w \<le> n"
    and mx: "unat (rw_max w) = nonce_max (insert (unat n) T)"
  shows "\<exists>w'. setBit w (n - rw_start w) = Some w' \<and> tracks w' (insert (unat n) T)
    \<and> rw_size w' = rw_size w"
proof -
  have sz: "0 < unat (rw_size w)" and st: "rw_start w = windowStart (rw_max w) (rw_size w)"
    using pos by (simp_all add: positioned_def)
  have idx: "unat (n - rw_start w) = unat n - unat (rw_start w)"
    using n by (simp add: unat_sub)
  moreover have "unat n - unat (rw_start w) < unat (rw_size w)"
    using n windowStart_unat [OF sz, of "rw_max w"] sz
    by (auto simp: st word_le_nat_alt split: if_splits)
  ultimately have "unat (n - rw_start w) div 64 < length (rw_bits w)"
    using pos by (auto simp: positioned_def)
  then obtain bs where bs: "setBit w (n - rw_start w) = Some (w\<lparr>rw_bits := bs\<rparr>)"
    "length bs = length (rw_bits w)"
    "\<And>i. bitat bs i \<longleftrightarrow> bitat (rw_bits w) i \<or> i = unat (n - rw_start w)"
    by (rule setBit_bits) blast
  have n': "unat n \<noteq> 0" "unat (rw_start w) \<le> unat n"
    using n by (auto simp: unat_eq_0 word_le_nat_alt)
  have at: "i = unat (n - rw_start w) \<longleftrightarrow> unat (rw_start w) + i = unat n" for i
    using idx n'(2) by auto
  have "bitat (rw_bits w) i \<longleftrightarrow> unat (rw_start w) + i \<in> T - {0}" for i
    using pos by (simp add: positioned_def)
  then have "bitat bs i \<longleftrightarrow> unat (rw_start w) + i \<in> T - {0} \<or> unat (rw_start w) + i = unat n" for i
    by (simp only: bs(3) at)
  then have "bitat bs i \<longleftrightarrow> unat (rw_start w) + i \<in> insert (unat n) T - {0}" for i
    using n'(1) by (metis Diff_iff insert_iff singletonD)
  then have "positioned (w\<lparr>rw_bits := bs\<rparr>) (insert (unat n) T)"
    using pos bs(2) n'(1) by (simp add: positioned_def)
  then show ?thesis using bs(1) mx positioned_tracks by fastforce
qed

lemma advance_positioned:
  assumes tr: "tracks w T" and mx: "rw_max w \<noteq> 0" "rw_max w < n"
  shows "positioned (advance w n) T"
proof -
  have pos: "positioned w T" using tr mx(1) by (rule tracks_positioned)
  then have fin: "finite T" and sz: "0 < unat (rw_size w)"
    and st: "rw_start w = windowStart (rw_max w) (rw_size w)"
    and len: "length (rw_bits w) = (unat (rw_size w) + 63) div 64"
    and bits: "\<And>i. bitat (rw_bits w) i \<longleftrightarrow> unat (rw_start w) + i \<in> T - {0}"
    by (auto simp: positioned_def)
  have top: "t \<in> T \<Longrightarrow> t < unat (rw_start w) + unat (rw_size w)" for t
    using nonce_max_ge [OF fin, of t] tr windowStart_unat [OF sz, of "rw_max w"]
    by (auto simp: st tracks_def split: if_splits)
  have out: "i < unat (rw_size w)" if "bitat (rw_bits w) i" for i
    using that bits top by fastforce
  have ge: "unat (rw_start w) \<le> unat (windowStart n (rw_size w))"
    using mx(2) by (auto simp: st windowStart_unat [OF sz] word_less_nat_alt)
  note adv = advance_bits [OF len _ out, of n]
  have "bitat (rw_bits (advance w n)) i \<longleftrightarrow> unat (windowStart n (rw_size w)) + i \<in> T - {0}" for i
    using adv(2) [of i] bits [of "i + (unat (windowStart n (rw_size w)) - unat (rw_start w))"] ge
    by (simp add: word_le_nat_alt add.commute add.left_commute)
  moreover have "length (rw_bits (advance w n)) = length (rw_bits w)"
    using adv(1) ge by (simp add: word_le_nat_alt)
  moreover have "n \<noteq> 0" using mx(2) by auto
  ultimately show ?thesis using pos len by (simp add: positioned_def)
qed

lemma Commit_spec:
  assumes tr: "tracks w T" and ok: "fresh_spec (unat (rw_size w)) T (unat n)"
  shows "\<exists>w'. Commit w n = Some w' \<and> tracks w' (insert (unat n) T) \<and> rw_size w' = rw_size w"
proof -
  have fin: "finite T" and sz: "0 < unat (rw_size w)" and mx: "unat (rw_max w) = nonce_max T"
    and len: "length (rw_bits w) = (unat (rw_size w) + 63) div 64"
    using tr by (auto simp: tracks_def)
  have start_le: "windowStart n (rw_size w) \<le> n"
    using windowStart_unat [OF sz, of n] sz by (auto simp: word_le_nat_alt)
  consider "n = 0" | "n \<noteq> 0" "rw_max w = 0" | "n \<noteq> 0" "rw_max w \<noteq> 0" "rw_max w < n"
    | "n \<noteq> 0" "rw_max w \<noteq> 0" "n \<le> rw_max w" by force
  then show ?thesis
  proof cases
    case 1
    then show ?thesis using tr by (auto simp: Commit_def tracks_def)
  next
    case 2
    define w1 where "w1 = w\<lparr>rw_max := n, rw_start := windowStart n (rw_size w),
      rw_bits := replicate (length (rw_bits w)) 0\<rparr>"
    have T0: "T \<subseteq> {0}" using nonce_max_0 [OF fin] 2 mx by simp
    have "positioned w1 T"
      using tr 2 T0 len by (auto simp: w1_def positioned_def tracks_def)
    from positioned_setBit [OF this, of n] 2 fin mx start_le show ?thesis
      by (simp add: Commit_def Let_def w1_def)
  next
    case 3
    then have "unat (rw_max (advance w n)) = nonce_max (insert (unat n) T)"
      using fin mx by (simp add: word_less_nat_alt)
    with positioned_setBit [OF advance_positioned [OF tr 3(2,3)], of n] 3 start_le show ?thesis
      by (simp add: Commit_def Let_def)
  next
    case 4
    have le: "unat n \<le> nonce_max T" using 4(3) mx by (simp add: word_le_nat_alt)
    have "rw_start w = windowStart (rw_max w) (rw_size w)"
      using tr 4(2) by (simp add: tracks_def)
    then have "rw_start w \<le> n"
      using ok 4(1) windowStart_unat [OF sz, of "rw_max w"] mx
      by (auto simp: fresh_spec_def word_le_nat_alt unat_eq_0 split: if_splits)
    with positioned_setBit [OF tracks_positioned [OF tr 4(2)], of n] 4 fin mx le show ?thesis
      by (simp add: Commit_def Let_def leD)
  qed
qed

lemma tracks_new: "0 < unat sz \<Longrightarrow> unat sz < 18446744073709551553 \<Longrightarrow> tracks (newReplayWindow sz) {}"
  by (simp add: tracks_def newReplayWindow_def nonce_max_def unat_divmod64 unat_word_ariths)

lemma newReplayWindow_size [simp]: "rw_size (newReplayWindow sz) = sz"
  by (simp add: newReplayWindow_def)

lemma tracks_default: "tracks (newReplayWindow replayWindowSizeBits) {}"
  by (rule tracks_new) (simp_all add: replayWindowSizeBits_def)

interpretation rw: replay_gate Check Commit tracks
proof unfold_locales
  fix w T n
  assume tr: "tracks w T"
  show "\<exists>b. Check w n = Some b" using Check_spec [OF tr] by blast
  show "Check w n = Some True" if "\<forall>t\<in>T. t < unat n"
  proof -
    have "finite T" "0 < unat (rw_size w)" using tr by (auto simp: tracks_def)
    then have "n = 0 \<or> nonce_max T < unat n + unat (rw_size w)"
      using that by (auto simp: nonce_max_def unat_gt_0)
    then show ?thesis using Check_spec [OF tr] that by (auto simp: fresh_spec_def)
  qed
  assume ch: "Check w n = Some True"
  show "unat n \<notin> T" using ch Check_spec [OF tr] by (simp add: fresh_spec_def)
  show "\<exists>w'. Commit w n = Some w' \<and> tracks w' (insert (unat n) T)"
    using ch Check_spec [OF tr] Commit_spec [OF tr] by auto
qed

section \<open>Runs of the gate\<close>

text \<open>
  The combined form \<open>Accept\<close> fed with a list of nonces, and the same run of the abstract
  window. \<open>None\<close> would be a run that panics.
\<close>

fun accept_all :: "replay_window \<Rightarrow> u64 list \<Rightarrow> bool list option" where
  "accept_all w [] = Some []"
| "accept_all w (n # ns) =
     (case Accept w n of
        None \<Rightarrow> None
      | Some (b, w') \<Rightarrow> map_option (Cons b) (accept_all w' ns))"

fun accept_spec :: "nat \<Rightarrow> nat set \<Rightarrow> u64 list \<Rightarrow> bool list" where
  "accept_spec sz T [] = []"
| "accept_spec sz T (n # ns) =
     (if fresh_spec sz T (unat n) then True # accept_spec sz (insert (unat n) T) ns
      else False # accept_spec sz T ns)"

lemma accept_all_refines:
  "tracks w T \<Longrightarrow> accept_all w ns = Some (accept_spec (unat (rw_size w)) T ns)"
proof (induction ns arbitrary: w T)
  case (Cons n ns)
  show ?case
  proof (cases "fresh_spec (unat (rw_size w)) T (unat n)")
    case True
    then obtain w' where "Commit w n = Some w'" "tracks w' (insert (unat n) T)" "rw_size w' = rw_size w"
      using Commit_spec [OF Cons.prems] by blast
    with True Cons.IH [of w'] Check_spec [OF Cons.prems, of n] show ?thesis
      by (simp add: Accept_def)
  next
    case False
    with Cons.IH [OF Cons.prems] Check_spec [OF Cons.prems, of n] show ?thesis
      by (simp add: Accept_def)
  qed
qed simp

lemma accept_spec_fresh: "(n, True) \<in> set (zip ns (accept_spec sz T ns)) \<Longrightarrow> unat n \<notin> T"
  by (induction ns arbitrary: T) (auto simp: fresh_spec_def split: if_splits)

lemma accept_spec_distinct: "distinct (map fst (filter snd (zip ns (accept_spec sz T ns))))"
proof (induction ns arbitrary: T)
  case (Cons n ns)
  show ?case
    using Cons.IH accept_spec_fresh [of n ns sz "insert (unat n) T"] by auto
qed simp

section \<open>Properties\<close>

text \<open>C8: The sliding bitmap is a correct implementation of the abstract window. For every
  sequence of nonces, a fresh window of the configured 2048 bits never indexes out of its
  bitmap and accepts exactly the nonces the set-based specification accepts: those not
  accepted before and not older than the 2048 nonces up to the highest accepted one.\<close>

theorem replay_window_refines_set:
  "accept_all (newReplayWindow replayWindowSizeBits) ns = Some (accept_spec 2048 {} ns)"
  using accept_all_refines [OF tracks_default] by (simp add: replayWindowSizeBits_def)

text \<open>No replay. Whatever sequence of nonces arrives, the window accepts no nonce twice.\<close>

theorem replay_window_no_replay:
  "\<exists>bs. accept_all (newReplayWindow replayWindowSizeBits) ns = Some bs
     \<and> distinct (map fst (filter snd (zip ns bs)))"
  using accept_all_refines [OF tracks_default] accept_spec_distinct by blast

end
