(* ===== verification/Noise_Session.thy ===== *)
theory Noise_Session
  imports Prelude
begin

text \<open>
  The transport session of \<^verbatim>\<open>internal/noisework/noisework.go\<close>: explicit nonces, deterministic
  rekeying by epochs, and out-of-order decryption. The cipher state itself is
  \<^verbatim>\<open>github.com/flynn/noise\<close>, which is not part of the repository: its methods are the fields of
  \<open>cipher_api\<close>, arguments of every definition that calls them, and \<open>cipher_laws\<close> states what
  the Noise specification says of them.
\<close>

section \<open>The cipher state of the Noise library\<close>

record ('c, 'k) cipher_api =
  c_setNonce :: "u64 \<Rightarrow> 'c \<Rightarrow> 'c"
  c_encrypt :: "bytes \<Rightarrow> 'c \<Rightarrow> bytes option \<times> 'c"
  c_decrypt :: "bytes \<Rightarrow> 'c \<Rightarrow> bytes option \<times> 'c"
  c_rekey :: "'c \<Rightarrow> 'c"
  c_key :: "'c \<Rightarrow> 'k"          \<comment> \<open>\<^verbatim>\<open>UnsafeKey\<close>\<close>
  c_new :: "'k \<Rightarrow> u64 \<Rightarrow> 'c"   \<comment> \<open>\<^verbatim>\<open>UnsafeNewCipherState\<close>\<close>

section \<open>Constants\<close>

definition KeySize :: nat where "KeySize = 32"
definition maxUDPPayload :: nat where "maxUDPPayload = 65507"
definition frameHeader :: nat where "frameHeader = 3"
definition nonceLen :: nat where "nonceLen = 8"
definition aeadTag :: nat where "aeadTag = 16"
definition maxPlaintextLen :: nat where
  "maxPlaintextLen = maxUDPPayload - frameHeader - nonceLen - aeadTag"
definition DefaultRekeyEvery :: u64 where "DefaultRekeyEvery = 2 ^ 20"
definition maxEpochJump :: u64 where "maxEpochJump = 64"
definition MaxNonce :: u64 where "MaxNonce = NOT 0 - 1"

lemma maxPlaintextLen_eq: "maxPlaintextLen = 65480"
  by (simp add: maxPlaintextLen_def maxUDPPayload_def frameHeader_def nonceLen_def aeadTag_def)

lemma unat_MaxNonce [simp]: "unat MaxNonce = 18446744073709551614"
  by (simp add: MaxNonce_def)

section \<open>The session\<close>

datatype noise_error =
    SessionNotReady
  | SendNonceExhausted
  | SendJumpTooLarge u64
  | EncryptFailed
  | NonceOutOfRange
  | DecryptFailed
  | BehindEpoch u64
  | RecvJumpTooLarge u64
  | RecvNonceExhausted

record 'c session =
  s_peerStatic :: "bytes option"
  s_channelBinding :: "bytes option"
  s_send :: "'c option"
  s_recv :: "'c option"
  s_sendCount :: u64
  s_recvCount :: u64
  s_sendEpoch :: u64
  s_recvEpoch :: u64
  s_rekeyEvery :: u64
  s_start :: gotime

definition epochOf :: "u64 \<Rightarrow> u64 \<Rightarrow> u64" where
  "epochOf nonce rekeyEvery =
     (let rekeyEvery = (if rekeyEvery = 0 then DefaultRekeyEvery else rekeyEvery)
      in nonce div rekeyEvery)"

text \<open>The loop of \<^verbatim>\<open>rekeySendTo\<close>, over the send cipher and the send epoch.\<close>

function rekeySendLoop ::
    "('c, 'k) cipher_api \<Rightarrow> u64 \<Rightarrow> 'c \<Rightarrow> u64 \<Rightarrow> bool \<times> 'c \<times> u64" where
  "rekeySendLoop api ep c e =
     (if e < ep then
        if ep - e > maxEpochJump then (False, c, e)
        else rekeySendLoop api ep (c_rekey api c) (e + 1)
      else (True, c, e))"
  by pat_completeness auto
termination
  by (relation "measure (\<lambda>(api, ep, c, e). unat ep - unat e)")
    (auto simp: unat_inc_less word_less_nat_alt)

declare rekeySendLoop.simps [simp del]

definition rekeySendTo ::
    "('c, 'k) cipher_api \<Rightarrow> 'c session \<Rightarrow> 'c \<Rightarrow> u64 \<Rightarrow> bool \<times> 'c session" where
  "rekeySendTo api s c nonce =
     (let ep = epochOf nonce (s_rekeyEvery s);
          (ok, c', e') = rekeySendLoop api ep c (s_sendEpoch s)
      in (ok, s\<lparr>s_send := Some c', s_sendEpoch := e'\<rparr>))"

definition Send ::
    "('c, 'k) cipher_api \<Rightarrow> 'c session \<Rightarrow> bytes \<Rightarrow> (noise_error + u64 \<times> bytes) \<times> 'c session" where
  "Send api s plaintext =
     (case s_send s of
        None \<Rightarrow> (Inl SessionNotReady, s)
      | Some c \<Rightarrow>
          if s_sendCount s > MaxNonce then (Inl SendNonceExhausted, s)
          else let (ok, s1) = rekeySendTo api s c (s_sendCount s)
               in if \<not> ok then (Inl (SendJumpTooLarge (s_sendCount s)), s1)
                  else let (ct, c2) = c_encrypt api plaintext
                             (c_setNonce api (s_sendCount s1) (the (s_send s1)));
                           s2 = s1\<lparr>s_send := Some c2\<rparr>
                       in (case ct of
                             None \<Rightarrow> (Inl EncryptFailed, s2)
                           | Some ct \<Rightarrow>
                               (Inr (s_sendCount s2, ct), s2\<lparr>s_sendCount := s_sendCount s2 + 1\<rparr>)))"

definition Encrypt ::
    "('c, 'k) cipher_api \<Rightarrow> 'c session \<Rightarrow> bytes \<Rightarrow> (noise_error + bytes) \<times> 'c session" where
  "Encrypt api s plaintext =
     (case Send api s plaintext of
        (Inl e, s') \<Rightarrow> (Inl e, s')
      | (Inr (_, ct), s') \<Rightarrow> (Inr ct, s'))"

text \<open>
  The two rekey loops of \<^verbatim>\<open>DecryptAt\<close> count an epoch up to \<open>ep\<close>: one rekeys the throwaway
  state, the other the live one.
\<close>

function rekeyUpTo :: "('c, 'k) cipher_api \<Rightarrow> u64 \<Rightarrow> 'c \<Rightarrow> u64 \<Rightarrow> 'c \<times> u64" where
  "rekeyUpTo api ep c i = (if i < ep then rekeyUpTo api ep (c_rekey api c) (i + 1) else (c, i))"
  by pat_completeness auto
termination
  by (relation "measure (\<lambda>(api, ep, c, i). unat ep - unat i)")
    (auto simp: unat_inc_less word_less_nat_alt)

declare rekeyUpTo.simps [simp del]

definition DecryptAt ::
    "('c, 'k) cipher_api \<Rightarrow> 'c session \<Rightarrow> u64 \<Rightarrow> bytes \<Rightarrow> (noise_error + bytes) \<times> 'c session" where
  "DecryptAt api s nonce ciphertext =
     (case s_recv s of
        None \<Rightarrow> (Inl SessionNotReady, s)
      | Some c \<Rightarrow>
          if nonce > MaxNonce then (Inl NonceOutOfRange, s)
          else
            let ep = epochOf nonce (s_rekeyEvery s) in
            if ep = s_recvEpoch s then
              let (pt, c1) = c_decrypt api ciphertext (c_setNonce api nonce c);
                  s1 = s\<lparr>s_recv := Some c1\<rparr>
              in (case pt of
                    None \<Rightarrow> (Inl DecryptFailed, s1)
                  | Some pt \<Rightarrow> (Inr pt, s1))
            else if ep < s_recvEpoch s then (Inl (BehindEpoch nonce), s)
            else if ep - s_recvEpoch s > maxEpochJump then (Inl (RecvJumpTooLarge nonce), s)
            else
              let cand = fst (rekeyUpTo api ep (c_new api (c_key api c) 0) (s_recvEpoch s));
                  (pt, cand') = c_decrypt api ciphertext (c_setNonce api nonce cand)
              in (case pt of
                    None \<Rightarrow> (Inl DecryptFailed, s)
                  | Some pt \<Rightarrow>
                      let (c1, e1) = rekeyUpTo api ep c (s_recvEpoch s)
                      in (Inr pt, s\<lparr>s_recv := Some (c_setNonce api (nonce + 1) c1),
                                    s_recvEpoch := e1\<rparr>)))"

definition Decrypt ::
    "('c, 'k) cipher_api \<Rightarrow> 'c session \<Rightarrow> bytes \<Rightarrow> (noise_error + bytes) \<times> 'c session" where
  "Decrypt api s ciphertext =
     (if s_recv s = None then (Inl SessionNotReady, s)
      else let n = s_recvCount s
           in if n > MaxNonce then (Inl RecvNonceExhausted, s)
              else (case DecryptAt api s n ciphertext of
                      (Inl e, s1) \<Rightarrow> (Inl e, s1)
                    | (Inr pt, s1) \<Rightarrow> (Inr pt, s1\<lparr>s_recvCount := n + 1\<rparr>)))"

text \<open>\<^verbatim>\<open>PeerStatic\<close>, \<^verbatim>\<open>ChannelBinding\<close>, \<^verbatim>\<open>MaxPlaintextLen\<close> and \<^verbatim>\<open>Age\<close>; \<^verbatim>\<open>clone\<close> copies a slice.\<close>

definition PeerStatic :: "'c session \<Rightarrow> bytes option" where
  "PeerStatic s = s_peerStatic s"

definition ChannelBinding :: "'c session \<Rightarrow> bytes option" where
  "ChannelBinding s = s_channelBinding s"

definition MaxPlaintextLen :: "'c session \<Rightarrow> nat" where
  "MaxPlaintextLen s = maxPlaintextLen"

definition Age :: "'c session \<Rightarrow> gotime \<Rightarrow> duration" where
  "Age s now = (if s_start s = 0 then 0 else time_sub now (s_start s))"

section \<open>What the Noise specification says of a cipher state\<close>

text \<open>
  A cipher state has a key and a nonce. \<^verbatim>\<open>SetNonce\<close> leaves the key alone, \<^verbatim>\<open>Encrypt\<close> and
  \<^verbatim>\<open>Decrypt\<close> compute \<open>seal\<close> and \<open>opn\<close> of the key and the nonce just set (up to the largest
  nonce) and keep the key, \<^verbatim>\<open>Rekey\<close> replaces the key by a function of it, and opening what was
  sealed with the same key and nonce gives the plaintext.
\<close>

definition cipher_laws ::
    "('c, 'k) cipher_api \<Rightarrow> ('k \<Rightarrow> u64 \<Rightarrow> bytes \<Rightarrow> bytes) \<Rightarrow>
     ('k \<Rightarrow> u64 \<Rightarrow> bytes \<Rightarrow> bytes option) \<Rightarrow> ('k \<Rightarrow> 'k) \<Rightarrow> bool" where
  "cipher_laws api seal opn rk \<longleftrightarrow>
     (\<forall>n c. c_key api (c_setNonce api n c) = c_key api c)
     \<and> (\<forall>c. c_key api (c_rekey api c) = rk (c_key api c))
     \<and> (\<forall>k n. c_key api (c_new api k n) = k)
     \<and> (\<forall>p n c. n \<le> MaxNonce \<longrightarrow>
          fst (c_encrypt api p (c_setNonce api n c)) = Some (seal (c_key api c) n p)
          \<and> c_key api (snd (c_encrypt api p (c_setNonce api n c))) = c_key api c)
     \<and> (\<forall>x n c. n \<le> MaxNonce \<longrightarrow>
          fst (c_decrypt api x (c_setNonce api n c)) = opn (c_key api c) n x
          \<and> c_key api (snd (c_decrypt api x (c_setNonce api n c))) = c_key api c)
     \<and> (\<forall>k n p. n \<le> MaxNonce \<longrightarrow> opn k n (seal k n p) = Some p)"

lemma cipher_lawsD:
  assumes "cipher_laws api seal opn rk"
  shows "c_key api (c_setNonce api n c) = c_key api c"
    "c_key api (c_rekey api c) = rk (c_key api c)"
    "c_key api (c_new api k n) = k"
    "n \<le> MaxNonce \<Longrightarrow>
      fst (c_encrypt api p (c_setNonce api n c)) = Some (seal (c_key api c) n p)"
    "n \<le> MaxNonce \<Longrightarrow> c_key api (snd (c_encrypt api p (c_setNonce api n c))) = c_key api c"
    "n \<le> MaxNonce \<Longrightarrow> fst (c_decrypt api x (c_setNonce api n c)) = opn (c_key api c) n x"
    "n \<le> MaxNonce \<Longrightarrow> c_key api (snd (c_decrypt api x (c_setNonce api n c))) = c_key api c"
    "n \<le> MaxNonce \<Longrightarrow> opn k n (seal k n p) = Some p"
  using assms unfolding cipher_laws_def by blast+

text \<open>A concrete cipher, for the witnesses: it prefixes the key and the nonce.\<close>

definition demo_api :: "(nat \<times> u64, nat) cipher_api" where
  "demo_api =
     \<lparr>c_setNonce = \<lambda>n (k, _). (k, n),
      c_encrypt = \<lambda>p (k, n). (Some (of_nat k # put64 n @ p), (k, n + 1)),
      c_decrypt = \<lambda>x (k, n). if take 9 x = of_nat k # put64 n
        then (Some (drop 9 x), (k, n + 1)) else (None, (k, n)),
      c_rekey = \<lambda>(k, n). (Suc k, n),
      c_key = fst,
      c_new = Pair\<rparr>"

definition demo_seal :: "nat \<Rightarrow> u64 \<Rightarrow> bytes \<Rightarrow> bytes" where
  "demo_seal k n p = of_nat k # put64 n @ p"

definition demo_open :: "nat \<Rightarrow> u64 \<Rightarrow> bytes \<Rightarrow> bytes option" where
  "demo_open k n x = (if take 9 x = of_nat k # put64 n then Some (drop 9 x) else None)"

lemma demo_laws: "cipher_laws demo_api demo_seal demo_open Suc"
  by (auto simp: cipher_laws_def demo_api_def demo_seal_def demo_open_def split: if_splits)

section \<open>Epochs and rekeying\<close>

lemma funpow_shift: "f ((f ^^ n) x) = (f ^^ n) (f x)"
  by (simp add: funpow_swap1)

lemma rekeyUpTo_eq:
  "i \<le> ep \<Longrightarrow> rekeyUpTo api ep c i = ((c_rekey api ^^ (unat ep - unat i)) c, ep)"
proof (induction api ep c i rule: rekeyUpTo.induct)
  case (1 api ep c i)
  show ?case
  proof (cases "i < ep")
    case True
    then have "i + 1 \<le> ep" "unat ep - unat i = Suc (unat ep - unat (i + 1))"
      by (auto simp: word_le_nat_alt word_less_nat_alt unat_inc_less)
    with 1 True show ?thesis
      by (simp add: rekeyUpTo.simps [of api ep c i] funpow_shift)
  next
    case False
    with 1 show ?thesis by (simp add: rekeyUpTo.simps [of api ep c ep])
  qed
qed

lemma rekeySendLoop_ok:
  "e \<le> ep \<Longrightarrow> unat ep - unat e \<le> 64 \<Longrightarrow>
   rekeySendLoop api ep c e = (True, (c_rekey api ^^ (unat ep - unat e)) c, ep)"
proof (induction api ep c e rule: rekeySendLoop.induct)
  case (1 api ep c e)
  show ?case
  proof (cases "e < ep")
    case True
    then have "e + 1 \<le> ep" "unat ep - unat e = Suc (unat ep - unat (e + 1))"
      "\<not> ep - e > maxEpochJump"
      using 1(3) by (auto simp: word_le_nat_alt word_less_nat_alt unat_inc_less maxEpochJump_def unat_sub)
    with 1 True show ?thesis
      by (simp add: rekeySendLoop.simps [of api ep c e] funpow_shift)
  next
    case False
    with 1 show ?thesis by (simp add: rekeySendLoop.simps [of api ep c ep])
  qed
qed

lemma key_funpow:
  "cipher_laws api seal opn rk \<Longrightarrow> c_key api ((c_rekey api ^^ n) c) = (rk ^^ n) (c_key api c)"
  by (induction n) (simp_all add: cipher_lawsD)

text \<open>
  The key schedule: the cipher of a direction with root key \<open>k0\<close> holds the root key rekeyed as
  many times as its epoch counter says.
\<close>

definition send_keyed :: "('c, 'k) cipher_api \<Rightarrow> ('k \<Rightarrow> 'k) \<Rightarrow> 'k \<Rightarrow> 'c session \<Rightarrow> bool" where
  "send_keyed api rk k0 s \<longleftrightarrow>
     map_option (c_key api) (s_send s) = Some ((rk ^^ unat (s_sendEpoch s)) k0)"

definition recv_keyed :: "('c, 'k) cipher_api \<Rightarrow> ('k \<Rightarrow> 'k) \<Rightarrow> 'k \<Rightarrow> 'c session \<Rightarrow> bool" where
  "recv_keyed api rk k0 s \<longleftrightarrow>
     map_option (c_key api) (s_recv s) = Some ((rk ^^ unat (s_recvEpoch s)) k0)"

definition epoch_key :: "('k \<Rightarrow> 'k) \<Rightarrow> 'k \<Rightarrow> u64 \<Rightarrow> u64 \<Rightarrow> 'k" where
  "epoch_key rk k0 every n = (rk ^^ unat (epochOf n every)) k0"

lemma Send_spec:
  assumes laws: "cipher_laws api seal opn rk" and keyed: "send_keyed api rk k0 s"
    and n: "s_sendCount s \<le> MaxNonce"
    and ep: "s_sendEpoch s \<le> epochOf (s_sendCount s) (s_rekeyEvery s)"
      "unat (epochOf (s_sendCount s) (s_rekeyEvery s)) \<le> unat (s_sendEpoch s) + 64"
  shows "\<exists>s'. Send api s p = (Inr (s_sendCount s,
            seal (epoch_key rk k0 (s_rekeyEvery s) (s_sendCount s)) (s_sendCount s) p), s')
          \<and> send_keyed api rk k0 s' \<and> s_sendCount s' = s_sendCount s + 1
          \<and> s_sendEpoch s' = epochOf (s_sendCount s) (s_rekeyEvery s)
          \<and> s_rekeyEvery s' = s_rekeyEvery s"
proof -
  let ?n = "s_sendCount s" and ?ep = "epochOf (s_sendCount s) (s_rekeyEvery s)"
  obtain c where c: "s_send s = Some c" "c_key api c = (rk ^^ unat (s_sendEpoch s)) k0"
    using keyed by (auto simp: send_keyed_def)
  define c1 where "c1 = (c_rekey api ^^ (unat ?ep - unat (s_sendEpoch s))) c"
  have "rekeySendLoop api ?ep c (s_sendEpoch s) = (True, c1, ?ep)"
    unfolding c1_def using ep by (intro rekeySendLoop_ok) auto
  then have to: "rekeySendTo api s c ?n = (True, s\<lparr>s_send := Some c1, s_sendEpoch := ?ep\<rparr>)"
    by (simp add: rekeySendTo_def Let_def)
  have "unat ?ep - unat (s_sendEpoch s) + unat (s_sendEpoch s) = unat ?ep"
    using ep(1) by (simp add: word_le_nat_alt)
  then have k1: "c_key api c1 = epoch_key rk k0 (s_rekeyEvery s) ?n"
    by (simp add: c1_def key_funpow [OF laws] c(2) epoch_key_def flip: funpow_add comp_apply [of "rk ^^ _"])
  obtain ct c2 where enc: "c_encrypt api p (c_setNonce api ?n c1) = (ct, c2)" by fastforce
  with cipher_lawsD(4,5) [OF laws n, of p c1] k1
  have "ct = Some (seal (epoch_key rk k0 (s_rekeyEvery s) ?n) ?n p)"
    "c_key api c2 = epoch_key rk k0 (s_rekeyEvery s) ?n" by simp_all
  then show ?thesis
    using n c(1) to enc by (simp add: Send_def Let_def send_keyed_def epoch_key_def not_less)
qed

lemma DecryptAt_spec:
  assumes laws: "cipher_laws api seal opn rk" and keyed: "recv_keyed api rk k0 r"
    and n: "n \<le> MaxNonce"
    and ep: "s_recvEpoch r \<le> epochOf n (s_rekeyEvery r)"
      "unat (epochOf n (s_rekeyEvery r)) \<le> unat (s_recvEpoch r) + 64"
    and x: "opn (epoch_key rk k0 (s_rekeyEvery r) n) n x = Some p"
  shows "\<exists>r'. DecryptAt api r n x = (Inr p, r') \<and> recv_keyed api rk k0 r'
          \<and> s_recvEpoch r' = epochOf n (s_rekeyEvery r)
          \<and> s_rekeyEvery r' = s_rekeyEvery r \<and> s_recvCount r' = s_recvCount r"
proof -
  let ?ep = "epochOf n (s_rekeyEvery r)"
  obtain c where c: "s_recv r = Some c" "c_key api c = (rk ^^ unat (s_recvEpoch r)) k0"
    using keyed by (auto simp: recv_keyed_def)
  have sum: "unat ?ep - unat (s_recvEpoch r) + unat (s_recvEpoch r) = unat ?ep"
    using ep(1) by (simp add: word_le_nat_alt)
  have up: "rekeyUpTo api ?ep c' (s_recvEpoch r)
      = ((c_rekey api ^^ (unat ?ep - unat (s_recvEpoch r))) c', ?ep)" for c'
    using ep(1) by (rule rekeyUpTo_eq)
  have up_key: "c_key api ((c_rekey api ^^ (unat ?ep - unat (s_recvEpoch r))) c')
      = epoch_key rk k0 (s_rekeyEvery r) n" if "c_key api c' = c_key api c" for c'
    using sum by (simp add: that key_funpow [OF laws] c(2) epoch_key_def
        flip: funpow_add comp_apply [of "rk ^^ _"])
  show ?thesis
  proof (cases "?ep = s_recvEpoch r")
    case True
    then have "c_key api c = epoch_key rk k0 (s_rekeyEvery r) n"
      using c(2) by (simp add: epoch_key_def)
    moreover obtain pt c1 where "c_decrypt api x (c_setNonce api n c) = (pt, c1)" by fastforce
    ultimately show ?thesis
      using cipher_lawsD(6,7) [OF laws n, of x c] True c n x
      by (simp add: DecryptAt_def Let_def recv_keyed_def not_less)
  next
    case False
    define cand where
      "cand = (c_rekey api ^^ (unat ?ep - unat (s_recvEpoch r))) (c_new api (c_key api c) 0)"
    have "c_key api cand = epoch_key rk k0 (s_rekeyEvery r) n"
      unfolding cand_def by (rule up_key) (simp add: cipher_lawsD [OF laws])
    moreover obtain pt c1 where "c_decrypt api x (c_setNonce api n cand) = (pt, c1)" by fastforce
    ultimately have dec: "c_decrypt api x (c_setNonce api n cand) = (Some p, c1)"
      using cipher_lawsD(6) [OF laws n, of x cand] x by simp
    have "\<not> ?ep < s_recvEpoch r" "\<not> ?ep - s_recvEpoch r > maxEpochJump"
      using ep by (auto simp: maxEpochJump_def word_less_nat_alt word_le_nat_alt unat_sub)
    then show ?thesis
      using False c(1) n dec up_key [of c] cipher_lawsD(1) [OF laws]
      by (simp add: DecryptAt_def Let_def up recv_keyed_def epoch_key_def not_less flip: cand_def)
  qed
qed

text \<open>A failed \<open>DecryptAt\<close> changes at most the nonce inside the live cipher state.\<close>

lemma DecryptAt_fail:
  assumes "cipher_laws api seal opn rk" "DecryptAt api r n x = (Inl e, r')"
  shows "map_option (c_key api) (s_recv r') = map_option (c_key api) (s_recv r)"
    and "r' = r\<lparr>s_recv := s_recv r'\<rparr>"
  using assms cipher_lawsD(7) [OF assms(1), of n x "the (s_recv r)"]
  by (auto simp: DecryptAt_def Let_def not_less
      split: option.splits prod.splits if_splits)

lemma DecryptAt_epoch:
  "unat (s_recvEpoch r) \<le> unat (s_recvEpoch (snd (DecryptAt api r n x)))
   \<and> unat (s_recvEpoch (snd (DecryptAt api r n x))) \<le> unat (s_recvEpoch r) + 64"
proof (cases "epochOf n (s_rekeyEvery r) < s_recvEpoch r")
  case True
  then show ?thesis by (auto simp: DecryptAt_def Let_def split: option.splits)
next
  case False
  let ?ep = "epochOf n (s_rekeyEvery r)"
  have le: "s_recvEpoch r \<le> ?ep" using False by simp
  have "unat ?ep \<le> unat (s_recvEpoch r) + 64" if "\<not> ?ep - s_recvEpoch r > maxEpochJump"
    using that le by (auto simp: maxEpochJump_def word_less_nat_alt unat_sub)
  then show ?thesis
    using le by (auto simp: DecryptAt_def Let_def rekeyUpTo_eq [OF le] word_le_nat_alt
        split: option.splits prod.splits)
qed

section \<open>Runs\<close>

text \<open>Sending a list of messages, and decrypting a list of ciphertexts in order.\<close>

fun send_all ::
    "('c, 'k) cipher_api \<Rightarrow> 'c session \<Rightarrow> bytes list \<Rightarrow> (noise_error + u64 \<times> bytes) list" where
  "send_all api s [] = []"
| "send_all api s (p # ps) = (case Send api s p of (r, s') \<Rightarrow> r # send_all api s' ps)"

fun encrypt_all ::
    "('c, 'k) cipher_api \<Rightarrow> 'c session \<Rightarrow> bytes list \<Rightarrow> (noise_error + bytes) list" where
  "encrypt_all api s [] = []"
| "encrypt_all api s (p # ps) = (case Encrypt api s p of (r, s') \<Rightarrow> r # encrypt_all api s' ps)"

fun decrypt_all ::
    "('c, 'k) cipher_api \<Rightarrow> 'c session \<Rightarrow> (noise_error + bytes) list \<Rightarrow> (noise_error + bytes) list" where
  "decrypt_all api r [] = []"
| "decrypt_all api r (Inl e # xs) = Inl e # decrypt_all api r xs"
| "decrypt_all api r (Inr x # xs) = (case Decrypt api r x of (y, r') \<Rightarrow> y # decrypt_all api r' xs)"

text \<open>
  A direction that only ever advances its nonce by one meets each epoch in turn: the epoch of
  the next nonce is the current one or the one after it.
\<close>

definition on_schedule :: "u64 \<Rightarrow> u64 \<Rightarrow> u64 \<Rightarrow> bool" where
  "on_schedule epoch count every \<longleftrightarrow>
     (if count = 0 then epoch = 0 else epoch = epochOf (count - 1) every)"

lemma epochOf_unat:
  "unat (epochOf n every) = unat n div (if every = 0 then 1048576 else unat every)"
  by (simp add: epochOf_def Let_def unat_div_distrib DefaultRekeyEvery_def)

lemma on_schedule_next:
  assumes "on_schedule e n every"
  shows "e \<le> epochOf n every \<and> unat (epochOf n every) \<le> unat e + 64"
proof (cases "n = 0")
  case True
  then show ?thesis using assms
    by (simp add: on_schedule_def epochOf_unat)
next
  case False
  let ?d = "if every = 0 then 1048576 else unat every"
  have d: "0 < ?d" by (simp add: word_gt_0 unat_eq_0 flip: neq0_conv)
  have n: "unat n = Suc (unat (n - 1))"
    using False by (simp add: unat_minus_one unat_eq_0 Suc_pred' flip: neq0_conv)
  have "unat e = unat (n - 1) div ?d"
    using assms False by (simp add: on_schedule_def epochOf_unat)
  moreover have "unat (n - 1) div ?d \<le> unat n div ?d" using n by (simp add: div_le_mono)
  moreover have "unat n div ?d \<le> Suc (unat (n - 1) div ?d)"
    using d by (simp add: n div_Suc)
  ultimately show ?thesis unfolding word_le_nat_alt epochOf_unat by linarith
qed

lemma on_schedule_step:
  "n \<le> MaxNonce \<Longrightarrow> on_schedule (epochOf n every) (n + 1) every"
proof -
  assume "n \<le> MaxNonce"
  then have "unat (n + 1) = unat n + 1" by (intro unat_inc) (simp add: word_le_nat_alt)
  then have "n + 1 \<noteq> 0" by (metis add_is_0 one_neq_zero unat_0)
  then show ?thesis by (simp add: on_schedule_def)
qed

lemma Send_count:
  "Send api s p = (Inr (n, ct), s') \<Longrightarrow>
     n = s_sendCount s \<and> n \<le> MaxNonce \<and> s_sendCount s' = s_sendCount s + 1"
  "Send api s p = (Inl e, s') \<Longrightarrow> s_sendCount s' = s_sendCount s"
  by (auto simp: Send_def rekeySendTo_def Let_def not_less
      split: option.splits prod.splits if_splits)

lemma send_all_nonces:
  "Inr (n, ct) \<in> set (send_all api s ps) \<Longrightarrow> unat (s_sendCount s) \<le> unat n"
proof (induction ps arbitrary: s)
  case (Cons p ps)
  obtain r s' where s: "Send api s p = (r, s')" by fastforce
  have "unat (s_sendCount s) \<le> unat (s_sendCount s')"
    using Send_count [of api s p] s unat_inc [of "s_sendCount s"]
    by (cases r) (auto simp: word_le_nat_alt)
  with Cons s Send_count(1) [of api s p n ct] show ?case by fastforce
qed simp

text \<open>The nonces a list of results hands out.\<close>

definition sent_nonces :: "(noise_error + u64 \<times> bytes) list \<Rightarrow> u64 list" where
  "sent_nonces rs = concat (map (\<lambda>r. case r of Inl _ \<Rightarrow> [] | Inr (n, _) \<Rightarrow> [n]) rs)"

lemma sent_nonces_simps [simp]:
  "sent_nonces [] = []" "sent_nonces (Inl e # rs) = sent_nonces rs"
  "sent_nonces (Inr (n, ct) # rs) = n # sent_nonces rs"
  by (simp_all add: sent_nonces_def)

lemma in_sent_nonces: "n \<in> set (sent_nonces rs) \<longleftrightarrow> (\<exists>ct. Inr (n, ct) \<in> set rs)"
  by (force simp: sent_nonces_def split: sum.splits)

lemma sent_nonces_distinct: "distinct (sent_nonces (send_all api s ps))"
proof (induction ps arbitrary: s)
  case (Cons p ps)
  obtain r s' where s: "Send api s p = (r, s')" by fastforce
  show ?case
  proof (cases r)
    case (Inr nct)
    then obtain n ct where r: "r = Inr (n, ct)" by (cases nct) auto
    then have n: "n = s_sendCount s" "n \<le> MaxNonce" "s_sendCount s' = s_sendCount s + 1"
      using s Send_count(1) by blast+
    then have "unat n < unat (s_sendCount s')"
      using unat_inc [of n] by (simp add: word_le_nat_alt)
    then have "n \<notin> set (sent_nonces (send_all api s' ps))"
      using send_all_nonces [of n _ api s' ps] by (auto simp: in_sent_nonces)
    with Cons.IH s r show ?thesis by simp
  qed (use Cons.IH s in simp)
qed simp

lemma DecryptAt_sound:
  assumes laws: "cipher_laws api seal opn rk" and keyed: "recv_keyed api rk k0 r"
    and dec: "DecryptAt api r n x = (Inr p, r')"
  shows "n \<le> MaxNonce \<and> opn (epoch_key rk k0 (s_rekeyEvery r) n) n x = Some p"
proof -
  let ?ep = "epochOf n (s_rekeyEvery r)"
  obtain c where c: "s_recv r = Some c" "c_key api c = (rk ^^ unat (s_recvEpoch r)) k0"
    using keyed by (auto simp: recv_keyed_def)
  have n: "n \<le> MaxNonce" and ge: "s_recvEpoch r \<le> ?ep"
    using dec c(1) by (auto simp: DecryptAt_def Let_def split: if_splits)
  have sum: "unat ?ep - unat (s_recvEpoch r) + unat (s_recvEpoch r) = unat ?ep"
    using ge by (simp add: word_le_nat_alt)
  define cand where
    "cand = (c_rekey api ^^ (unat ?ep - unat (s_recvEpoch r))) (c_new api (c_key api c) 0)"
  have "c_key api cand = epoch_key rk k0 (s_rekeyEvery r) n"
    using sum by (simp add: cand_def cipher_lawsD [OF laws] key_funpow [OF laws] c(2) epoch_key_def
        flip: funpow_add comp_apply [of "rk ^^ _"])
  moreover have "c_key api c = epoch_key rk k0 (s_rekeyEvery r) n" if "?ep = s_recvEpoch r"
    using that c(2) by (simp add: epoch_key_def)
  ultimately show ?thesis
    using dec c(1) n cipher_lawsD(6) [OF laws n, of x c] cipher_lawsD(6) [OF laws n, of x cand]
    by (auto simp: DecryptAt_def Let_def rekeyUpTo_eq [OF ge] simp flip: cand_def
        split: if_splits prod.splits option.splits)
qed

text \<open>A run of \<open>DecryptAt\<close> over datagrams, each a wire nonce and a ciphertext.\<close>

fun decryptAt_all ::
    "('c, 'k) cipher_api \<Rightarrow> 'c session \<Rightarrow> (u64 \<times> bytes) list \<Rightarrow> bytes option list" where
  "decryptAt_all api r [] = []"
| "decryptAt_all api r ((n, x) # xs) =
     (case DecryptAt api r n x of
        (Inl _, r') \<Rightarrow> None # decryptAt_all api r' xs
      | (Inr p, r') \<Rightarrow> Some p # decryptAt_all api r' xs)"

definition authentic ::
    "('k \<Rightarrow> u64 \<Rightarrow> bytes \<Rightarrow> bytes option) \<Rightarrow> ('k \<Rightarrow> 'k) \<Rightarrow> 'k \<Rightarrow> u64 \<Rightarrow> u64 \<Rightarrow> bytes \<Rightarrow> bytes option" where
  "authentic opn rk k0 every n x =
     (if n \<le> MaxNonce then opn (epoch_key rk k0 every n) n x else None)"

lemma decryptAt_all_authentic:
  assumes laws: "cipher_laws api seal opn rk"
  shows "recv_keyed api rk k0 r \<Longrightarrow>
    (\<And>n x p. (n, x) \<in> set xs \<Longrightarrow> authentic opn rk k0 (s_rekeyEvery r) n x = Some p \<Longrightarrow>
       epochOf n (s_rekeyEvery r) = e) \<Longrightarrow>
    s_recvEpoch r \<le> e \<Longrightarrow> unat e \<le> unat (s_recvEpoch r) + 64 \<Longrightarrow>
    decryptAt_all api r xs = map (\<lambda>(n, x). authentic opn rk k0 (s_rekeyEvery r) n x) xs"
proof (induction xs arbitrary: r)
  case (Cons nx xs)
  obtain n x where nx: "nx = (n, x)" by fastforce
  let ?a = "authentic opn rk k0 (s_rekeyEvery r) n x"
  have rest: "epochOf n' (s_rekeyEvery r) = e"
    if "(n', x') \<in> set xs" "authentic opn rk k0 (s_rekeyEvery r) n' x' = Some p'" for n' x' p'
    using that Cons.prems(2) by auto
  show ?case
  proof (cases ?a)
    case None
    obtain err r' where d: "DecryptAt api r n x = (Inl err, r')"
      using None DecryptAt_sound [OF laws Cons.prems(1), of n x]
      by (cases "DecryptAt api r n x"; cases "fst (DecryptAt api r n x)")
        (force simp: authentic_def)+
    have r': "r' = r\<lparr>s_recv := s_recv r'\<rparr>"
      "map_option (c_key api) (s_recv r') = map_option (c_key api) (s_recv r)"
      using DecryptAt_fail [OF laws d] by auto
    have f: "s_rekeyEvery r' = s_rekeyEvery r" "s_recvEpoch r' = s_recvEpoch r"
      by (subst r'(1); simp)+
    have "recv_keyed api rk k0 r'" using Cons.prems(1) r'(2) f by (simp add: recv_keyed_def)
    then have "decryptAt_all api r' xs = map (\<lambda>(n, x). authentic opn rk k0 (s_rekeyEvery r') n x) xs"
      by (rule Cons.IH) (use rest Cons.prems(3,4) f in simp_all)
    with d nx None f show ?thesis by simp
  next
    case (Some p)
    then have n: "n \<le> MaxNonce" "opn (epoch_key rk k0 (s_rekeyEvery r) n) n x = Some p"
      by (auto simp: authentic_def split: if_splits)
    have e: "epochOf n (s_rekeyEvery r) = e" using Cons.prems(2) Some nx by auto
    obtain r' where "DecryptAt api r n x = (Inr p, r')" "recv_keyed api rk k0 r'"
      "s_recvEpoch r' = e" "s_rekeyEvery r' = s_rekeyEvery r"
      using DecryptAt_spec [OF laws Cons.prems(1) n(1) _ _ n(2)] Cons.prems(3,4) e by auto
    then have "decryptAt_all api r' xs = map (\<lambda>(n, x). authentic opn rk k0 (s_rekeyEvery r') n x) xs"
      by (intro Cons.IH) (use rest in simp_all)
    with \<open>DecryptAt api r n x = (Inr p, r')\<close> \<open>s_rekeyEvery r' = s_rekeyEvery r\<close> nx Some
    show ?thesis by simp
  qed
qed simp

lemma Encrypt_Decrypt_step:
  assumes laws: "cipher_laws api seal opn rk"
    and keyed: "send_keyed api rk k0 s" "recv_keyed api rk k0 r"
    and same: "s_sendCount s = s_recvCount r" "s_rekeyEvery s = s_rekeyEvery r"
    and sched: "on_schedule (s_sendEpoch s) (s_sendCount s) (s_rekeyEvery s)"
      "on_schedule (s_recvEpoch r) (s_recvCount r) (s_rekeyEvery r)"
    and n: "s_sendCount s \<le> MaxNonce"
  obtains ct s' r' where "Encrypt api s p = (Inr ct, s')" "Decrypt api r ct = (Inr p, r')"
    "send_keyed api rk k0 s'" "recv_keyed api rk k0 r'"
    "s_sendCount s' = s_sendCount s + 1" "s_recvCount r' = s_recvCount r + 1"
    "s_rekeyEvery s' = s_rekeyEvery s" "s_rekeyEvery r' = s_rekeyEvery r"
    "on_schedule (s_sendEpoch s') (s_sendCount s') (s_rekeyEvery s')"
    "on_schedule (s_recvEpoch r') (s_recvCount r') (s_rekeyEvery r')"
proof -
  let ?n = "s_sendCount s" and ?e = "s_rekeyEvery s"
  let ?ct = "seal (epoch_key rk k0 ?e ?n) ?n p"
  obtain s' where s': "Send api s p = (Inr (?n, ?ct), s')" "send_keyed api rk k0 s'"
    "s_sendCount s' = ?n + 1" "s_sendEpoch s' = epochOf ?n ?e" "s_rekeyEvery s' = ?e"
    using Send_spec [OF laws keyed(1) n, of p] on_schedule_next [OF sched(1)] by blast
  have "opn (epoch_key rk k0 (s_rekeyEvery r) ?n) ?n ?ct = Some p"
    using cipher_lawsD(8) [OF laws n] same by simp
  then obtain r1 where r1: "DecryptAt api r ?n ?ct = (Inr p, r1)" "recv_keyed api rk k0 r1"
    "s_recvEpoch r1 = epochOf ?n ?e" "s_rekeyEvery r1 = ?e" "s_recvCount r1 = s_recvCount r"
    using DecryptAt_spec [OF laws keyed(2) n] on_schedule_next [OF sched(2)] same by force
  let ?r' = "r1\<lparr>s_recvCount := ?n + 1\<rparr>"
  have "Decrypt api r ?ct = (Inr p, ?r')"
    using keyed(2) r1(1) same(1) n by (auto simp: Decrypt_def recv_keyed_def not_less Let_def)
  moreover have "Encrypt api s p = (Inr ?ct, s')" using s'(1) by (simp add: Encrypt_def)
  moreover have "recv_keyed api rk k0 ?r'" using r1(2) by (simp add: recv_keyed_def)
  ultimately show thesis
    using that [of ?ct s' ?r'] s' r1 same on_schedule_step [OF n] by simp
qed

lemma lockstep_run:
  assumes laws: "cipher_laws api seal opn rk"
  shows "send_keyed api rk k0 s \<Longrightarrow> recv_keyed api rk k0 r \<Longrightarrow>
    s_sendCount s = s_recvCount r \<Longrightarrow> s_rekeyEvery s = s_rekeyEvery r \<Longrightarrow>
    on_schedule (s_sendEpoch s) (s_sendCount s) (s_rekeyEvery s) \<Longrightarrow>
    on_schedule (s_recvEpoch r) (s_recvCount r) (s_rekeyEvery r) \<Longrightarrow>
    unat (s_sendCount s) + length ps \<le> 18446744073709551615 \<Longrightarrow>
    decrypt_all api r (encrypt_all api s ps) = map Inr ps"
proof (induction ps arbitrary: s r)
  case (Cons p ps)
  have n: "s_sendCount s \<le> MaxNonce" using Cons.prems(7) by (simp add: word_le_nat_alt)
  obtain ct s' r' where st: "Encrypt api s p = (Inr ct, s')" "Decrypt api r ct = (Inr p, r')"
    "send_keyed api rk k0 s'" "recv_keyed api rk k0 r'"
    "s_sendCount s' = s_sendCount s + 1" "s_recvCount r' = s_recvCount r + 1"
    "s_rekeyEvery s' = s_rekeyEvery s" "s_rekeyEvery r' = s_rekeyEvery r"
    "on_schedule (s_sendEpoch s') (s_sendCount s') (s_rekeyEvery s')"
    "on_schedule (s_recvEpoch r') (s_recvCount r') (s_rekeyEvery r')"
    by (rule Encrypt_Decrypt_step [OF laws Cons.prems(1-6) n])
  have "unat (s_sendCount s') + length ps \<le> 18446744073709551615"
    using Cons.prems(7) n by (simp add: st(5) unat_inc word_le_nat_alt)
  then have "decrypt_all api r' (encrypt_all api s' ps) = map Inr ps"
    using Cons.IH [of s' r'] st Cons.prems(3,4) by metis
  with st(1,2) show ?case by simp
qed simp

definition fresh_session :: "'c session \<Rightarrow> bool" where
  "fresh_session s \<longleftrightarrow> s_sendCount s = 0 \<and> s_recvCount s = 0 \<and> s_sendEpoch s = 0 \<and> s_recvEpoch s = 0"

definition demo_session :: "(nat \<times> u64) session" where
  "demo_session = \<lparr>s_peerStatic = None, s_channelBinding = None, s_send = Some (7, 0),
     s_recv = Some (7, 0), s_sendCount = 0, s_recvCount = 0, s_sendEpoch = 0, s_recvEpoch = 0,
     s_rekeyEvery = 2, s_start = 0\<rparr>"

lemma demo_session_ok:
  "fresh_session demo_session" "send_keyed demo_api Suc 7 demo_session"
  "recv_keyed demo_api Suc 7 demo_session"
  by (simp_all add: fresh_session_def send_keyed_def recv_keyed_def demo_session_def demo_api_def)

section \<open>Properties\<close>

text \<open>C23: No nonce is reused. Whatever the cipher does, and however many of the calls fail, the
  nonces that successful \<^verbatim>\<open>Send\<close> calls of one session return are pairwise different, also past
  the point where the 64-bit counter is exhausted.\<close>

theorem send_nonces_unique: "distinct (sent_nonces (send_all api s ps))"
  by (rule sent_nonces_distinct)

text \<open>The in-order channel. Two sessions that share a direction's root key decrypt, in order,
  exactly the messages that were encrypted, through every key rotation, for as many messages as
  there are nonces.\<close>

theorem control_channel_roundtrip:
  assumes "cipher_laws api seal opn rk"
    and "fresh_session s" "fresh_session r" "s_rekeyEvery s = s_rekeyEvery r"
    and "send_keyed api rk k0 s" "recv_keyed api rk k0 r"
    and "length ps \<le> 18446744073709551615"
  shows "decrypt_all api r (encrypt_all api s ps) = map Inr ps"
  using assms lockstep_run [of api seal opn rk k0 s r ps]
  by (simp add: fresh_session_def on_schedule_def)

theorem control_channel_roundtrip_witness:
  "decrypt_all demo_api demo_session (encrypt_all demo_api demo_session [[1], [2, 3], []])
     = map Inr [[1], [2, 3], []]"
  by (rule control_channel_roundtrip [OF demo_laws demo_session_ok(1,1) refl demo_session_ok(2,3)])
    simp

text \<open>C12: Forged datagrams cannot disturb the receiver. Let the authentic datagrams of a run all
  belong to one epoch that the receiver can still reach; then every authentic one decrypts,
  in whatever order they arrive and whatever forged datagrams, with whatever nonces, are
  interleaved with them, and no forged one decrypts.\<close>

theorem forged_frames_harmless:
  assumes "cipher_laws api seal opn rk" and "recv_keyed api rk k0 r"
    and "\<And>n x p. (n, x) \<in> set xs \<Longrightarrow> authentic opn rk k0 (s_rekeyEvery r) n x = Some p \<Longrightarrow>
       epochOf n (s_rekeyEvery r) = e"
    and "s_recvEpoch r \<le> e" "unat e \<le> unat (s_recvEpoch r) + 64"
  shows "decryptAt_all api r xs = map (\<lambda>(n, x). authentic opn rk k0 (s_rekeyEvery r) n x) xs"
  using assms by (rule decryptAt_all_authentic)

text \<open>The run of the witness: a message of epoch 1 after a forged one of epoch 3 and before an
  earlier one of epoch 1.\<close>

theorem forged_frames_harmless_witness:
  "decryptAt_all demo_api demo_session [(6, [0]), (3, demo_seal 8 3 [5]), (2, demo_seal 8 2 [4])]
     = [None, Some [5], Some [4]]"
proof -
  let ?xs = "[(6, [0]), (3, demo_seal 8 3 [5]), (2, demo_seal 8 2 [4])] :: (u64 \<times> bytes) list"
  have ev: "s_rekeyEvery demo_session = 2" "s_recvEpoch demo_session = 0"
    by (simp_all add: demo_session_def)
  have au: "authentic demo_open Suc 7 2 6 [0] = None"
    "authentic demo_open Suc 7 2 3 (demo_seal 8 3 [5]) = Some [5]"
    "authentic demo_open Suc 7 2 2 (demo_seal 8 2 [4]) = Some [4]"
    by (simp_all add: authentic_def demo_open_def demo_seal_def epoch_key_def epochOf_def MaxNonce_def
        put64_def)
  have "decryptAt_all demo_api demo_session ?xs
      = map (\<lambda>(n, x). authentic demo_open Suc 7 (s_rekeyEvery demo_session) n x) ?xs"
  proof (rule forged_frames_harmless [OF demo_laws demo_session_ok(3), where e = 1])
    fix n x p
    assume "(n, x) \<in> set ?xs" "authentic demo_open Suc 7 (s_rekeyEvery demo_session) n x = Some p"
    then show "epochOf n (s_rekeyEvery demo_session) = 1"
      using au(1) by (auto simp: ev epochOf_def)
  qed (simp_all add: ev)
  then show ?thesis by (simp add: ev au)
qed

text \<open>One datagram costs at most \<open>maxEpochJump\<close> epochs. Whatever nonce and ciphertext
  arrive, \<^verbatim>\<open>DecryptAt\<close> never moves the receive epoch backwards and moves it forwards by at most
  64 rekeys.\<close>

theorem decrypt_epoch_bounded:
  "unat (s_recvEpoch r) \<le> unat (s_recvEpoch (snd (DecryptAt api r n x)))
   \<and> unat (s_recvEpoch (snd (DecryptAt api r n x))) \<le> unat (s_recvEpoch r) + unat maxEpochJump"
  using DecryptAt_epoch [of r api n x] by (simp add: maxEpochJump_def)

end
