(* ===== verification/Keys.thy ===== *)
theory Keys
  imports Noise_Session Gotext
begin

text \<open>
  Key material of \<^verbatim>\<open>internal/noisework/noisework.go\<close>: keypairs, their hexadecimal form and the
  keyfile that persists them. Curve25519 (\<^verbatim>\<open>golang.org/x/crypto\<close>, \<^verbatim>\<open>flynn/noise\<close>) is outside the
  repository: \<open>basemult\<close>, the public key of a private scalar, and the outcome of key generation
  are arguments. The file system is seen through its answers: what each read of the keyfile
  returns and what its exclusive creation returns.
\<close>

section \<open>Hexadecimal strings\<close>

text \<open>\<^verbatim>\<open>encoding/hex\<close>: lower-case digits are written, both cases are read.\<close>

datatype hex_error = InvalidByteError byte | ErrLength

definition hex_digit :: "byte \<Rightarrow> byte" where
  "hex_digit v = (if v < 10 then 48 + v else 87 + v)"

definition hex_encode :: "bytes \<Rightarrow> gostring" where
  "hex_encode bs = concat (map (\<lambda>v. [hex_digit (drop_bit 4 v), hex_digit (v AND 15)]) bs)"

definition from_hex :: "byte \<Rightarrow> byte option" where
  "from_hex c =
     (if 48 \<le> c \<and> c \<le> 57 then Some (c - 48)
      else if 97 \<le> c \<and> c \<le> 102 then Some (c - 87)
      else if 65 \<le> c \<and> c \<le> 70 then Some (c - 55)
      else None)"

fun hex_decode :: "gostring \<Rightarrow> hex_error + bytes" where
  "hex_decode [] = Inr []"
| "hex_decode [c] = (if from_hex c = None then Inl (InvalidByteError c) else Inl ErrLength)"
| "hex_decode (p # q # s) =
     (case from_hex p of
        None \<Rightarrow> Inl (InvalidByteError p)
      | Some a \<Rightarrow>
          (case from_hex q of
             None \<Rightarrow> Inl (InvalidByteError q)
           | Some b \<Rightarrow>
               (case hex_decode s of
                  Inl e \<Rightarrow> Inl e
                | Inr bs \<Rightarrow> Inr ((push_bit 4 a OR b) # bs))))"

lemma from_hex_digit: "v < 16 \<Longrightarrow> from_hex (hex_digit v) = Some v"
proof -
  assume "v < 16"
  then have "unat v < 16" by (simp add: word_less_nat_alt)
  moreover have "v = of_nat (unat v)" by simp
  ultimately obtain k :: nat where k: "k < 16" "v = of_nat k" by blast
  then have "k = 0 \<or> k = 1 \<or> k = 2 \<or> k = 3 \<or> k = 4 \<or> k = 5 \<or> k = 6 \<or> k = 7 \<or> k = 8 \<or> k = 9
      \<or> k = 10 \<or> k = 11 \<or> k = 12 \<or> k = 13 \<or> k = 14 \<or> k = 15"
    using k(1) by (simp add: numeral_eq_Suc less_Suc_eq)
  then show ?thesis by (elim disjE) (simp_all add: k(2) hex_digit_def from_hex_def)
qed

lemma nibbles: "drop_bit 4 v < 16" "v AND 15 < 16" "push_bit 4 (drop_bit 4 v) OR (v AND 15) = v"
  for v :: byte
proof -
  have "unat v < 256" using unsigned_less [of v] by simp
  then have "unat (drop_bit 4 v) < 16"
    by (simp add: drop_bit_eq_div unat_div_distrib less_mult_imp_div_less)
  then show "drop_bit 4 v < 16" by (simp add: word_less_nat_alt)
  have "v AND 15 \<le> 15" by (rule word_and_le1)
  then show "v AND 15 < 16" by (simp add: word_less_nat_alt word_le_nat_alt)
  have m: "15 = (mask 4 :: byte)" by (simp add: mask_eq_exp_minus_1)
  show "push_bit 4 (drop_bit 4 v) OR (v AND 15) = v"
    unfolding m by (rule bit_word_eqI) (auto simp: bit_simps)
qed

lemma hex_roundtrip [codec]: "hex_decode (hex_encode bs) = Inr bs"
  by (induction bs) (simp_all add: hex_encode_def from_hex_digit nibbles)

lemma length_hex_encode [simp]: "length (hex_encode bs) = 2 * length bs"
  by (induction bs) (simp_all add: hex_encode_def)

lemma hex_decode_length: "hex_decode s = Inr bs \<Longrightarrow> length s = 2 * length bs"
  by (induction s arbitrary: bs rule: hex_decode.induct)
    (auto split: option.splits sum.splits if_splits)

lemma hex_encode_chars: "c \<in> set (hex_encode bs) \<Longrightarrow> from_hex c \<noteq> None"
  by (auto simp: hex_encode_def from_hex_digit nibbles)

section \<open>Whitespace around hexadecimal text\<close>

lemma hex_not_space: "from_hex c \<noteq> None \<Longrightarrow> \<not> ascii_space c \<and> c < 0x80"
  by (auto simp: from_hex_def ascii_space_def word_le_nat_alt word_less_nat_alt split: if_splits)

lemma wide_not_hex:
  "w \<in> set wide_spaces2 \<union> set wide_spaces3 \<Longrightarrow> w \<noteq> [] \<and> (\<forall>c\<in>set w. \<not> c < 0x80)"
  by (auto simp: wide_spaces2_def wide_spaces3_def)

lemma hex_ends:
  assumes "\<forall>c\<in>set s. from_hex c \<noteq> None"
  shows "space_len s = 0" and "space_end s = 0"
proof -
  have h: "\<not> ascii_space c" "c < 0x80" if "c \<in> set s" for c
    using that assms hex_not_space by blast+
  have no: "w \<notin> set wide_spaces2 \<union> set wide_spaces3" if "set w \<subseteq> set s" for w
  proof
    assume w: "w \<in> set wide_spaces2 \<union> set wide_spaces3"
    from wide_not_hex [OF w] have "hd w \<in> set w" "\<not> hd w < 0x80" by auto
    then show False using h(2) that by blast
  qed
  show "space_len s = 0"
    using h(1) no [of "take 2 s"] no [of "take 3 s"]
    by (auto simp: space_len_def set_take_subset)
  show "space_end s = 0"
    using h(1) no [of "drop (length s - 2) s"] no [of "drop (length s - 3) s"]
    by (auto simp: space_end_def set_drop_subset)
qed

lemma TrimSpace_hex: "\<forall>c\<in>set s. from_hex c \<noteq> None \<Longrightarrow> TrimSpace s = s"
  by (simp add: TrimSpace_def trim_left.simps trim_right.simps hex_ends)

lemma TrimSpace_newline:
  assumes "\<forall>c\<in>set s. from_hex c \<noteq> None" "s \<noteq> []"
  shows "TrimSpace (s @ [10]) = s"
proof -
  have "space_len (s @ [10]) = 0"
  proof -
    have "hd (s @ [10]) < 0x80" "\<not> ascii_space (hd (s @ [10]))"
      using assms hex_not_space [of "hd s"] by auto
    moreover have "take n (s @ [10]) \<notin> set wide_spaces2 \<union> set wide_spaces3" if "0 < n" for n
    proof
      assume w: "take n (s @ [10]) \<in> set wide_spaces2 \<union> set wide_spaces3"
      have "hd (s @ [10]) \<in> set (take n (s @ [10]))"
        using that assms(2) by (cases s; cases n) auto
      then show False using wide_not_hex [OF w] \<open>hd (s @ [10]) < 0x80\<close> by blast
    qed
    ultimately show ?thesis by (auto simp: space_len_def)
  qed
  moreover have "space_end (s @ [10]) = 1" by (simp add: space_end_def ascii_space_def)
  ultimately show ?thesis
    using assms hex_ends [of s]
    by (simp add: TrimSpace_def trim_left.simps [of "s @ [10]"] trim_right.simps [of "s @ [10]"]
        trim_right.simps [of s])
qed

section \<open>Keypairs\<close>

text \<open>A nil slice is \<open>None\<close>; only a \<^verbatim>\<open>Keypair\<close> built by hand has one.\<close>

record Keypair =
  kp_Public :: "bytes option"
  kp_Private :: "bytes option"

text \<open>The receiver is \<open>None\<close> for a nil \<^verbatim>\<open>*Keypair\<close>.\<close>

definition PublicHex :: "Keypair option \<Rightarrow> gostring" where
  "PublicHex k = (case k of None \<Rightarrow> []
     | Some kp \<Rightarrow> (case kp_Public kp of None \<Rightarrow> [] | Some b \<Rightarrow> hex_encode b))"

datatype key_error =
    PathRequired
  | PubHexLength nat
  | PubHexInvalid hex_error
  | PubHexDecoded nat
  | ReadKeyfile file_error
  | CorruptHex hex_error
  | CorruptLength nat
  | CorruptKey
  | GenerateFailed
  | CreateKeyfile file_error
  | PersistFailed
  | NeverReadable
  and file_error = ErrNotExist | ErrExist | OtherFileError

definition ParsePublicKeyHex :: "gostring \<Rightarrow> key_error + bytes" where
  "ParsePublicKeyHex s =
     (if length s \<noteq> KeySize * 2 then Inl (PubHexLength (length s))
      else (case hex_decode s of
        Inl e \<Rightarrow> Inl (PubHexInvalid e)
      | Inr b \<Rightarrow> if length b \<noteq> KeySize then Inl (PubHexDecoded (length b)) else Inr b))"

text \<open>\<open>basemult\<close> is \<^verbatim>\<open>curve25519.ScalarBaseMult\<close>.\<close>

definition keypairFromPrivate :: "(bytes \<Rightarrow> bytes) \<Rightarrow> bytes \<Rightarrow> Keypair option" where
  "keypairFromPrivate basemult priv =
     (if length priv \<noteq> KeySize then None
      else Some \<lparr>kp_Public = Some (basemult priv), kp_Private = Some priv\<rparr>)"

section \<open>The keyfile\<close>

text \<open>
  The file system answers each operation. \<open>read\<close> is what one \<^verbatim>\<open>os.ReadFile\<close> returns;
  \<open>creation\<close> holds the outcome of the key generation, of the exclusive open, of the write and of the close. The second component of \<open>createKeyfile\<close> is the content of the file this process
  created, if it created one.
\<close>

type_synonym file_read = "file_error + bytes"

record creation =
  cr_generated :: "(bytes \<times> bytes) option"   \<comment> \<open>public and private key, if generation succeeds\<close>
  cr_open :: "file_error option"
  cr_write :: "nat option"   \<comment> \<open>a failing write reports after that many bytes\<close>
  cr_close_ok :: bool

definition GenerateKeypair :: "(bytes \<times> bytes) option \<Rightarrow> key_error + Keypair" where
  "GenerateKeypair g = (case g of None \<Rightarrow> Inl GenerateFailed
     | Some (pub, priv) \<Rightarrow> Inr \<lparr>kp_Public = Some pub, kp_Private = Some priv\<rparr>)"

definition loadKeyfile :: "(bytes \<Rightarrow> bytes) \<Rightarrow> file_read \<Rightarrow> key_error + Keypair" where
  "loadKeyfile basemult data =
     (case data of
        Inl e \<Rightarrow> Inl (ReadKeyfile e)
      | Inr content \<Rightarrow>
          (case hex_decode (TrimSpace content) of
             Inl e \<Rightarrow> Inl (CorruptHex e)
           | Inr priv \<Rightarrow>
               if length priv \<noteq> KeySize then Inl (CorruptLength (length priv))
               else (case keypairFromPrivate basemult priv of
                       None \<Rightarrow> Inl CorruptKey
                     | Some kp \<Rightarrow> Inr kp)))"

definition createKeyfile :: "creation \<Rightarrow> (key_error + Keypair) \<times> bytes option" where
  "createKeyfile cr =
     (case GenerateKeypair (cr_generated cr) of
        Inl e \<Rightarrow> (Inl e, None)
      | Inr kp \<Rightarrow>
          (case cr_open cr of
             Some e \<Rightarrow> (Inl (CreateKeyfile e), None)
           | None \<Rightarrow>
               (let content = hex_encode (case kp_Private kp of None \<Rightarrow> [] | Some b \<Rightarrow> b) in
                (case cr_write cr of
                   Some n \<Rightarrow> (Inl PersistFailed, Some (take n content))
                 | None \<Rightarrow>
                     if \<not> cr_close_ok cr then (Inl PersistFailed, Some content)
                     else (Inr kp, Some content)))))"

text \<open>\<^verbatim>\<open>errors.Is\<close> looks through the wrapping of \<^verbatim>\<open>%w\<close>.\<close>

fun isNotExist :: "key_error \<Rightarrow> bool" where
  "isNotExist (ReadKeyfile e) = (e = ErrNotExist)"
| "isNotExist (CreateKeyfile e) = (e = ErrNotExist)"
| "isNotExist _ = False"

fun isExist :: "key_error \<Rightarrow> bool" where
  "isExist (ReadKeyfile e) = (e = ErrExist)"
| "isExist (CreateKeyfile e) = (e = ErrExist)"
| "isExist _ = False"

text \<open>The loop that waits for the winner of the creation race: one read per round.\<close>

fun retryLoad :: "(bytes \<Rightarrow> bytes) \<Rightarrow> file_read list \<Rightarrow> key_error + Keypair" where
  "retryLoad basemult [] = Inl NeverReadable"
| "retryLoad basemult (r # rs) =
     (case loadKeyfile basemult r of
        Inr kp \<Rightarrow> Inr kp
      | Inl e \<Rightarrow> if \<not> isNotExist e then Inl e else retryLoad basemult rs)"

text \<open>
  \<open>first\<close> is the first read, \<open>later n\<close> the read of round \<open>n\<close> of the loop. The second component
  of the result is the content of the file this process created, if it created one.
\<close>

definition LoadOrCreateKeyfile ::
    "(bytes \<Rightarrow> bytes) \<Rightarrow> gostring \<Rightarrow> file_read \<Rightarrow> creation \<Rightarrow> (nat \<Rightarrow> file_read)
     \<Rightarrow> (key_error + Keypair) \<times> bytes option" where
  "LoadOrCreateKeyfile basemult path first cr later =
     (if path = [] then (Inl PathRequired, None)
      else (case loadKeyfile basemult first of
        Inr kp \<Rightarrow> (Inr kp, None)
      | Inl err \<Rightarrow>
          if \<not> isNotExist err then (Inl err, None)
          else (case createKeyfile cr of
            (Inr fresh, w) \<Rightarrow> (Inr fresh, w)
          | (Inl cerr, w) \<Rightarrow>
              if \<not> isExist cerr then (Inl cerr, w)
              else (retryLoad basemult (map later [0..<20]), w))))"

lemma loadKeyfile_Inr_iff:
  "loadKeyfile basemult r = Inr kp \<longleftrightarrow>
     (\<exists>content priv. r = Inr content \<and> hex_decode (TrimSpace content) = Inr priv
        \<and> length priv = KeySize
        \<and> kp = \<lparr>kp_Public = Some (basemult priv), kp_Private = Some priv\<rparr>)"
  by (auto simp: loadKeyfile_def keypairFromPrivate_def split: sum.splits if_splits)

lemma loadKeyfile_hex:
  "length priv = KeySize \<Longrightarrow> content = hex_encode priv \<or> content = hex_encode priv @ [10] \<Longrightarrow>
   loadKeyfile basemult (Inr content)
     = Inr \<lparr>kp_Public = Some (basemult priv), kp_Private = Some priv\<rparr>"
proof -
  assume l: "length priv = KeySize" and c: "content = hex_encode priv \<or> content = hex_encode priv @ [10]"
  have h: "\<forall>c\<in>set (hex_encode priv). from_hex c \<noteq> None" using hex_encode_chars by blast
  have "hex_encode priv \<noteq> []"
    using l length_hex_encode [of priv] by (auto simp: KeySize_def simp del: length_hex_encode)
  with c h have "TrimSpace content = hex_encode priv"
    by (auto simp: TrimSpace_hex TrimSpace_newline)
  then show ?thesis using l by (simp add: loadKeyfile_Inr_iff hex_roundtrip)
qed

lemma loadKeyfile_existing:
  "loadKeyfile basemult (Inr content) = Inl e \<Longrightarrow> \<not> isNotExist e"
  by (auto simp: loadKeyfile_def split: sum.splits if_splits option.splits)

lemma createKeyfile_Inr:
  "createKeyfile cr = (Inr kp, w) \<Longrightarrow>
   \<exists>pub priv. cr_generated cr = Some (pub, priv) \<and> w = Some (hex_encode priv)
     \<and> kp = \<lparr>kp_Public = Some pub, kp_Private = Some priv\<rparr>"
  by (auto simp: createKeyfile_def GenerateKeypair_def Let_def
      split: option.splits sum.splits if_splits)

lemma createKeyfile_lost:
  "createKeyfile cr = (Inl e, w) \<Longrightarrow> isExist e \<Longrightarrow> w = None"
  by (auto simp: createKeyfile_def GenerateKeypair_def Let_def
      split: option.splits sum.splits if_splits)

lemma retryLoad_Inr: "retryLoad basemult rs = Inr kp \<Longrightarrow> \<exists>r\<in>set rs. loadKeyfile basemult r = Inr kp"
  by (induction rs) (auto split: sum.splits if_splits)

lemma retryLoad_range:
  assumes "retryLoad basemult (map later [0..<20]) = Inr kp"
  shows "\<exists>r. (r = first \<or> (\<exists>n<20. r = later n)) \<and> loadKeyfile basemult r = Inr kp"
proof -
  obtain r where "r \<in> set (map later [0..<20])" "loadKeyfile basemult r = Inr kp"
    using retryLoad_Inr [OF assms] by blast
  then obtain n where "n < 20" "r = later n"
    by (auto simp del: upt_rec_numeral)
  with \<open>loadKeyfile basemult r = Inr kp\<close> show ?thesis by blast
qed

lemma retryLoad_first:
  "loadKeyfile basemult (later 0) = Inl e \<Longrightarrow> \<not> isNotExist e \<Longrightarrow> 0 < n \<Longrightarrow>
   retryLoad basemult (map later [0..<n]) = Inl e"
  by (simp add: upt_conv_Cons)

lemma loadKeyfile_missing: "loadKeyfile basemult r = Inl e \<Longrightarrow> isNotExist e \<Longrightarrow> r = Inl ErrNotExist"
  by (auto simp: loadKeyfile_def keypairFromPrivate_def split: sum.splits if_splits option.splits)

text \<open>How a successful start came by its identity.\<close>

lemma LoadOrCreateKeyfile_Inr:
  assumes "LoadOrCreateKeyfile basemult path first cr later = (Inr kp, w)"
  shows "w = None \<and> (\<exists>r. (r = first \<or> (\<exists>n<20. r = later n)) \<and> loadKeyfile basemult r = Inr kp)
    \<or> first = Inl ErrNotExist \<and> createKeyfile cr = (Inr kp, w)"
proof (cases "loadKeyfile basemult first")
  case (Inr k)
  then show ?thesis using assms by (auto simp: LoadOrCreateKeyfile_def split: if_splits)
next
  case (Inl e)
  then have e: "isNotExist e" "first = Inl ErrNotExist"
    using assms loadKeyfile_missing [of basemult first e]
    by (auto simp: LoadOrCreateKeyfile_def split: if_splits)
  show ?thesis
  proof (cases "createKeyfile cr")
    case (Pair res w')
    show ?thesis
    proof (cases res)
      case (Inr k)
      then show ?thesis
        using assms Pair e Inl by (auto simp: LoadOrCreateKeyfile_def split: if_splits)
    next
      case (Inl c)
      then have "isExist c" and r: "retryLoad basemult (map later [0..<20]) = Inr kp" and "w = w'"
        using assms Pair e \<open>loadKeyfile basemult first = Inl e\<close>
        by (auto simp: LoadOrCreateKeyfile_def simp del: retryLoad.simps upt_rec_numeral
            split: if_splits)
      then show ?thesis
        using retryLoad_range [OF r] createKeyfile_lost [of cr c w'] Pair Inl by blast
    qed
  qed
qed

lemma midwrite_corrupt:
  assumes "length priv = KeySize" "n < 2 * KeySize"
  shows "\<exists>e. loadKeyfile basemult (Inr (take n (hex_encode priv))) = Inl e
    \<and> \<not> isNotExist e \<and> e \<noteq> NeverReadable"
proof -
  let ?s = "take n (hex_encode priv)"
  have h: "\<forall>c\<in>set ?s. from_hex c \<noteq> None"
    by (meson hex_encode_chars in_set_takeD)
  have "loadKeyfile basemult (Inr ?s) \<noteq> Inr kp" for kp
  proof
    assume "loadKeyfile basemult (Inr ?s) = Inr kp"
    then obtain p where "hex_decode ?s = Inr p" "length p = KeySize"
      by (auto simp: loadKeyfile_Inr_iff TrimSpace_hex [OF h])
    then have "length ?s = 2 * KeySize" using hex_decode_length by metis
    then show False using assms by simp
  qed
  then obtain e where e: "loadKeyfile basemult (Inr ?s) = Inl e"
    by (cases "loadKeyfile basemult (Inr ?s)") auto
  then have "\<not> isNotExist e" by (rule loadKeyfile_existing)
  moreover have "e \<noteq> NeverReadable"
    using e by (auto simp: loadKeyfile_def split: sum.splits if_splits option.splits)
  ultimately show ?thesis using e by blast
qed

lemma lost_race:
  assumes "path \<noteq> []" "cr_generated cr = Some g" "cr_open cr = Some ErrExist"
    and "loadKeyfile basemult (later 0) = Inl e" "\<not> isNotExist e"
  shows "LoadOrCreateKeyfile basemult path (Inl ErrNotExist) cr later = (Inl e, None)"
proof -
  have "loadKeyfile basemult (Inl ErrNotExist) = Inl (ReadKeyfile ErrNotExist)"
    by (simp add: loadKeyfile_def)
  moreover have "createKeyfile cr = (Inl (CreateKeyfile ErrExist), None)"
    using assms(2,3) by (cases g) (simp add: createKeyfile_def GenerateKeypair_def)
  moreover have "retryLoad basemult (map later [0..<20]) = Inl e"
    using assms(4,5) by (rule retryLoad_first) simp
  ultimately show ?thesis
    using assms(1) by (simp add: LoadOrCreateKeyfile_def del: upt_rec_numeral retryLoad.simps)
qed

section \<open>Properties\<close>

text \<open>The hexadecimal form of a public key reads back: \<open>ParsePublicKeyHex\<close> of \<open>PublicHex\<close>
  is the key itself when it has 32 bytes, and the length error for every other length, which
  names the number of hexadecimal digits.\<close>

theorem pubkey_hex_roundtrip:
  "ParsePublicKeyHex (PublicHex (Some (kp\<lparr>kp_Public := Some b\<rparr>))) =
     (if length b = KeySize then Inr b else Inl (PubHexLength (2 * length b)))"
  by (simp add: ParsePublicKeyHex_def PublicHex_def KeySize_def hex_roundtrip)

text \<open>C32: A node keeps its identity over restarts. If a start returns a keypair without creating
  the file, some content it read from the file decodes to exactly that pair. If it created the
  file, then the file did not exist at its first read, and every later start that reads the
  file as it was written, or with a newline appended, returns the same pair and writes
  nothing. The hypothesis on the generated pair is what key generation guarantees.\<close>

theorem keyfile_identity_stable:
  assumes "LoadOrCreateKeyfile basemult path first cr later = (Inr kp, w)"
    and "\<forall>pub priv. cr_generated cr = Some (pub, priv) \<longrightarrow>
           pub = basemult priv \<and> length priv = KeySize"
  shows "(case w of
      None \<Rightarrow> \<exists>content. (first = Inr content \<or> (\<exists>n<20. later n = Inr content))
                 \<and> loadKeyfile basemult (Inr content) = Inr kp
    | Some content \<Rightarrow> first = Inl ErrNotExist \<and>
        (\<forall>cr' later'. LoadOrCreateKeyfile basemult path (Inr content) cr' later' = (Inr kp, None)
           \<and> LoadOrCreateKeyfile basemult path (Inr (content @ [10])) cr' later' = (Inr kp, None)))"
proof -
  have "path \<noteq> []" using assms(1) by (auto simp: LoadOrCreateKeyfile_def)
  from LoadOrCreateKeyfile_Inr [OF assms(1)]
  consider "w = None" "\<exists>r. (r = first \<or> (\<exists>n<20. r = later n)) \<and> loadKeyfile basemult r = Inr kp"
    | "first = Inl ErrNotExist" "createKeyfile cr = (Inr kp, w)" by blast
  then show ?thesis
  proof cases
    case 1
    then obtain r where r: "r = first \<or> (\<exists>n<20. r = later n)" "loadKeyfile basemult r = Inr kp"
      by blast
    then obtain content where "r = Inr content"
      by (auto simp: loadKeyfile_Inr_iff)
    with r have "(first = Inr content \<or> (\<exists>n<20. later n = Inr content))
        \<and> loadKeyfile basemult (Inr content) = Inr kp"
      by metis
    then show ?thesis using 1 by auto
  next
    case 2
    moreover from createKeyfile_Inr [OF 2(2)] obtain pub priv where
      "cr_generated cr = Some (pub, priv)" "w = Some (hex_encode priv)"
      "kp = \<lparr>kp_Public = Some pub, kp_Private = Some priv\<rparr>" by blast
    ultimately show ?thesis
      using assms(2) \<open>path \<noteq> []\<close> loadKeyfile_hex [of priv "hex_encode priv" basemult]
        loadKeyfile_hex [of priv "hex_encode priv @ [10]" basemult]
      by (simp add: LoadOrCreateKeyfile_def)
  qed
qed

definition demo_creation :: creation where
  "demo_creation = \<lparr>cr_generated = Some (replicate 32 7, replicate 32 7), cr_open = None,
     cr_write = None, cr_close_ok = True\<rparr>"

lemma keyfile_identity_stable_witness:
  "\<forall>cr' later'. LoadOrCreateKeyfile (\<lambda>k. k) (lit ''k'') (Inr (hex_encode (replicate 32 7))) cr' later'
     = (Inr \<lparr>kp_Public = Some (replicate 32 7), kp_Private = Some (replicate 32 7)\<rparr>, None)"
proof -
  have "LoadOrCreateKeyfile (\<lambda>k. k) (lit ''k'') (Inl ErrNotExist) demo_creation (\<lambda>n. Inl ErrNotExist)
      = (Inr \<lparr>kp_Public = Some (replicate 32 7), kp_Private = Some (replicate 32 7)\<rparr>,
         Some (hex_encode (replicate 32 7)))"
    by (simp add: LoadOrCreateKeyfile_def loadKeyfile_def createKeyfile_def GenerateKeypair_def
        demo_creation_def)
  from keyfile_identity_stable [OF this] show ?thesis
    by (simp add: demo_creation_def KeySize_def)
qed

text \<open>The loop that waits for a keyfile being created concurrently does not wait for one
  that exists but is still being written: a process that lost the creation race and whose
  first retry reads a proper prefix of the final content gives up at once with a corruption
  error, although the complete content would load.\<close>

theorem keyfile_midwrite_not_retried:
  assumes "path \<noteq> []" "length priv = KeySize" "n < 2 * KeySize"
    and "cr_generated cr = Some g" "cr_open cr = Some ErrExist"
    and "later 0 = Inr (take n (hex_encode priv))"
  shows "(\<exists>e. LoadOrCreateKeyfile basemult path (Inl ErrNotExist) cr later = (Inl e, None)
             \<and> e \<noteq> NeverReadable)
         \<and> (\<exists>kp. loadKeyfile basemult (Inr (hex_encode priv)) = Inr kp)"
proof
  obtain e where e: "loadKeyfile basemult (later 0) = Inl e" "\<not> isNotExist e" "e \<noteq> NeverReadable"
    using midwrite_corrupt [OF assms(2,3)] assms(6) by auto
  show "\<exists>e. LoadOrCreateKeyfile basemult path (Inl ErrNotExist) cr later = (Inl e, None)
      \<and> e \<noteq> NeverReadable"
    using lost_race [where later = later and basemult = basemult, OF assms(1,4,5) e(1,2)] e(3)
    by blast
  show "\<exists>kp. loadKeyfile basemult (Inr (hex_encode priv)) = Inr kp"
    using loadKeyfile_hex [OF assms(2)] by blast
qed

lemma keyfile_midwrite_not_retried_witness:
  "\<exists>e. LoadOrCreateKeyfile (\<lambda>k. k) (lit ''k'') (Inl ErrNotExist)
     (demo_creation\<lparr>cr_open := Some ErrExist\<rparr>) (\<lambda>n. Inr (take 0 (hex_encode (replicate 32 7))))
     = (Inl e, None) \<and> e \<noteq> NeverReadable"
  using keyfile_midwrite_not_retried [where path = "lit ''k''" and priv = "replicate 32 7" and n = 0
      and cr = "demo_creation\<lparr>cr_open := Some ErrExist\<rparr>" and basemult = "\<lambda>k. k"
      and later = "\<lambda>n. Inr (take 0 (hex_encode (replicate 32 7)))"]
  by (simp add: demo_creation_def KeySize_def)

end
