(* ===== verification/Noise_Handshake.thy ===== *)
theory Noise_Handshake
  imports Keys
begin

text \<open>
  The two role machines of \<^verbatim>\<open>internal/noisework/noisework.go\<close>, \<open>Initiator\<close> and \<open>Responder\<close>,
  which drive a Noise XX handshake and hand over a session. The handshake state itself is
  \<^verbatim>\<open>noise.HandshakeState\<close> of \<^verbatim>\<open>github.com/flynn/noise\<close>, outside the repository: its constructor
  and methods are the fields of \<open>handshake_api\<close>, arguments of the definitions. A closed machine
  (a nil receiver or a nil handshake state, which answer alike) has no handshake state.
\<close>

section \<open>The handshake state of the Noise library\<close>

text \<open>
  \<open>h_new\<close> takes the role, the prologue, the private and public static key and the randomness
  its ephemeral key is drawn from. A write returns the message and the two cipher states of
  \<^verbatim>\<open>Split\<close>, which are nil before the last message; a read returns the cipher states.
\<close>

record ('h, 'c, 'r) handshake_api =
  h_new :: "bool \<Rightarrow> bytes option \<Rightarrow> bytes \<Rightarrow> bytes \<Rightarrow> 'r \<Rightarrow> 'h option"
  h_write :: "'h \<Rightarrow> (bytes \<times> 'c option \<times> 'c option) option \<times> 'h"
  h_read :: "bytes \<Rightarrow> 'h \<Rightarrow> ('c option \<times> 'c option) option \<times> 'h"
  h_peerStatic :: "'h \<Rightarrow> bytes option"
  h_channelBinding :: "'h \<Rightarrow> bytes option"

section \<open>The machines\<close>

datatype phase = phaseStart | phaseMessage1 | phaseMessage2 | phaseComplete

datatype handshake_error =
    InvalidStatic
  | PeerStaticLength nat
  | HandshakeState
  | Closed
  | WrongPhase phase phase   \<comment> \<open>the phase of the machine, the phase wanted\<close>
  | WriteFailed
  | ReadFailed
  | StaticMismatch
  | NoCipherStates

record ('h, 'c) initiator =
  in_hs :: "'h option"
  in_expected :: "bytes option"
  in_session :: "'c session option"
  in_phase :: phase

record ('h, 'c) responder =
  re_hs :: "'h option"
  re_session :: "'c session option"
  re_phase :: phase

text \<open>The session \<^verbatim>\<open>&Session{rekeyEvery: DefaultRekeyEvery}\<close>, other fields zero.\<close>

definition blank_session :: "'c session" where
  "blank_session = \<lparr>s_peerStatic = None, s_channelBinding = None, s_send = None, s_recv = None,
     s_sendCount = 0, s_recvCount = 0, s_sendEpoch = 0, s_recvEpoch = 0,
     s_rekeyEvery = DefaultRekeyEvery, s_start = 0\<rparr>"

definition static_ok :: "Keypair option \<Rightarrow> bool" where
  "static_ok k = (case k of None \<Rightarrow> False
     | Some kp \<Rightarrow> length (raw (kp_Private kp)) = KeySize \<and> length (raw (kp_Public kp)) = KeySize)"

definition NewInitiator ::
    "('h, 'c, 'r) handshake_api \<Rightarrow> 'r \<Rightarrow> Keypair option \<Rightarrow> bytes option \<Rightarrow> bytes option
     \<Rightarrow> handshake_error + ('h, 'c) initiator" where
  "NewInitiator hapi rnd myStatic peerStatic prologue =
     (if \<not> static_ok myStatic then Inl InvalidStatic
      else if length (raw peerStatic) \<noteq> KeySize then Inl (PeerStaticLength (length (raw peerStatic)))
      else (case h_new hapi True prologue (raw (kp_Private (the myStatic)))
                   (raw (kp_Public (the myStatic))) rnd of
              None \<Rightarrow> Inl HandshakeState
            | Some hs \<Rightarrow> Inr \<lparr>in_hs = Some hs, in_expected = peerStatic, in_session = None,
                               in_phase = phaseStart\<rparr>))"

definition Message1 ::
    "('h, 'c, 'r) handshake_api \<Rightarrow> ('h, 'c) initiator
     \<Rightarrow> (handshake_error + bytes) \<times> ('h, 'c) initiator" where
  "Message1 hapi i =
     (case in_hs i of
        None \<Rightarrow> (Inl Closed, i)
      | Some hs \<Rightarrow>
          if in_phase i \<noteq> phaseStart then (Inl (WrongPhase (in_phase i) phaseStart), i)
          else (case h_write hapi hs of
                  (None, hs') \<Rightarrow> (Inl WriteFailed, i\<lparr>in_hs := Some hs'\<rparr>)
                | (Some (msg, _), hs') \<Rightarrow>
                    (Inr msg, i\<lparr>in_hs := Some hs', in_phase := phaseMessage1\<rparr>)))"

definition ReadMessage2 ::
    "('h, 'c, 'r) handshake_api \<Rightarrow> ('h, 'c) initiator \<Rightarrow> bytes
     \<Rightarrow> (handshake_error + 'c session) \<times> ('h, 'c) initiator" where
  "ReadMessage2 hapi i msg2 =
     (case in_hs i of
        None \<Rightarrow> (Inl Closed, i)
      | Some hs \<Rightarrow>
          if in_phase i \<noteq> phaseMessage1 then (Inl (WrongPhase (in_phase i) phaseMessage1), i)
          else (case h_read hapi msg2 hs of
                  (None, hs') \<Rightarrow> (Inl ReadFailed, i\<lparr>in_hs := Some hs'\<rparr>)
                | (Some _, hs') \<Rightarrow>
                    if raw (h_peerStatic hapi hs') \<noteq> raw (in_expected i)
                    then (Inl StaticMismatch, i\<lparr>in_hs := Some hs'\<rparr>)
                    else (Inr blank_session,
                          i\<lparr>in_hs := Some hs', in_phase := phaseMessage2,
                            in_session := Some blank_session\<rparr>)))"

text \<open>
  \<^verbatim>\<open>ReadMessage2\<close> returns a pointer to the session that \<^verbatim>\<open>WriteMessage3\<close> completes in place; here
  the completed session is the field \<open>in_session\<close> of the machine after \<open>WriteMessage3\<close>.
\<close>

definition WriteMessage3 ::
    "('h, 'c, 'r) handshake_api \<Rightarrow> gotime \<Rightarrow> ('h, 'c) initiator
     \<Rightarrow> (handshake_error + bytes) \<times> ('h, 'c) initiator" where
  "WriteMessage3 hapi now i =
     (case in_hs i of
        None \<Rightarrow> (Inl Closed, i)
      | Some hs \<Rightarrow>
          if in_phase i \<noteq> phaseMessage2 then (Inl (WrongPhase (in_phase i) phaseMessage2), i)
          else (case h_write hapi hs of
                  (None, hs') \<Rightarrow> (Inl WriteFailed, i\<lparr>in_hs := Some hs'\<rparr>)
                | (Some (msg, Some sendCs, Some recvCs), hs') \<Rightarrow>
                    let s = (case in_session i of None \<Rightarrow> blank_session | Some s \<Rightarrow> s);
                        s' = s\<lparr>s_send := Some sendCs, s_recv := Some recvCs,
                               s_peerStatic := h_peerStatic hapi hs',
                               s_channelBinding := h_channelBinding hapi hs', s_start := now\<rparr>
                    in (Inr msg, i\<lparr>in_hs := Some hs', in_session := Some s',
                                   in_phase := phaseComplete\<rparr>)
                | (Some _, hs') \<Rightarrow> (Inl NoCipherStates, i\<lparr>in_hs := Some hs'\<rparr>)))"

definition NewResponder ::
    "('h, 'c, 'r) handshake_api \<Rightarrow> 'r \<Rightarrow> Keypair option \<Rightarrow> bytes option
     \<Rightarrow> handshake_error + ('h, 'c) responder" where
  "NewResponder hapi rnd myStatic prologue =
     (if \<not> static_ok myStatic then Inl InvalidStatic
      else (case h_new hapi False prologue (raw (kp_Private (the myStatic)))
                   (raw (kp_Public (the myStatic))) rnd of
              None \<Rightarrow> Inl HandshakeState
            | Some hs \<Rightarrow> Inr \<lparr>re_hs = Some hs, re_session = None, re_phase = phaseStart\<rparr>))"

definition ReadMessage1 ::
    "('h, 'c, 'r) handshake_api \<Rightarrow> ('h, 'c) responder \<Rightarrow> bytes
     \<Rightarrow> (handshake_error + unit) \<times> ('h, 'c) responder" where
  "ReadMessage1 hapi r msg1 =
     (case re_hs r of
        None \<Rightarrow> (Inl Closed, r)
      | Some hs \<Rightarrow>
          if re_phase r \<noteq> phaseStart then (Inl (WrongPhase (re_phase r) phaseStart), r)
          else (case h_read hapi msg1 hs of
                  (None, hs') \<Rightarrow> (Inl ReadFailed, r\<lparr>re_hs := Some hs'\<rparr>)
                | (Some _, hs') \<Rightarrow> (Inr (), r\<lparr>re_hs := Some hs', re_phase := phaseMessage1\<rparr>)))"

definition Message2 ::
    "('h, 'c, 'r) handshake_api \<Rightarrow> ('h, 'c) responder
     \<Rightarrow> (handshake_error + bytes) \<times> ('h, 'c) responder" where
  "Message2 hapi r =
     (case re_hs r of
        None \<Rightarrow> (Inl Closed, r)
      | Some hs \<Rightarrow>
          if re_phase r \<noteq> phaseMessage1 then (Inl (WrongPhase (re_phase r) phaseMessage1), r)
          else (case h_write hapi hs of
                  (None, hs') \<Rightarrow> (Inl WriteFailed, r\<lparr>re_hs := Some hs'\<rparr>)
                | (Some (msg, _), hs') \<Rightarrow>
                    (Inr msg, r\<lparr>re_hs := Some hs', re_phase := phaseMessage2\<rparr>)))"

definition ReadMessage3 ::
    "('h, 'c, 'r) handshake_api \<Rightarrow> gotime \<Rightarrow> ('h, 'c) responder \<Rightarrow> bytes
     \<Rightarrow> (handshake_error + 'c session) \<times> ('h, 'c) responder" where
  "ReadMessage3 hapi now r msg3 =
     (case re_hs r of
        None \<Rightarrow> (Inl Closed, r)
      | Some hs \<Rightarrow>
          if re_phase r \<noteq> phaseMessage2 then (Inl (WrongPhase (re_phase r) phaseMessage2), r)
          else (case h_read hapi msg3 hs of
                  (None, hs') \<Rightarrow> (Inl ReadFailed, r\<lparr>re_hs := Some hs'\<rparr>)
                | (Some (Some initSend, Some initRecv), hs') \<Rightarrow>
                    let s = blank_session\<lparr>s_send := Some initRecv, s_recv := Some initSend,
                               s_peerStatic := h_peerStatic hapi hs',
                               s_channelBinding := h_channelBinding hapi hs', s_start := now\<rparr>
                    in (Inr s, r\<lparr>re_hs := Some hs', re_session := Some s,
                                 re_phase := phaseComplete\<rparr>)
                | (Some _, hs') \<Rightarrow> (Inl NoCipherStates, r\<lparr>re_hs := Some hs'\<rparr>)))"

section \<open>Runs of the machines\<close>

text \<open>Any sequence of calls, in any order and with any messages.\<close>

datatype initiator_call = CallMessage1 | CallReadMessage2 bytes | CallWriteMessage3 gotime

fun initiator_step ::
    "('h, 'c, 'r) handshake_api \<Rightarrow> ('h, 'c) initiator \<Rightarrow> initiator_call \<Rightarrow> ('h, 'c) initiator" where
  "initiator_step hapi i CallMessage1 = snd (Message1 hapi i)"
| "initiator_step hapi i (CallReadMessage2 m) = snd (ReadMessage2 hapi i m)"
| "initiator_step hapi i (CallWriteMessage3 now) = snd (WriteMessage3 hapi now i)"

definition initiator_run ::
    "('h, 'c, 'r) handshake_api \<Rightarrow> ('h, 'c) initiator \<Rightarrow> initiator_call list
     \<Rightarrow> ('h, 'c) initiator" where
  "initiator_run hapi i cs = foldl (initiator_step hapi) i cs"

datatype responder_call = CallReadMessage1 bytes | CallMessage2 | CallReadMessage3 gotime bytes

fun responder_step ::
    "('h, 'c, 'r) handshake_api \<Rightarrow> ('h, 'c) responder \<Rightarrow> responder_call \<Rightarrow> ('h, 'c) responder" where
  "responder_step hapi r (CallReadMessage1 m) = snd (ReadMessage1 hapi r m)"
| "responder_step hapi r CallMessage2 = snd (Message2 hapi r)"
| "responder_step hapi r (CallReadMessage3 now m) = snd (ReadMessage3 hapi now r m)"

definition responder_run ::
    "('h, 'c, 'r) handshake_api \<Rightarrow> ('h, 'c) responder \<Rightarrow> responder_call list
     \<Rightarrow> ('h, 'c) responder" where
  "responder_run hapi r cs = foldl (responder_step hapi) r cs"

text \<open>What the library promises of the peer's static key: writing a message leaves it alone.\<close>

definition static_law :: "('h, 'c, 'r) handshake_api \<Rightarrow> bool" where
  "static_law hapi \<longleftrightarrow> (\<forall>h. h_peerStatic hapi (snd (h_write hapi h)) = h_peerStatic hapi h)"

text \<open>
  What it promises of \<^verbatim>\<open>Split\<close>: two ends with the same channel binding after the last message,
  one of which wrote and the other read it, hold the same pair of keys, in the same order.
\<close>

definition split_law :: "('h, 'c, 'r) handshake_api \<Rightarrow> ('c, 'k) cipher_api \<Rightarrow> bool" where
  "split_law hapi api \<longleftrightarrow>
     (\<forall>hi hr hi' hr' msg a b c d.
        h_write hapi hi = (Some (msg, Some a, Some b), hi') \<longrightarrow>
        h_read hapi msg hr = (Some (Some c, Some d), hr') \<longrightarrow>
        h_channelBinding hapi hi' = h_channelBinding hapi hr' \<longrightarrow>
        c_key api a = c_key api c \<and> c_key api b = c_key api d)"

text \<open>A concrete handshake: message 1 is empty, messages 2 and 3 are the sender's public key, of 32 bytes.\<close>

record demo_hs =
  d_init :: bool
  d_step :: nat
  d_pub :: bytes
  d_peer :: "bytes option"

definition demo_hapi :: "(demo_hs, nat \<times> u64, unit) handshake_api" where
  "demo_hapi =
     \<lparr>h_new = \<lambda>ini pro priv pub rnd. Some \<lparr>d_init = ini, d_step = 0, d_pub = pub, d_peer = None\<rparr>,
      h_write = \<lambda>h. (Some (if d_step h = 0 then [] else take 32 (d_pub h),
                       if d_step h = 2 then Some (7, 0) else None,
                       if d_step h = 2 then Some (8, 0) else None), h\<lparr>d_step := d_step h + 1\<rparr>),
      h_read = \<lambda>m h. (Some (if d_step h = 2 then Some (7, 0) else None,
                       if d_step h = 2 then Some (8, 0) else None),
                      h\<lparr>d_step := d_step h + 1, d_peer := if d_step h = 0 then None else Some m\<rparr>),
      h_peerStatic = d_peer,
      h_channelBinding = \<lambda>h. Some [1, 2, 3]\<rparr>"

lemma demo_hapi_laws: "static_law demo_hapi" "split_law demo_hapi demo_api"
  by (auto simp: static_law_def split_law_def demo_hapi_def demo_api_def split: if_splits)

definition demo_keypair :: "byte \<Rightarrow> Keypair" where
  "demo_keypair b = \<lparr>kp_Public = Some (replicate 32 b), kp_Private = Some (replicate 32 b)\<rparr>"

section \<open>Invariants\<close>

text \<open>
  A session carries ciphers only when the handshake is complete, it is then fresh, and the
  static key it names is the one the initiator was created with.
\<close>

definition complete_session :: "'c session \<Rightarrow> bool" where
  "complete_session s \<longleftrightarrow> s_send s \<noteq> None \<and> s_recv s \<noteq> None \<and> fresh_session s
     \<and> s_rekeyEvery s = DefaultRekeyEvery"

definition initiator_inv ::
    "('h, 'c, 'r) handshake_api \<Rightarrow> bytes \<Rightarrow> ('h, 'c) initiator \<Rightarrow> bool" where
  "initiator_inv hapi key i \<longleftrightarrow> in_expected i = Some key \<and>
     (case in_phase i of
        phaseStart \<Rightarrow> in_session i = None
      | phaseMessage1 \<Rightarrow> in_session i = None
      | phaseMessage2 \<Rightarrow> in_session i = Some blank_session
          \<and> (\<exists>hs. in_hs i = Some hs \<and> raw (h_peerStatic hapi hs) = key)
      | phaseComplete \<Rightarrow> \<exists>s. in_session i = Some s \<and> complete_session s
          \<and> raw (s_peerStatic s) = key)"

definition responder_inv :: "('h, 'c) responder \<Rightarrow> bool" where
  "responder_inv r \<longleftrightarrow>
     (if re_phase r = phaseComplete then \<exists>s. re_session r = Some s \<and> complete_session s
      else re_session r = None)"

lemma fresh_blank [simp]: "fresh_session blank_session" "s_rekeyEvery blank_session = DefaultRekeyEvery"
  "s_send blank_session = None"
  by (simp_all add: blank_session_def fresh_session_def)

lemma complete_filled:
  "complete_session (blank_session\<lparr>s_send := Some a, s_recv := Some b, s_peerStatic := p,
     s_channelBinding := q, s_start := t\<rparr>)"
  by (simp add: complete_session_def blank_session_def fresh_session_def)

lemma NewInitiator_inv:
  "NewInitiator hapi rnd k (Some key) pro = Inr i \<Longrightarrow>
   initiator_inv hapi key i \<and> length key = KeySize"
  by (auto simp: NewInitiator_def initiator_inv_def split: if_splits option.splits)

lemma Message1_inv: "initiator_inv hapi key i \<Longrightarrow> initiator_inv hapi key (snd (Message1 hapi i))"
  by (auto simp: Message1_def initiator_inv_def split: option.splits prod.splits phase.splits)

lemma ReadMessage2_inv:
  "initiator_inv hapi key i \<Longrightarrow> initiator_inv hapi key (snd (ReadMessage2 hapi i m))"
  by (auto simp: ReadMessage2_def initiator_inv_def split: option.splits prod.splits phase.splits)

lemma static_law_write:
  "static_law hapi \<Longrightarrow> h_write hapi hs = (r, hs') \<Longrightarrow> h_peerStatic hapi hs' = h_peerStatic hapi hs"
  unfolding static_law_def by (metis snd_conv)

lemma WriteMessage3_cases:
  assumes "in_hs i = Some hs" "in_phase i = phaseMessage2" "h_write hapi hs = (w, hs')"
  obtains msg a b where "w = Some (msg, Some a, Some b)"
      "WriteMessage3 hapi now i =
        (Inr msg, i\<lparr>in_hs := Some hs', in_phase := phaseComplete, in_session :=
           Some ((case in_session i of None \<Rightarrow> blank_session | Some s \<Rightarrow> s)
             \<lparr>s_send := Some a, s_recv := Some b, s_peerStatic := h_peerStatic hapi hs',
              s_channelBinding := h_channelBinding hapi hs', s_start := now\<rparr>)\<rparr>)"
    | e where "WriteMessage3 hapi now i = (Inl e, i\<lparr>in_hs := Some hs'\<rparr>)"
proof (cases w)
  case None
  then show thesis using assms that(2) by (simp add: WriteMessage3_def)
next
  case (Some x)
  obtain msg oa ob where x: "x = (msg, oa, ob)" by (cases x) auto
  show thesis
  proof (cases "oa = None \<or> ob = None")
    case True
    then show thesis using assms that(2) Some x
      by (cases oa) (auto simp: WriteMessage3_def)
  next
    case False
    then show thesis using assms that(1) Some x by (auto simp: WriteMessage3_def Let_def)
  qed
qed

lemma WriteMessage3_inv:
  assumes law: "static_law hapi" and inv: "initiator_inv hapi key i"
  shows "initiator_inv hapi key (snd (WriteMessage3 hapi now i))"
proof (cases "in_phase i = phaseMessage2")
  case False
  then have "snd (WriteMessage3 hapi now i) = i"
    by (simp add: WriteMessage3_def split: option.splits)
  then show ?thesis using inv by simp
next
  case True
  then obtain hs where hs: "in_hs i = Some hs" "raw (h_peerStatic hapi hs) = key"
    "in_session i = Some blank_session" "in_expected i = Some key"
    using inv by (auto simp: initiator_inv_def)
  obtain w hs' where w: "h_write hapi hs = (w, hs')" by force
  then have p: "h_peerStatic hapi hs' = h_peerStatic hapi hs" by (rule static_law_write [OF law])
  from hs(1) True w show ?thesis
    by (rule WriteMessage3_cases [where now = now])
      (use hs p True in \<open>simp_all add: initiator_inv_def complete_filled\<close>)
qed

lemma initiator_run_inv:
  "static_law hapi \<Longrightarrow> initiator_inv hapi key i \<Longrightarrow> initiator_inv hapi key (initiator_run hapi i cs)"
proof (induction cs arbitrary: i)
  case (Cons c cs)
  have "initiator_inv hapi key (initiator_step hapi i c)"
    using Cons.prems Message1_inv ReadMessage2_inv WriteMessage3_inv by (cases c) auto
  then show ?case using Cons by (simp add: initiator_run_def)
qed (simp add: initiator_run_def)

lemma NewResponder_inv: "NewResponder hapi rnd k pro = Inr r \<Longrightarrow> responder_inv r"
  by (auto simp: NewResponder_def responder_inv_def split: if_splits option.splits)

lemma ReadMessage1_inv: "responder_inv r \<Longrightarrow> responder_inv (snd (ReadMessage1 hapi r m))"
  by (auto simp: ReadMessage1_def responder_inv_def split: option.splits prod.splits)

lemma Message2_inv: "responder_inv r \<Longrightarrow> responder_inv (snd (Message2 hapi r))"
  by (auto simp: Message2_def responder_inv_def split: option.splits prod.splits)

lemma ReadMessage3_inv: "responder_inv r \<Longrightarrow> responder_inv (snd (ReadMessage3 hapi now r m))"
  by (auto simp: ReadMessage3_def responder_inv_def complete_filled Let_def
      split: option.splits prod.splits)

lemma responder_run_inv: "responder_inv r \<Longrightarrow> responder_inv (responder_run hapi r cs)"
proof (induction cs arbitrary: r)
  case (Cons c cs)
  have "responder_inv (responder_step hapi r c)"
    using Cons.prems ReadMessage1_inv Message2_inv ReadMessage3_inv by (cases c) auto
  then show ?case using Cons by (simp add: responder_run_def)
qed (simp add: responder_run_def)

lemma WriteMessage3_Inr:
  assumes "WriteMessage3 hapi now i = (Inr msg, i')"
  obtains hs hs' a b s where "in_hs i = Some hs" "h_write hapi hs = (Some (msg, Some a, Some b), hs')"
    "in_hs i' = Some hs'" "in_session i' = Some s" "s_send s = Some a" "s_recv s = Some b"
    "s_channelBinding s = h_channelBinding hapi hs'"
proof -
  obtain hs where hs: "in_hs i = Some hs"
    using assms by (cases "in_hs i") (simp_all add: WriteMessage3_def)
  have ph: "in_phase i = phaseMessage2"
    using assms hs by (simp add: WriteMessage3_def split: if_splits)
  obtain w hs' where w: "h_write hapi hs = (w, hs')" by force
  from hs ph w show thesis
    by (rule WriteMessage3_cases [where now = now]) (use assms hs w that in auto)
qed

lemma ReadMessage3_Inr:
  assumes "ReadMessage3 hapi now r msg = (Inr s, r')"
  obtains hs hs' c d where "re_hs r = Some hs" "h_read hapi msg hs = (Some (Some c, Some d), hs')"
    "s_send s = Some d" "s_recv s = Some c" "s_channelBinding s = h_channelBinding hapi hs'"
    "complete_session s"
  using assms
  by (auto simp: ReadMessage3_def Let_def complete_filled
      split: option.splits prod.splits if_splits)

text \<open>Two complete sessions with crossed keys carry messages in order in both directions.\<close>

definition channel_works :: "('c, 'k) cipher_api \<Rightarrow> 'c session \<Rightarrow> 'c session \<Rightarrow> bool" where
  "channel_works api s r \<longleftrightarrow>
     (\<forall>ps. length ps \<le> 18446744073709551615 \<longrightarrow>
        decrypt_all api r (encrypt_all api s ps) = map Inr ps)"

lemma crossed_channel:
  assumes "cipher_laws api seal opn rk" "complete_session s" "complete_session r"
    and "s_send s = Some a" "s_recv r = Some c" "c_key api a = c_key api c"
  shows "channel_works api s r"
proof -
  have "send_keyed api rk (c_key api a) s" "recv_keyed api rk (c_key api a) r"
    using assms by (simp_all add: send_keyed_def recv_keyed_def complete_session_def fresh_session_def)
  then show ?thesis
    using assms lockstep_run [OF assms(1)]
    by (simp add: channel_works_def complete_session_def fresh_session_def on_schedule_def epochOf_def)
qed

lemma handshake_crossed:
  assumes "split_law hapi api" "cipher_laws api seal opn rk" "static_law hapi"
    and "initiator_inv hapi key i"
    and "WriteMessage3 hapi now i = (Inr msg, i')" "in_session i' = Some s"
    and "ReadMessage3 hapi now' r msg = (Inr t, r')"
    and "s_channelBinding s = s_channelBinding t"
  shows "channel_works api s t \<and> channel_works api t s"
proof -
  obtain hi hi' a b where i: "h_write hapi hi = (Some (msg, Some a, Some b), hi')"
      "s_send s = Some a" "s_recv s = Some b" "s_channelBinding s = h_channelBinding hapi hi'"
    using WriteMessage3_Inr [OF assms(5)] assms(6) by (metis option.inject)
  obtain hr hr' c d where r: "h_read hapi msg hr = (Some (Some c, Some d), hr')"
      "s_send t = Some d" "s_recv t = Some c" "s_channelBinding t = h_channelBinding hapi hr'"
      "complete_session t"
    using ReadMessage3_Inr [OF assms(7)] by metis
  have k: "c_key api a = c_key api c" "c_key api b = c_key api d"
    using assms(1) i(1,4) r(1,4) assms(8) unfolding split_law_def by metis+
  have "initiator_inv hapi key i'"
    using WriteMessage3_inv [OF assms(3,4), of now] assms(5) by simp
  then have "complete_session s"
    using assms(6) i(2) by (auto simp: initiator_inv_def split: phase.splits)
  then show ?thesis
    using crossed_channel [OF assms(2)] i(2,3) r(2,3,5) k by metis
qed

section \<open>The length of messages\<close>

text \<open>Handshake messages fit a 16-bit length field, as the Noise specification demands.\<close>

definition msg_law :: "('h, 'c, 'r) handshake_api \<Rightarrow> bool" where
  "msg_law hapi \<longleftrightarrow> (\<forall>h m a b h'. h_write hapi h = (Some (m, a, b), h') \<longrightarrow> length m < 65536)"

lemma msg_lawD: "msg_law hapi \<Longrightarrow> h_write hapi h = (Some (m, a, b), h') \<Longrightarrow> length m < 65536"
  unfolding msg_law_def by blast

lemma Message1_length:
  assumes "msg_law hapi" "Message1 hapi i = (Inr m, i')"
  shows "length m < 65536"
proof -
  obtain hs where hs: "in_hs i = Some hs" using assms(2) by (cases "in_hs i") (simp_all add: Message1_def)
  obtain w hs' where w: "h_write hapi hs = (w, hs')" by (cases "h_write hapi hs")
  have ph: "in_phase i = phaseStart" using assms(2) hs by (simp add: Message1_def split: if_splits)
  then obtain a b where "w = Some (m, a, b)"
    using assms(2) hs w by (cases w) (auto simp: Message1_def)
  then show ?thesis using msg_lawD [OF assms(1)] w by simp
qed

lemma Message2_length:
  assumes "msg_law hapi" "Message2 hapi r = (Inr m, r')"
  shows "length m < 65536"
proof -
  obtain hs where hs: "re_hs r = Some hs" using assms(2) by (cases "re_hs r") (simp_all add: Message2_def)
  obtain w hs' where w: "h_write hapi hs = (w, hs')" by (cases "h_write hapi hs")
  have ph: "re_phase r = phaseMessage1" using assms(2) hs by (simp add: Message2_def split: if_splits)
  then obtain a b where "w = Some (m, a, b)"
    using assms(2) hs w by (cases w) (auto simp: Message2_def)
  then show ?thesis using msg_lawD [OF assms(1)] w by simp
qed

lemma WriteMessage3_length:
  assumes "msg_law hapi" "WriteMessage3 hapi now i = (Inr m, i')"
  shows "length m < 65536"
proof -
  obtain hs hs' a b s where "in_hs i = Some hs" "h_write hapi hs = (Some (m, Some a, Some b), hs')"
    using WriteMessage3_Inr [OF assms(2)] WriteMessage3_cases by metis
  then show ?thesis using msg_lawD [OF assms(1)] by blast
qed

section \<open>Properties\<close>

text \<open>C14: The initiator authenticates its peer. Whatever calls are made on an initiator, in
  whatever order and with whatever messages, a session of it that can send names exactly the
  static key the initiator was created to reach, holds both ciphers, and is fresh.\<close>

theorem initiator_authenticates_peer:
  assumes "static_law hapi"
    and "NewInitiator hapi rnd k (Some key) pro = Inr i"
    and "in_session (initiator_run hapi i cs) = Some s" "s_send s \<noteq> None"
  shows "s_peerStatic s = Some key \<and> s_recv s \<noteq> None \<and> fresh_session s
    \<and> in_phase (initiator_run hapi i cs) = phaseComplete"
proof -
  have i: "initiator_inv hapi key i" "length key = KeySize"
    using NewInitiator_inv [OF assms(2)] by auto
  have "initiator_inv hapi key (initiator_run hapi i cs)"
    by (rule initiator_run_inv [OF assms(1) i(1)])
  then have "complete_session s" "raw (s_peerStatic s) = key"
    "in_phase (initiator_run hapi i cs) = phaseComplete"
    using assms(3,4) by (auto simp: initiator_inv_def split: phase.splits)
  then show ?thesis
    using i(2) by (cases "s_peerStatic s") (auto simp: complete_session_def KeySize_def)
qed

definition demo_initiator :: "(demo_hs, nat \<times> u64) initiator" where
  "demo_initiator = \<lparr>in_hs = Some \<lparr>d_init = True, d_step = 0, d_pub = replicate 32 1, d_peer = None\<rparr>,
     in_expected = Some (replicate 32 2), in_session = None, in_phase = phaseStart\<rparr>"

lemma demo_initiator_new:
  "NewInitiator demo_hapi () (Some (demo_keypair 1)) (Some (replicate 32 2)) None = Inr demo_initiator"
  by (simp add: NewInitiator_def demo_hapi_def demo_keypair_def static_ok_def KeySize_def
      demo_initiator_def)

definition demo_calls :: "initiator_call list" where
  "demo_calls = [CallMessage1, CallReadMessage2 (replicate 32 2), CallWriteMessage3 5]"

definition demo_initiator_session :: "(nat \<times> u64) session" where
  "demo_initiator_session = blank_session\<lparr>s_send := Some (7, 0), s_recv := Some (8, 0),
     s_peerStatic := Some (replicate 32 2), s_channelBinding := Some [1, 2, 3], s_start := 5\<rparr>"

lemma demo_initiator_run:
  "in_session (initiator_run demo_hapi demo_initiator demo_calls) = Some demo_initiator_session"
  by (simp add: initiator_run_def demo_calls_def demo_initiator_def demo_hapi_def Message1_def
      ReadMessage2_def WriteMessage3_def demo_initiator_session_def Let_def)

theorem initiator_authenticates_peer_witness:
  "s_peerStatic demo_initiator_session = Some (replicate 32 2) \<and> fresh_session demo_initiator_session"
  using initiator_authenticates_peer [OF demo_hapi_laws(1) demo_initiator_new demo_initiator_run]
  by (simp add: demo_initiator_session_def)

text \<open>C13: A completed handshake gives a working channel. When the responder accepts the last
  message the initiator wrote and both sides see the same channel binding, then whatever one
  side encrypts the other decrypts, in order, in both directions: the machines cross the two
  cipher states of \<^verbatim>\<open>Split\<close> correctly.\<close>

theorem handshake_gives_channel:
  assumes "static_law hapi" "split_law hapi api" "cipher_laws api seal opn rk"
    and "NewInitiator hapi rnd k (Some key) pro = Inr i"
    and "WriteMessage3 hapi now (initiator_run hapi i cs) = (Inr msg, i')" "in_session i' = Some s"
    and "ReadMessage3 hapi now' r msg = (Inr t, r')"
    and "s_channelBinding s = s_channelBinding t"
  shows "channel_works api s t \<and> channel_works api t s"
  using handshake_crossed [OF assms(2,3,1) initiator_run_inv [OF assms(1)]]
    NewInitiator_inv [OF assms(4)] assms(5-8)
  by blast

definition demo_responder :: "(demo_hs, nat \<times> u64) responder" where
  "demo_responder = \<lparr>re_hs = Some \<lparr>d_init = False, d_step = 2, d_pub = replicate 32 2, d_peer = None\<rparr>,
     re_session = None, re_phase = phaseMessage2\<rparr>"

definition demo_responder_session :: "(nat \<times> u64) session" where
  "demo_responder_session = blank_session\<lparr>s_send := Some (8, 0), s_recv := Some (7, 0),
     s_peerStatic := Some (replicate 32 1), s_channelBinding := Some [1, 2, 3], s_start := 6\<rparr>"

lemma demo_last_messages:
  "\<exists>i'. WriteMessage3 demo_hapi 5 (initiator_run demo_hapi demo_initiator (butlast demo_calls))
      = (Inr (replicate 32 1), i') \<and> in_session i' = Some demo_initiator_session"
  "\<exists>r'. ReadMessage3 demo_hapi 6 demo_responder (replicate 32 1) = (Inr demo_responder_session, r')"
  by (simp_all add: initiator_run_def demo_calls_def demo_initiator_def demo_hapi_def Message1_def
      ReadMessage2_def WriteMessage3_def demo_initiator_session_def Let_def ReadMessage3_def
      demo_responder_def demo_responder_session_def)

theorem handshake_gives_channel_witness:
  "channel_works demo_api demo_initiator_session demo_responder_session"
proof -
  obtain i' r' where
    "WriteMessage3 demo_hapi 5 (initiator_run demo_hapi demo_initiator (butlast demo_calls))
      = (Inr (replicate 32 1), i')" "in_session i' = Some demo_initiator_session"
    "ReadMessage3 demo_hapi 6 demo_responder (replicate 32 1) = (Inr demo_responder_session, r')"
    using demo_last_messages by blast
  from handshake_gives_channel [OF demo_hapi_laws demo_laws demo_initiator_new this]
  show ?thesis by (simp add: demo_initiator_session_def demo_responder_session_def)
qed

end
