(* ===== verification/Netaddr.thy ===== *)
theory Netaddr
  imports Interfaces
begin

text \<open>
  Network addresses as package \<^verbatim>\<open>net\<close> has them and the helpers the program builds on them:
  \<^verbatim>\<open>cloneAddr\<close>, \<^verbatim>\<open>cloneIP\<close>, \<^verbatim>\<open>addrEqual\<close> of \<^verbatim>\<open>internal/relay/relay.go\<close> and \<^verbatim>\<open>addrKey\<close>, \<^verbatim>\<open>ipKey\<close>
  of \<^verbatim>\<open>internal/nat/nat.go\<close>. \<open>ResolveUDPAddr\<close> reads IPv4 literals with numeric ports; every
  other string (host names, service names, IPv6 literals, missing parts) goes to the resolver of
  the host, an argument.
\<close>

section \<open>Decimal and hexadecimal numbers\<close>

fun dec :: "nat \<Rightarrow> gostring" where
  "dec n = (if n < 10 then [48 + of_nat n] else dec (n div 10) @ [48 + of_nat (n mod 10)])"

declare dec.simps [simp del]

definition Itoa :: "int \<Rightarrow> gostring" where
  "Itoa i = (if i < 0 then 45 # dec (nat (- i)) else dec (nat i))"

definition isDigit :: "byte \<Rightarrow> bool" where
  "isDigit c \<longleftrightarrow> 48 \<le> c \<and> c \<le> 57"

definition dec_val :: "gostring \<Rightarrow> nat" where
  "dec_val s = foldl (\<lambda>a c. 10 * a + unat (c - 48)) 0 s"

lemma digit_of_nat: "n < 10 \<Longrightarrow> isDigit (48 + of_nat n) \<and> unat (48 + of_nat n - 48 :: byte) = n"
proof -
  assume "n < 10"
  then have "unat (48 + of_nat n :: byte) = 48 + n"
    by (simp add: unat_word_ariths unat_of_nat)
  then show ?thesis
    using \<open>n < 10\<close> by (simp add: isDigit_def word_le_nat_alt unat_of_nat)
qed

lemma dec_digits: "\<forall>c\<in>set (dec n). isDigit c"
proof (induction n rule: dec.induct)
  case (1 n)
  show ?case
    using 1 digit_of_nat [of n] digit_of_nat [of "n mod 10"] by (subst dec.simps) auto
qed

lemma dec_val_snoc: "dec_val (s @ [c]) = 10 * dec_val s + unat (c - 48)"
  by (simp add: dec_val_def)

lemma dec_val_dec [simp, codec]: "dec_val (dec n) = n"
proof (induction n rule: dec.induct)
  case (1 n)
  show ?case
  proof (cases "n < 10")
    case True
    then show ?thesis using digit_of_nat [of n] by (simp add: dec.simps [of n] dec_val_def)
  next
    case False
    then show ?thesis
      using 1 digit_of_nat [of "n mod 10"]
      by (simp add: dec.simps [of n] dec_val_snoc)
  qed
qed

lemma dec_nonempty [simp]: "dec n \<noteq> []"
  by (subst dec.simps) simp

lemma dec_head: "hd (dec n) = 48 \<Longrightarrow> length (dec n) = 1"
proof (induction n rule: dec.induct)
  case (1 n)
  show ?case
  proof (cases "n < 10")
    case False
    have h: "hd (dec n) = hd (dec (n div 10))" using False by (subst dec.simps) simp
    then have "length (dec (n div 10)) = 1" using 1 False by simp
    then have "dec (n div 10) = [48]" using h 1(2) by (cases "dec (n div 10)") auto
    then have "n div 10 = 0" using dec_val_dec [of "n div 10"] by (simp add: dec_val_def)
    then show ?thesis using False by simp
  qed (simp add: dec.simps [of n])
qed

lemma dec_length: "n < 10 ^ k \<Longrightarrow> 0 < k \<Longrightarrow> length (dec n) \<le> k"
proof (induction k arbitrary: n)
  case (Suc k)
  show ?case
  proof (cases "n < 10")
    case False
    have "n div 10 < 10 ^ k" using Suc.prems(1) by (simp add: div_less_iff_less_mult)
    moreover have "0 < k" using False Suc.prems(1) by (cases k) auto
    ultimately have "length (dec (n div 10)) \<le> k" using Suc.IH by simp
    then show ?thesis using False by (subst dec.simps) simp
  qed (subst dec.simps, simp)
qed simp

fun hex16 :: "nat \<Rightarrow> gostring" where
  "hex16 n = (if n < 16 then [if n < 10 then 48 + of_nat n else 87 + of_nat n]
     else hex16 (n div 16) @ [if n mod 16 < 10 then 48 + of_nat (n mod 16) else 87 + of_nat (n mod 16)])"

declare hex16.simps [simp del]

section \<open>Addresses\<close>

record UDPAddr =
  a_IP :: "bytes option"
  a_Port :: int
  a_Zone :: gostring

definition v4InV6Prefix :: bytes where
  "v4InV6Prefix = replicate 10 0 @ [255, 255]"

definition To4 :: "bytes \<Rightarrow> bytes option" where
  "To4 ip = (if length ip = 4 then Some ip
     else if length ip = 16 \<and> take 12 ip = v4InV6Prefix then Some (drop 12 ip) else None)"

definition To16 :: "bytes \<Rightarrow> bytes option" where
  "To16 ip = (if length ip = 4 then Some (v4InV6Prefix @ ip)
     else if length ip = 16 then Some ip else None)"

text \<open>\<^verbatim>\<open>IP.Equal\<close>: an IPv4 address and its form in IPv6 are equal.\<close>

definition IP_Equal :: "bytes \<Rightarrow> bytes \<Rightarrow> bool" where
  "IP_Equal ip x =
     (if length ip = length x then ip = x
      else if length ip = 4 \<and> length x = 16 then take 12 x = v4InV6Prefix \<and> ip = drop 12 x
      else if length ip = 16 \<and> length x = 4 then take 12 ip = v4InV6Prefix \<and> drop 12 ip = x
      else False)"

definition join :: "gostring \<Rightarrow> gostring list \<Rightarrow> gostring" where
  "join sep ss = (case ss of [] \<Rightarrow> [] | s # rest \<Rightarrow> s @ concat (map (\<lambda>t. sep @ t) rest))"

definition ip4_string :: "bytes \<Rightarrow> gostring" where
  "ip4_string ip = join [46] (map (\<lambda>b. dec (unat b)) ip)"

text \<open>The text of an IPv6 address: the first longest run of at least two zero groups is elided.\<close>

definition zero_run :: "nat list \<Rightarrow> nat \<Rightarrow> nat" where
  "zero_run gs i = length (takeWhile (\<lambda>g. g = 0) (drop i gs))"

definition longest_zeros :: "nat list \<Rightarrow> nat \<times> nat" where
  "longest_zeros gs = fold (\<lambda>i (s, e). let l = zero_run gs i in
     if 2 \<le> l \<and> e - s < l then (i, i + l) else (s, e)) [0..<length gs] (255, 255)"

definition ip6_string :: "bytes \<Rightarrow> gostring" where
  "ip6_string ip =
     (let gs = map (\<lambda>i. unat (get16 (ip ! (2 * i)) (ip ! (2 * i + 1)))) [0..<8];
          (s, e) = longest_zeros gs
      in if s = 255 then join [58] (map hex16 gs)
         else join [58] (map hex16 (take s gs)) @ [58, 58] @ join [58] (map hex16 (drop e gs)))"

definition hexString :: "bytes \<Rightarrow> gostring" where
  "hexString bs = concat (map (\<lambda>b. [if unat b div 16 < 10 then 48 + of_nat (unat b div 16)
       else 87 + of_nat (unat b div 16),
     if unat b mod 16 < 10 then 48 + of_nat (unat b mod 16) else 87 + of_nat (unat b mod 16)]) bs)"

definition IP_String :: "bytes \<Rightarrow> gostring" where
  "IP_String ip =
     (if ip = [] then lit ''<nil>''
      else case To4 ip of
        Some p4 \<Rightarrow> ip4_string p4
      | None \<Rightarrow> if length ip = 16 then ip6_string ip else 63 # hexString ip)"

definition JoinHostPort :: "gostring \<Rightarrow> gostring \<Rightarrow> gostring" where
  "JoinHostPort host port =
     (if 58 \<in> set host then [91] @ host @ [93, 58] @ port else host @ [58] @ port)"

text \<open>A nil \<^verbatim>\<open>*UDPAddr\<close> is \<open>None\<close>.\<close>

definition UDPAddr_String :: "UDPAddr option \<Rightarrow> gostring" where
  "UDPAddr_String oa = (case oa of None \<Rightarrow> lit ''<nil>''
     | Some a \<Rightarrow>
         let ip = raw (a_IP a); s = (if ip = [] then [] else IP_String ip)
         in if a_Zone a \<noteq> [] then JoinHostPort (s @ [37] @ a_Zone a) (Itoa (a_Port a))
            else JoinHostPort s (Itoa (a_Port a)))"

section \<open>Reading addresses\<close>

fun split_on :: "byte \<Rightarrow> gostring \<Rightarrow> gostring list" where
  "split_on c [] = [[]]"
| "split_on c (x # xs) =
     (if x = c then [] # split_on c xs
      else case split_on c xs of [] \<Rightarrow> [[x]] | f # fs \<Rightarrow> (x # f) # fs)"

definition octet :: "gostring \<Rightarrow> byte option" where
  "octet f = (if f \<noteq> [] \<and> (\<forall>c\<in>set f. isDigit c) \<and> (hd f = 48 \<longrightarrow> length f = 1) \<and> dec_val f \<le> 255
     then Some (of_nat (dec_val f)) else None)"

definition parse_ip4 :: "gostring \<Rightarrow> bytes option" where
  "parse_ip4 s = (case split_on 46 s of
       [a, b, c, d] \<Rightarrow>
         (case (octet a, octet b, octet c, octet d) of
            (Some w, Some x, Some y, Some z) \<Rightarrow> Some [w, x, y, z]
          | _ \<Rightarrow> None)
     | _ \<Rightarrow> None)"

definition parse_port :: "gostring \<Rightarrow> int option" where
  "parse_port s = (if s \<noteq> [] \<and> (\<forall>c\<in>set s. isDigit c) \<and> dec_val s \<le> 65535
     then Some (int (dec_val s)) else None)"

text \<open>The resolver answers every string that is not an IPv4 literal with a numeric port.\<close>

definition ResolveUDPAddr :: "(gostring \<Rightarrow> UDPAddr option) \<Rightarrow> gostring \<Rightarrow> UDPAddr option" where
  "ResolveUDPAddr resolver s =
     (case (parse_ip4 (takeWhile (\<lambda>c. c \<noteq> 58) s), parse_port (drop 1 (dropWhile (\<lambda>c. c \<noteq> 58) s))) of
        (Some ip, Some p) \<Rightarrow> Some \<lparr>a_IP = Some (v4InV6Prefix @ ip), a_Port = p, a_Zone = []\<rparr>
      | _ \<Rightarrow> resolver s)"

section \<open>The program's helpers\<close>

definition cloneIP :: "bytes option \<Rightarrow> bytes option" where
  "cloneIP ip = Some (raw ip)"

definition cloneAddr :: "UDPAddr option \<Rightarrow> UDPAddr option" where
  "cloneAddr oa = (case oa of None \<Rightarrow> None | Some a \<Rightarrow> Some (a\<lparr>a_IP := cloneIP (a_IP a)\<rparr>))"

definition addrEqual :: "UDPAddr option \<Rightarrow> UDPAddr option \<Rightarrow> bool" where
  "addrEqual oa ob = (case (oa, ob) of
       (Some a, Some b) \<Rightarrow>
         if a_Port a \<noteq> a_Port b \<or> \<not> IP_Equal (raw (a_IP a)) (raw (a_IP b)) then False
         else a_Zone a = a_Zone b
     | (None, None) \<Rightarrow> True
     | _ \<Rightarrow> False)"

definition ipKey :: "bytes option \<Rightarrow> gostring" where
  "ipKey ip = (case To4 (raw ip) of Some v4 \<Rightarrow> IP_String v4
     | None \<Rightarrow> (case To16 (raw ip) of Some v6 \<Rightarrow> IP_String v6 | None \<Rightarrow> []))"

definition addrKey :: "UDPAddr option \<Rightarrow> gostring" where
  "addrKey oa = (case oa of None \<Rightarrow> []
     | Some a \<Rightarrow> JoinHostPort (ipKey (a_IP a)) (Itoa (a_Port a)))"

section \<open>IPv4 text reads back\<close>

lemma isDigit_range: "isDigit c \<Longrightarrow> c \<noteq> 46 \<and> c \<noteq> 58 \<and> c \<noteq> 37 \<and> c \<noteq> 91"
  by (auto simp: isDigit_def)

lemma dec_chars: "46 \<notin> set (dec n)" "58 \<notin> set (dec n)"
  using dec_digits [of n] isDigit_range by blast+

lemma split_on_plain: "c \<notin> set s \<Longrightarrow> split_on c s = [s]"
  by (induction s) auto

lemma split_on_append: "c \<notin> set s \<Longrightarrow> split_on c (s @ c # t) = s # split_on c t"
  by (induction s) auto

lemma octet_dec [simp, codec]: "octet (dec (unat b)) = Some b"
  using dec_digits [of "unat b"] dec_head [of "unat b"] unat8_less [of b]
  by (auto simp: octet_def)

lemma ip4_string_4: "ip4_string [a, b, c, d] =
    dec (unat a) @ 46 # dec (unat b) @ 46 # dec (unat c) @ 46 # dec (unat d)"
  by (simp add: ip4_string_def join_def)

lemma parse_ip4_string [simp, codec]: "length ip = 4 \<Longrightarrow> parse_ip4 (ip4_string ip) = Some ip"
proof -
  assume "length ip = 4"
  then obtain a b c d where "ip = [a, b, c, d]"
    by (auto simp: length_Suc_conv numeral_eq_Suc)
  then show ?thesis
    by (simp add: ip4_string_4 parse_ip4_def split_on_append split_on_plain dec_chars)
qed

lemma ip4_string_inj: "length a = 4 \<Longrightarrow> length b = 4 \<Longrightarrow> ip4_string a = ip4_string b \<Longrightarrow> a = b"
  using parse_ip4_string by (metis option.inject)

lemma ip4_no_colon: "58 \<notin> set (ip4_string ip)"
  by (cases ip) (auto simp: ip4_string_def join_def dec_chars)

lemma To4_length: "To4 ip = Some x \<Longrightarrow> length x = 4"
  by (auto simp: To4_def split: if_splits)

lemma To4_mapped [simp]: "length x = 4 \<Longrightarrow> To4 (v4InV6Prefix @ x) = Some x"
  by (simp add: To4_def v4InV6Prefix_def)

lemma To4_id: "length x = 4 \<Longrightarrow> To4 x = Some x"
  by (simp add: To4_def)

lemma IP_String_v4: "To4 ip = Some x \<Longrightarrow> IP_String ip = ip4_string x"
  by (auto simp: IP_String_def To4_def split: if_splits)

lemma IP_Equal_To4:
  "To4 ip = Some x \<Longrightarrow> To4 jp = Some y \<Longrightarrow> IP_Equal ip jp \<longleftrightarrow> x = y"
  by (auto simp: To4_def IP_Equal_def split: if_splits) (metis append_take_drop_id)+

lemma IP_Equal_refl [simp]: "IP_Equal ip ip"
  by (simp add: IP_Equal_def)

text \<open>An endpoint with an IPv4 address, a port number and no zone.\<close>

definition v4_addr :: "UDPAddr \<Rightarrow> bool" where
  "v4_addr a \<longleftrightarrow> To4 (raw (a_IP a)) \<noteq> None \<and> 0 \<le> a_Port a \<and> a_Port a \<le> 65535 \<and> a_Zone a = []"

lemma UDPAddr_String_v4:
  assumes "v4_addr a" "To4 (raw (a_IP a)) = Some x"
  shows "UDPAddr_String (Some a) = ip4_string x @ 58 # dec (nat (a_Port a))"
proof -
  have "raw (a_IP a) \<noteq> []" using assms(2) by (auto simp: To4_def)
  then show ?thesis
    using assms by (simp add: UDPAddr_String_def v4_addr_def IP_String_v4 JoinHostPort_def
        ip4_no_colon Itoa_def Let_def)
qed

lemma parse_port_dec: "0 \<le> p \<Longrightarrow> p \<le> 65535 \<Longrightarrow> parse_port (dec (nat p)) = Some p"
  using dec_digits [of "nat p"] by (auto simp: parse_port_def)

lemma Resolve_v4:
  assumes "v4_addr a" "To4 (raw (a_IP a)) = Some x"
  shows "ResolveUDPAddr resolver (UDPAddr_String (Some a))
     = Some \<lparr>a_IP = Some (v4InV6Prefix @ x), a_Port = a_Port a, a_Zone = []\<rparr>"
proof -
  have c: "\<forall>c\<in>set (ip4_string x). c \<noteq> 58" using ip4_no_colon [of x] by blast
  then have "takeWhile (\<lambda>c. c \<noteq> 58) (ip4_string x @ 58 # t) = ip4_string x"
    "dropWhile (\<lambda>c. c \<noteq> 58) (ip4_string x @ 58 # t) = 58 # t" for t
    by (simp_all add: takeWhile_append2 dropWhile_append2)
  then show ?thesis
    using assms To4_length [OF assms(2)]
    by (simp add: ResolveUDPAddr_def UDPAddr_String_v4 v4_addr_def parse_port_dec)
qed

lemma Resolve_v4_equal:
  assumes "v4_addr a"
  shows "\<exists>b. ResolveUDPAddr resolver (UDPAddr_String (Some a)) = Some b
     \<and> addrEqual (Some a) (Some b)"
proof -
  obtain x where x: "To4 (raw (a_IP a)) = Some x" using assms by (auto simp: v4_addr_def)
  have "addrEqual (Some a) (Some \<lparr>a_IP = Some (v4InV6Prefix @ x), a_Port = a_Port a, a_Zone = []\<rparr>)"
    using assms To4_length [OF x] IP_Equal_To4 [OF x To4_mapped]
    by (simp add: addrEqual_def v4_addr_def)
  then show ?thesis using Resolve_v4 [OF assms x] by blast
qed

lemma length_ip4_string: "length x = 4 \<Longrightarrow> 7 \<le> length (ip4_string x) \<and> length (ip4_string x) \<le> 15"
proof -
  assume "length x = 4"
  then obtain a b c d where x: "x = [a, b, c, d]"
    by (auto simp: length_Suc_conv numeral_eq_Suc)
  have l: "1 \<le> length (dec (unat z)) \<and> length (dec (unat z)) \<le> 3" for z :: byte
  proof -
    have "unat z < 10 ^ 3" using unat8_less [of z] by simp
    from dec_length [OF this] dec_nonempty [of "unat z"] show ?thesis
      by (simp add: Suc_le_eq del: dec_nonempty)
  qed
  show ?thesis using l [of a] l [of b] l [of c] l [of d] by (simp add: x ip4_string_4)
qed

lemma length_UDPAddr_String_v4:
  assumes "v4_addr a"
  shows "9 \<le> length (UDPAddr_String (Some a)) \<and> length (UDPAddr_String (Some a)) \<le> 21"
proof -
  obtain x where x: "To4 (raw (a_IP a)) = Some x" using assms by (auto simp: v4_addr_def)
  have "nat (a_Port a) < 10 ^ 5" using assms by (simp add: v4_addr_def nat_less_iff)
  from dec_length [OF this] dec_nonempty [of "nat (a_Port a)"]
  have "1 \<le> length (dec (nat (a_Port a))) \<and> length (dec (nat (a_Port a))) \<le> 5"
    by (simp add: Suc_le_eq del: dec_nonempty)
  then show ?thesis
    using UDPAddr_String_v4 [OF assms x] length_ip4_string [OF To4_length [OF x]] by simp
qed

section \<open>Keys of addresses\<close>

text \<open>Equal endpoints have equal keys and, without a zone, equal texts.\<close>

lemma cloneAddr_equal [simp]: "addrEqual (cloneAddr oa) ob = addrEqual oa ob"
  "addrEqual ob (cloneAddr oa) = addrEqual ob oa"
  by (cases oa; cases ob; simp add: cloneAddr_def addrEqual_def cloneIP_def)+

lemma ipKey_v4: "To4 (raw ip) = Some x \<Longrightarrow> ipKey ip = ip4_string x"
  by (simp add: ipKey_def IP_String_v4 To4_length To4_id)

lemma ipKey_v4_inj:
  "To4 (raw ip) = Some x \<Longrightarrow> To4 (raw jp) = Some y \<Longrightarrow> ipKey ip = ipKey jp \<longleftrightarrow> x = y"
  using ip4_string_inj To4_length by (auto simp: ipKey_v4)

lemma addrKey_v4_iff:
  assumes "v4_addr a" "v4_addr b"
  shows "addrKey (Some a) = addrKey (Some b) \<longleftrightarrow> addrEqual (Some a) (Some b)"
proof -
  obtain x y where xy: "To4 (raw (a_IP a)) = Some x" "To4 (raw (a_IP b)) = Some y"
    using assms by (auto simp: v4_addr_def)
  have k: "addrKey (Some a) = UDPAddr_String (Some a)" "addrKey (Some b) = UDPAddr_String (Some b)"
    using assms xy
    by (simp_all add: addrKey_def ipKey_v4 UDPAddr_String_v4 JoinHostPort_def ip4_no_colon
        Itoa_def v4_addr_def)
  have "UDPAddr_String (Some a) = UDPAddr_String (Some b) \<longleftrightarrow> x = y \<and> a_Port a = a_Port b"
  proof
    assume "UDPAddr_String (Some a) = UDPAddr_String (Some b)"
    then have "ResolveUDPAddr (\<lambda>_. None) (UDPAddr_String (Some a))
        = ResolveUDPAddr (\<lambda>_. None) (UDPAddr_String (Some b))" by simp
    then show "x = y \<and> a_Port a = a_Port b"
      using Resolve_v4 [OF assms(1) xy(1)] Resolve_v4 [OF assms(2) xy(2)] by simp
  qed (simp add: UDPAddr_String_v4 [OF assms(1) xy(1)] UDPAddr_String_v4 [OF assms(2) xy(2)])
  then show ?thesis
    using assms xy by (auto simp: k addrEqual_def IP_Equal_To4 v4_addr_def)
qed

text \<open>The text of an address is read back to an address with that text.\<close>

lemma Resolve_text:
  assumes "v4_addr a"
  shows "\<exists>b. ResolveUDPAddr resolver (UDPAddr_String (Some a)) = Some b \<and> addrEqual (Some a) (Some b)
     \<and> UDPAddr_String (Some b) = UDPAddr_String (Some a)"
proof -
  obtain x where x: "To4 (raw (a_IP a)) = Some x" using assms by (auto simp: v4_addr_def)
  let ?b = "\<lparr>a_IP = Some (v4InV6Prefix @ x), a_Port = a_Port a, a_Zone = []\<rparr>"
  obtain b where b: "ResolveUDPAddr resolver (UDPAddr_String (Some a)) = Some b" "addrEqual (Some a) (Some b)"
    using Resolve_v4_equal [OF assms] by blast
  then have "b = ?b" using Resolve_v4 [OF assms x, of resolver] by simp
  moreover have "v4_addr ?b" "To4 (raw (a_IP ?b)) = Some x"
    using assms To4_length [OF x] by (simp_all add: v4_addr_def)
  ultimately show ?thesis using b UDPAddr_String_v4 [OF assms x] UDPAddr_String_v4 [of ?b x] by auto
qed

end
