(* ===== verification/Relay.thy ===== *)
theory Relay
  imports Netaddr
begin

text \<open>
  The relay server, \<^verbatim>\<open>internal/relay/relay.go\<close>: its packet codec, the pins that bind a peer name
  to the first endpoint that claims it, the windowed rate budgets and the handler of one
  datagram. A handler takes the instant \<^verbatim>\<open>time.Now()\<close> gives and whether the socket write
  succeeds, and returns the datagrams it wrote. Budgets are Go ints; amounts are datagram sizes
  and caps are configured, far from their range, so they are integers here.
\<close>

section \<open>The packet codec\<close>

definition Magic :: byte where "Magic = 0x52"
definition MaxNameLen :: nat where "MaxNameLen = 64"
definition MaxHeaderLen :: nat where "MaxHeaderLen = 1 + 2 + MaxNameLen + 2 + MaxNameLen"

datatype relay_error =
    NameEmpty
  | NameLength nat
  | ErrEmptyName
  | ErrNameTooLong nat
  | ErrShortPacket
  | ErrBadMagic byte
  | ErrTruncated gostring

definition validateName :: "gostring \<Rightarrow> relay_error option" where
  "validateName i = (if i = [] then Some NameEmpty
     else if length i > MaxNameLen then Some (NameLength (length i)) else None)"

definition WrapPacket :: "gostring \<Rightarrow> gostring \<Rightarrow> bytes \<Rightarrow> relay_error + bytes" where
  "WrapPacket srcID dstID frame =
     (case validateName srcID of Some e \<Rightarrow> Inl e
      | None \<Rightarrow> (case validateName dstID of Some e \<Rightarrow> Inl e
        | None \<Rightarrow> Inr ([Magic] @ put16 (of_nat (length srcID)) @ srcID
                     @ put16 (of_nat (length dstID)) @ dstID @ frame)))"

definition ParsePacket :: "bytes \<Rightarrow> relay_error + gostring \<times> gostring \<times> bytes" where
  "ParsePacket pkt =
     (if length pkt < 1 + 2 + 1 + 2 + 1 then Inl ErrShortPacket
      else if pkt ! 0 \<noteq> Magic then Inl (ErrBadMagic (pkt ! 0))
      else let p = drop 1 pkt;
               srcLen = unat (get16 (p ! 0) (p ! 1));
               p = drop 2 p
      in if srcLen = 0 then Inl ErrEmptyName
         else if srcLen > MaxNameLen then Inl (ErrNameTooLong srcLen)
         else if length p < srcLen + 2 then Inl (ErrTruncated (lit ''source name''))
         else let srcID = take srcLen p;
                  p = drop srcLen p;
                  dstLen = unat (get16 (p ! 0) (p ! 1));
                  p = drop 2 p
         in if dstLen = 0 then Inl ErrEmptyName
            else if dstLen > MaxNameLen then Inl (ErrNameTooLong dstLen)
            else if length p < dstLen then Inl (ErrTruncated (lit ''destination name''))
            else Inr (srcID, take dstLen p, drop dstLen p))"

section \<open>The server's state\<close>

record relay_config =
  rc_PinGrace :: duration
  rc_MaxPPS :: int
  rc_MaxBytesPS :: int
  rc_NameQuotaBytes :: int
  rc_GlobalMaxPPS :: int
  rc_GlobalMaxBytesPS :: int

definition fillDefaults :: "relay_config \<Rightarrow> relay_config" where
  "fillDefaults c =
     \<lparr>rc_PinGrace = (if rc_PinGrace c = 0 then 30 * second else rc_PinGrace c),
      rc_MaxPPS = (if rc_MaxPPS c = 0 then 300 else rc_MaxPPS c),
      rc_MaxBytesPS = (if rc_MaxBytesPS c = 0 then 128 * 2 ^ 10 else rc_MaxBytesPS c),
      rc_NameQuotaBytes = (if rc_NameQuotaBytes c = 0 then 256 * 2 ^ 10 else rc_NameQuotaBytes c),
      rc_GlobalMaxPPS = (if rc_GlobalMaxPPS c = 0 then 5000 else rc_GlobalMaxPPS c),
      rc_GlobalMaxBytesPS =
        (if rc_GlobalMaxBytesPS c = 0 then 8 * 2 ^ 20 else rc_GlobalMaxBytesPS c)\<rparr>"

record pin =
  pin_addr :: "UDPAddr option"
  pin_lastSeen :: gotime

record counter =
  ct_start :: gotime
  ct_count :: int

record relay_stats =
  rs_Wrapped :: u64
  rs_Forwarded :: u64
  rs_Dropped :: u64
  rs_PinnedDropped :: u64
  rs_RateLimited :: u64

record relay_server =
  r_cfg :: relay_config
  r_pins :: "(gostring, pin) gomap"
  r_srcRate :: "(gostring, counter) gomap"
  r_srcBytes :: "(gostring, counter) gomap"
  r_nameBytes :: "(gostring, counter) gomap"
  r_globalRate :: counter
  r_globalBytes :: counter
  r_lastSweep :: gotime
  r_stats :: relay_stats

text \<open>\<^verbatim>\<open>New\<close>, once the socket is bound.\<close>

definition newRelay :: "relay_config \<Rightarrow> relay_server" where
  "newRelay cfg =
     \<lparr>r_cfg = fillDefaults cfg, r_pins = [], r_srcRate = [], r_srcBytes = [], r_nameBytes = [],
      r_globalRate = \<lparr>ct_start = 0, ct_count = 0\<rparr>, r_globalBytes = \<lparr>ct_start = 0, ct_count = 0\<rparr>,
      r_lastSweep = 0,
      r_stats = \<lparr>rs_Wrapped = 0, rs_Forwarded = 0, rs_Dropped = 0, rs_PinnedDropped = 0,
                 rs_RateLimited = 0\<rparr>\<rparr>"

definition incForwarded :: "relay_server \<Rightarrow> relay_server" where
  "incForwarded s = s\<lparr>r_stats := (r_stats s)\<lparr>rs_Forwarded := rs_Forwarded (r_stats s) + 1\<rparr>\<rparr>"

definition incDropped :: "relay_server \<Rightarrow> relay_server" where
  "incDropped s = s\<lparr>r_stats := (r_stats s)\<lparr>rs_Dropped := rs_Dropped (r_stats s) + 1\<rparr>\<rparr>"

definition incPinnedDropped :: "relay_server \<Rightarrow> relay_server" where
  "incPinnedDropped s =
     s\<lparr>r_stats := (r_stats s)\<lparr>rs_PinnedDropped := rs_PinnedDropped (r_stats s) + 1\<rparr>\<rparr>"

definition incRateLimited :: "relay_server \<Rightarrow> relay_server" where
  "incRateLimited s =
     s\<lparr>r_stats := (r_stats s)\<lparr>rs_RateLimited := rs_RateLimited (r_stats s) + 1\<rparr>\<rparr>"

definition incWrapped :: "relay_server \<Rightarrow> relay_server" where
  "incWrapped s = s\<lparr>r_stats := (r_stats s)\<lparr>rs_Wrapped := rs_Wrapped (r_stats s) + 1\<rparr>\<rparr>"

section \<open>Budgets\<close>

definition take_budget ::
    "(gostring, counter) gomap \<Rightarrow> gostring \<Rightarrow> int \<Rightarrow> int \<Rightarrow> gotime
     \<Rightarrow> bool \<times> (gostring, counter) gomap" where
  "take_budget m key amount cap now =
     (if cap \<le> 0 then (True, m)
      else (case map_of m key of
              None \<Rightarrow> (amount \<le> cap,
                       AList.update key \<lparr>ct_start = now, ct_count = min amount cap\<rparr> m)
            | Some c \<Rightarrow>
                if time_sub now (ct_start c) \<ge> second
                then (amount \<le> cap,
                      AList.update key \<lparr>ct_start = now, ct_count = min amount cap\<rparr> m)
                else if ct_count c + amount > cap then (False, m)
                else (True, AList.update key (c\<lparr>ct_count := ct_count c + amount\<rparr>) m)))"

definition takeGlobal :: "counter \<Rightarrow> int \<Rightarrow> int \<Rightarrow> gotime \<Rightarrow> bool \<times> counter" where
  "takeGlobal c amount cap now =
     (if cap \<le> 0 then (True, c)
      else if time_sub now (ct_start c) \<ge> second
      then (amount \<le> cap, \<lparr>ct_start = now, ct_count = min amount cap\<rparr>)
      else if ct_count c + amount > cap then (False, c)
      else (True, c\<lparr>ct_count := ct_count c + amount\<rparr>))"

definition maybeSweep :: "relay_server \<Rightarrow> gotime \<Rightarrow> relay_server" where
  "maybeSweep s now =
     (if length (r_srcRate s) + length (r_srcBytes s) + length (r_nameBytes s) + length (r_pins s)
           \<le> 4096 then s
      else if time_sub now (r_lastSweep s) < second then s
      else s\<lparr>r_lastSweep := now,
             r_srcRate := retain (\<lambda>k c. \<not> time_sub now (ct_start c) > 2 * second) (r_srcRate s),
             r_srcBytes := retain (\<lambda>k c. \<not> time_sub now (ct_start c) > 2 * second) (r_srcBytes s),
             r_nameBytes := retain (\<lambda>k c. \<not> time_sub now (ct_start c) > 2 * second) (r_nameBytes s),
             r_pins := retain (\<lambda>k p. \<not> time_sub now (pin_lastSeen p) > 2 * rc_PinGrace (r_cfg s))
                         (r_pins s)\<rparr>)"

section \<open>The handler\<close>

text \<open>The global budgets: the byte budget is not touched when the datagram budget refuses.\<close>

definition takeGlobals :: "relay_server \<Rightarrow> nat \<Rightarrow> gotime \<Rightarrow> bool \<times> relay_server" where
  "takeGlobals s n now =
     (case takeGlobal (r_globalRate s) 1 (rc_GlobalMaxPPS (r_cfg s)) now of
        (ok, c) \<Rightarrow>
          let s = s\<lparr>r_globalRate := c\<rparr> in
          if \<not> ok then (False, s)
          else (case takeGlobal (r_globalBytes s) (int n) (rc_GlobalMaxBytesPS (r_cfg s)) now of
                  (ok', c') \<Rightarrow> (ok', s\<lparr>r_globalBytes := c'\<rparr>)))"

text \<open>The pin of the sender's name: refreshed, rebound, refused (\<open>None\<close>) or created.\<close>

definition pinSender ::
    "relay_server \<Rightarrow> gostring \<Rightarrow> UDPAddr option \<Rightarrow> gotime \<Rightarrow> relay_server option" where
  "pinSender s srcID addr now =
     (case map_of (r_pins s) srcID of
        Some p \<Rightarrow>
          if addrEqual (pin_addr p) addr
          then Some (s\<lparr>r_pins := AList.update srcID (p\<lparr>pin_lastSeen := now\<rparr>) (r_pins s)\<rparr>)
          else if time_sub now (pin_lastSeen p) > rc_PinGrace (r_cfg s)
          then Some (s\<lparr>r_pins :=
                 AList.update srcID \<lparr>pin_addr = addr, pin_lastSeen = now\<rparr> (r_pins s)\<rparr>)
          else None
      | None \<Rightarrow>
          Some (s\<lparr>r_pins := AList.update srcID \<lparr>pin_addr = addr, pin_lastSeen = now\<rparr> (r_pins s)\<rparr>))"

definition takeSource :: "relay_server \<Rightarrow> gostring \<Rightarrow> nat \<Rightarrow> gotime \<Rightarrow> bool \<times> relay_server" where
  "takeSource s srcKey n now =
     (case take_budget (r_srcRate s) srcKey 1 (rc_MaxPPS (r_cfg s)) now of
        (ok, m) \<Rightarrow>
          let s = s\<lparr>r_srcRate := m\<rparr> in
          if \<not> ok then (False, s)
          else (case take_budget (r_srcBytes s) srcKey (int n) (rc_MaxBytesPS (r_cfg s)) now of
                  (ok', m') \<Rightarrow> (ok', s\<lparr>r_srcBytes := m'\<rparr>)))"

text \<open>
  The whole handler. The result lists the datagram handed to \<^verbatim>\<open>WriteToUDP\<close> with its
  destination, whether or not the write succeeds.
\<close>

definition handlePacket ::
    "relay_server \<Rightarrow> bytes \<Rightarrow> UDPAddr option \<Rightarrow> gotime \<Rightarrow> bool
     \<Rightarrow> relay_server \<times> (bytes \<times> UDPAddr option) list" where
  "handlePacket s pkt src now write_ok =
     (case ParsePacket pkt of
        Inl e \<Rightarrow> (incDropped s, [])
      | Inr (srcID, dstID, frame) \<Rightarrow>
          let addr = cloneAddr src; s = maybeSweep s now in
          (case takeGlobals s (length pkt) now of
             (False, s) \<Rightarrow> (incRateLimited s, [])
           | (True, s) \<Rightarrow>
               (case pinSender s srcID addr now of
                  None \<Rightarrow> (incPinnedDropped s, [])
                | Some s \<Rightarrow>
                    (case takeSource s (UDPAddr_String addr) (length pkt) now of
                       (False, s) \<Rightarrow> (incRateLimited s, [])
                     | (True, s) \<Rightarrow>
                         let s = incWrapped s in
                         (case map_of (r_pins s) dstID of
                            None \<Rightarrow> (incDropped s, [])
                          | Some dst \<Rightarrow>
                              (case take_budget (r_nameBytes s) dstID (int (length frame))
                                      (rc_NameQuotaBytes (r_cfg s)) now of
                                 (False, m) \<Rightarrow> (incRateLimited (s\<lparr>r_nameBytes := m\<rparr>), [])
                               | (True, m) \<Rightarrow>
                                   let s = s\<lparr>r_nameBytes := m\<rparr>; dstAddr = cloneAddr (pin_addr dst) in
                                   (case WrapPacket srcID dstID frame of
                                      Inl e \<Rightarrow> (incDropped s, [])
                                    | Inr fwd \<Rightarrow>
                                        if write_ok then (incForwarded s, [(fwd, dstAddr)])
                                        else (incDropped s, [(fwd, dstAddr)]))))))))"

text \<open>The serving loop: one handler per datagram, in arrival order.\<close>

type_synonym arrival = "bytes \<times> UDPAddr option \<times> gotime \<times> bool"

fun relay_run ::
    "relay_server \<Rightarrow> arrival list \<Rightarrow> relay_server \<times> (bytes \<times> UDPAddr option) list" where
  "relay_run s [] = (s, [])"
| "relay_run s ((pkt, src, now, ok) # xs) =
     (let (s', out) = handlePacket s pkt src now ok; (s'', out') = relay_run s' xs
      in (s'', out @ out'))"

section \<open>The codec is exact\<close>

lemma ParsePacket_Wrap:
  assumes "WrapPacket a b f = Inr pkt"
  shows "ParsePacket pkt = Inr (a, b, f)"
proof -
  define q where "q = put16 (of_nat (length b)) @ b @ f"
  define p where "p = put16 (of_nat (length a)) @ a @ q"
  have pkt: "pkt = Magic # p" and n: "a \<noteq> []" "length a \<le> 64" "b \<noteq> []" "length b \<le> 64"
    using assms by (auto simp: WrapPacket_def validateName_def p_def q_def MaxNameLen_def
        split: if_splits)
  have q: "unat (get16 (q ! 0) (q ! Suc 0)) = length b" "drop 2 q = b @ f" "length q = 2 + length b + length f"
    using field_front [OF _ q_def] n by auto
  have p: "unat (get16 (p ! 0) (p ! Suc 0)) = length a" "drop 2 p = a @ q" "length p = 2 + length a + length q"
    using field_front [OF _ p_def] n by auto
  have "0 < length a" "0 < length b" using n by auto
  then have "\<not> length a + (length b + length f) < Suc (Suc 0)" by linarith
  then show ?thesis using n by (simp add: ParsePacket_def Let_def pkt p q MaxNameLen_def)
qed

lemma ParsePacket_Inr:
  assumes "ParsePacket pkt = Inr (a, b, f)"
  shows "WrapPacket a b f = Inr pkt"
proof -
  define p where "p = drop 1 pkt"
  define n where "n = unat (get16 (p ! 0) (p ! 1))"
  define q where "q = drop n (drop 2 p)"
  define m where "m = unat (get16 (q ! 0) (q ! 1))"
  have len: "7 \<le> length pkt" "pkt ! 0 = Magic" and n: "0 < n" "n \<le> MaxNameLen" "n + 2 \<le> length p - 2"
    and m: "0 < m" "m \<le> MaxNameLen" "m \<le> length q - 2"
    and abf: "a = take n (drop 2 p)" "b = take m (drop 2 q)" "f = drop m (drop 2 q)"
    using assms by (auto simp: ParsePacket_def Let_def p_def n_def q_def m_def split: if_splits)
  have q2: "2 \<le> length q" using n by (simp add: q_def)
  have "q = put16 (of_nat m) @ b @ f"
    unfolding abf by (rule field_split [OF q2 m_def m(3)])
  moreover have "p = put16 (of_nat n) @ a @ q"
    unfolding abf q_def by (rule field_split) (use len n n_def in \<open>auto simp: p_def\<close>)
  moreover have "pkt = Magic # p"
    using len by (cases pkt) (auto simp: p_def)
  moreover have "length a = n" "length b = m" using n m q2 by (auto simp: abf)
  ultimately show ?thesis
    using n m by (auto simp: WrapPacket_def validateName_def)
qed

lemma ParsePacket_iff: "ParsePacket pkt = Inr (a, b, f) \<longleftrightarrow> WrapPacket a b f = Inr pkt"
  using ParsePacket_Wrap ParsePacket_Inr by blast

section \<open>What the parts of the handler leave alone\<close>

lemma inc_simps [simp]:
  "r_cfg (incForwarded s) = r_cfg s" "r_cfg (incDropped s) = r_cfg s"
  "r_cfg (incPinnedDropped s) = r_cfg s" "r_cfg (incRateLimited s) = r_cfg s"
  "r_cfg (incWrapped s) = r_cfg s"
  "r_pins (incForwarded s) = r_pins s" "r_pins (incDropped s) = r_pins s"
  "r_pins (incPinnedDropped s) = r_pins s" "r_pins (incRateLimited s) = r_pins s"
  "r_pins (incWrapped s) = r_pins s"
  "r_nameBytes (incForwarded s) = r_nameBytes s" "r_nameBytes (incDropped s) = r_nameBytes s"
  "r_nameBytes (incPinnedDropped s) = r_nameBytes s" "r_nameBytes (incRateLimited s) = r_nameBytes s"
  "r_nameBytes (incWrapped s) = r_nameBytes s"
  by (simp_all add: incForwarded_def incDropped_def incPinnedDropped_def incRateLimited_def
      incWrapped_def)

lemma sweep_cfg [simp]: "r_cfg (maybeSweep s now) = r_cfg s"
  and sweep_stats [simp]: "r_stats (maybeSweep s now) = r_stats s"
  by (simp_all add: maybeSweep_def)

lemma takeGlobals_keeps:
  "takeGlobals s n now = (ok, s') \<Longrightarrow> r_cfg s' = r_cfg s \<and> r_pins s' = r_pins s
     \<and> r_nameBytes s' = r_nameBytes s \<and> r_stats s' = r_stats s"
  by (auto simp: takeGlobals_def Let_def split: prod.splits if_splits)

lemma pinSender_keeps:
  "pinSender s i a now = Some s' \<Longrightarrow> r_cfg s' = r_cfg s \<and> r_nameBytes s' = r_nameBytes s
     \<and> r_stats s' = r_stats s"
  by (auto simp: pinSender_def split: option.splits if_splits)

lemma takeSource_keeps:
  "takeSource s k n now = (ok, s') \<Longrightarrow> r_cfg s' = r_cfg s \<and> r_pins s' = r_pins s
     \<and> r_nameBytes s' = r_nameBytes s \<and> r_stats s' = r_stats s"
  by (auto simp: takeSource_def Let_def split: prod.splits if_splits)

text \<open>
  The ways a datagram can end. \<open>s1\<close> is the server after the sweep, the global budgets, the pin
  and the source budgets, as far as the handler got.
\<close>

lemma handlePacket_cases [consumes 1, case_names malformed global pinned source unknown quota sent]:
  assumes h: "handlePacket s pkt src now ok = (s', out)"
  obtains e where "ParsePacket pkt = Inl e" "s' = incDropped s" "out = []"
  | a b f s1 where "ParsePacket pkt = Inr (a, b, f)"
      "takeGlobals (maybeSweep s now) (length pkt) now = (False, s1)"
      "s' = incRateLimited s1" "out = []"
  | a b f s1 where "ParsePacket pkt = Inr (a, b, f)"
      "takeGlobals (maybeSweep s now) (length pkt) now = (True, s1)"
      "pinSender s1 a (cloneAddr src) now = None" "s' = incPinnedDropped s1" "out = []"
  | a b f s1 s2 s3 where "ParsePacket pkt = Inr (a, b, f)"
      "takeGlobals (maybeSweep s now) (length pkt) now = (True, s1)"
      "pinSender s1 a (cloneAddr src) now = Some s2"
      "takeSource s2 (UDPAddr_String (cloneAddr src)) (length pkt) now = (False, s3)"
      "s' = incRateLimited s3" "out = []"
  | a b f s1 s2 s3 where "ParsePacket pkt = Inr (a, b, f)"
      "takeGlobals (maybeSweep s now) (length pkt) now = (True, s1)"
      "pinSender s1 a (cloneAddr src) now = Some s2"
      "takeSource s2 (UDPAddr_String (cloneAddr src)) (length pkt) now = (True, s3)"
      "map_of (r_pins s3) b = None" "s' = incDropped (incWrapped s3)" "out = []"
  | a b f s1 s2 s3 p m where "ParsePacket pkt = Inr (a, b, f)"
      "takeGlobals (maybeSweep s now) (length pkt) now = (True, s1)"
      "pinSender s1 a (cloneAddr src) now = Some s2"
      "takeSource s2 (UDPAddr_String (cloneAddr src)) (length pkt) now = (True, s3)"
      "map_of (r_pins s3) b = Some p"
      "take_budget (r_nameBytes s3) b (int (length f)) (rc_NameQuotaBytes (r_cfg s3)) now = (False, m)"
      "s' = incRateLimited ((incWrapped s3)\<lparr>r_nameBytes := m\<rparr>)" "out = []"
  | a b f s1 s2 s3 p m where "ParsePacket pkt = Inr (a, b, f)"
      "takeGlobals (maybeSweep s now) (length pkt) now = (True, s1)"
      "pinSender s1 a (cloneAddr src) now = Some s2"
      "takeSource s2 (UDPAddr_String (cloneAddr src)) (length pkt) now = (True, s3)"
      "map_of (r_pins s3) b = Some p"
      "take_budget (r_nameBytes s3) b (int (length f)) (rc_NameQuotaBytes (r_cfg s3)) now = (True, m)"
      "s' = (if ok then incForwarded else incDropped) ((incWrapped s3)\<lparr>r_nameBytes := m\<rparr>)"
      "out = [(pkt, cloneAddr (pin_addr p))]"
proof (cases "ParsePacket pkt")
  case (Inl e)
  then show thesis using h that(1) by (simp add: handlePacket_def)
next
  case (Inr x)
  obtain a b f where x: "ParsePacket pkt = Inr (a, b, f)" using Inr by (cases x) auto
  then have w: "WrapPacket a b f = Inr pkt" by (simp add: ParsePacket_iff)
  obtain g s1 where g: "takeGlobals (maybeSweep s now) (length pkt) now = (g, s1)" by force
  show thesis
  proof (cases g)
    case False
    then show thesis using h that(2) x g by (simp add: handlePacket_def Let_def)
  next
    case g1: True
    show thesis
    proof (cases "pinSender s1 a (cloneAddr src) now")
      case None
      then show thesis using h that(3) x g g1 by (simp add: handlePacket_def Let_def)
    next
      case p: (Some s2)
      obtain t s3 where t: "takeSource s2 (UDPAddr_String (cloneAddr src)) (length pkt) now = (t, s3)"
        by force
      show thesis
      proof (cases t)
        case False
        then show thesis using h that(4) x g g1 p t by (simp add: handlePacket_def Let_def)
      next
        case t1: True
        show thesis
        proof (cases "map_of (r_pins s3) b")
          case None
          then show thesis using h that(5) x g g1 p t t1 by (simp add: handlePacket_def Let_def)
        next
          case d: (Some q)
          obtain u m where u: "take_budget (r_nameBytes s3) b (int (length f))
              (rc_NameQuotaBytes (r_cfg s3)) now = (u, m)" by force
          show thesis
            using h that(6,7) x g g1 p t t1 d u w
            by (cases u) (simp_all add: handlePacket_def Let_def split: if_splits)
        qed
      qed
    qed
  qed
qed

section \<open>Budgets meet their contract\<close>

text \<open>The budget of one key, seen through \<open>take_budget\<close> on a map that holds only that key.\<close>

definition key_draw :: "int \<Rightarrow> int \<Rightarrow> gotime \<Rightarrow> counter option \<Rightarrow> bool \<times> counter option" where
  "key_draw cap a t oc =
     (case take_budget (case oc of None \<Rightarrow> [] | Some c \<Rightarrow> [([], c)]) [] a cap t of
        (b, m) \<Rightarrow> (b, map_of m []))"

definition key_prune :: "gotime \<Rightarrow> counter option \<Rightarrow> counter option" where
  "key_prune t oc = (case oc of None \<Rightarrow> None
     | Some c \<Rightarrow> if time_sub t (ct_start c) > 2 * second then None else Some c)"

definition key_used :: "counter option \<Rightarrow> int" where
  "key_used oc = (case oc of None \<Rightarrow> 0 | Some c \<Rightarrow> ct_count c)"

definition key_live :: "counter option \<Rightarrow> gotime \<Rightarrow> bool" where
  "key_live oc t = (case oc of None \<Rightarrow> False | Some c \<Rightarrow> t - ct_start c < second)"

lemma sub_second [simp]: "second \<le> time_sub t u \<longleftrightarrow> second \<le> t - u"
  by (rule time_sub_ge) (simp_all add: max_duration_def)

lemma sub_two_seconds [simp]: "2000000000 < time_sub t u \<longleftrightarrow> 2000000000 < t - u"
  by (rule time_sub_gt) (simp_all add: max_duration_def)

lemma take_budget_key:
  assumes "take_budget m key a cap t = (b, m')"
  shows "key_draw cap a t (map_of m key) = (b, map_of m' key)"
    and "k \<noteq> key \<Longrightarrow> map_of m' k = map_of m k"
    and "gm_ok m \<Longrightarrow> gm_ok m'"
  using assms by (auto simp: take_budget_def key_draw_def split: option.splits if_splits)

lemma key_budget: "0 < cap \<Longrightarrow> rate_budget (key_draw cap) key_prune key_used key_live cap"
proof (unfold_locales, goal_cases)
  case (1 c t a b c')
  then show ?case
    by (auto simp: key_live_def key_used_def key_draw_def take_budget_def
        split: option.splits if_splits)
next
  case (2 c t a b c')
  then show ?case
    by (auto simp: key_live_def key_used_def key_draw_def take_budget_def fun_eq_iff
        split: option.splits if_splits)
next
  case (3 c t)
  then show ?case by (auto simp: key_live_def key_prune_def split: option.splits)
next
  case (4 t c)
  then show ?case by (auto simp: key_live_def key_prune_def fun_eq_iff split: option.splits)
qed

lemma global_budget:
  "0 < cap \<Longrightarrow> rate_budget (\<lambda>a t c. takeGlobal c a cap t) (\<lambda>t c. c) ct_count
     (\<lambda>c t. t - ct_start c < second) cap"
  by unfold_locales (auto simp: takeGlobal_def fun_eq_iff split: if_splits)

text \<open>Every positive cap is \<open>int (Suc n)\<close> for some \<open>n\<close>.\<close>

interpretation key_budget: rate_budget "key_draw (int (Suc n))" key_prune key_used key_live
    "int (Suc n)" for n
  by (rule key_budget) simp

interpretation global_budget: rate_budget "\<lambda>a t c. takeGlobal c a (int (Suc n)) t" "\<lambda>t c. c"
    ct_count "\<lambda>c t. t - ct_start c < second" "int (Suc n)" for n
  by (rule global_budget) simp

lemma pos_int_Suc: "0 < cap \<Longrightarrow> \<exists>n. cap = int (Suc n)" for cap :: int
  by (metis gr0_implies_Suc zero_less_imp_eq_int of_nat_0_less_iff)

lemma key_granted:
  "0 < cap \<Longrightarrow> 0 \<le> key_used c \<Longrightarrow> amounts_ok es \<Longrightarrow>
   \<forall>t\<in>fst ` set es. from \<le> t \<and> t < from + second \<Longrightarrow>
   fst (granted (key_draw cap) key_prune c es) \<le> 2 * cap"
  using pos_int_Suc [of cap] key_budget.granted_bound by (metis of_nat_0_le_iff)

lemma global_granted:
  "0 < cap \<Longrightarrow> 0 \<le> ct_count c \<Longrightarrow> amounts_ok es \<Longrightarrow>
   \<forall>t\<in>fst ` set es. from \<le> t \<and> t < from + second \<Longrightarrow>
   fst (granted (\<lambda>a t c. takeGlobal c a cap t) (\<lambda>t c. c) c es) \<le> 2 * cap"
  using pos_int_Suc [of cap] global_budget.granted_bound by (metis of_nat_0_le_iff)

section \<open>Invariants of the server\<close>

definition relay_inv :: "relay_server \<Rightarrow> bool" where
  "relay_inv s \<longleftrightarrow> gm_ok (r_pins s) \<and> gm_ok (r_nameBytes s)
     \<and> (\<forall>k c. map_of (r_nameBytes s) k = Some c \<longrightarrow> 0 \<le> ct_count c)"

lemma newRelay_inv: "relay_inv (newRelay cfg)"
  by (simp add: relay_inv_def newRelay_def)

text \<open>The sweep: entries that are still of use survive it.\<close>

lemma sweep_nameBytes:
  "gm_ok (r_nameBytes s) \<Longrightarrow>
   map_of (r_nameBytes (maybeSweep s now)) k = map_of (r_nameBytes s) k \<or>
   map_of (r_nameBytes (maybeSweep s now)) k = key_prune now (map_of (r_nameBytes s) k)"
  by (auto simp: maybeSweep_def retain_lookup key_prune_def split: option.splits)

lemma sweep_pins:
  "gm_ok (r_pins s) \<Longrightarrow> map_of (r_pins s) k = Some p \<Longrightarrow>
   \<not> time_sub now (pin_lastSeen p) > 2 * rc_PinGrace (r_cfg s) \<Longrightarrow>
   map_of (r_pins (maybeSweep s now)) k = Some p"
  by (simp add: maybeSweep_def retain_lookup del: map_of_eq_Some_iff)

lemma sweep_inv: "relay_inv s \<Longrightarrow> relay_inv (maybeSweep s now)"
  by (auto simp: relay_inv_def maybeSweep_def retain_lookup simp del: map_of_eq_Some_iff
      split: option.splits if_splits)

lemma take_budget_nonneg:
  "take_budget m k a cap t = (b, m') \<Longrightarrow> 0 \<le> a \<Longrightarrow> (\<forall>k c. map_of m k = Some c \<longrightarrow> 0 \<le> ct_count c) \<Longrightarrow>
   \<forall>k c. map_of m' k = Some c \<longrightarrow> 0 \<le> ct_count c"
  by (auto simp: take_budget_def split: option.splits if_splits)

lemma inc_inv [simp]:
  "relay_inv (incForwarded s) = relay_inv s" "relay_inv (incDropped s) = relay_inv s"
  "relay_inv (incPinnedDropped s) = relay_inv s" "relay_inv (incRateLimited s) = relay_inv s"
  "relay_inv (incWrapped s) = relay_inv s"
  by (simp_all add: relay_inv_def)

lemma globals_inv:
  "takeGlobals (maybeSweep s now) n t = (g, s1) \<Longrightarrow> relay_inv s \<Longrightarrow>
   relay_inv s1 \<and> r_cfg s1 = r_cfg s"
  using takeGlobals_keeps [of "maybeSweep s now" n t g s1] sweep_inv [of s now]
  by (simp add: relay_inv_def)

lemma pinSender_inv:
  "pinSender s i a now = Some s' \<Longrightarrow> relay_inv s \<Longrightarrow> relay_inv s' \<and> r_cfg s' = r_cfg s"
  by (auto simp: pinSender_def relay_inv_def split: option.splits if_splits)

lemma source_inv:
  "takeSource s k n now = (b, s') \<Longrightarrow> relay_inv s \<Longrightarrow> relay_inv s' \<and> r_cfg s' = r_cfg s"
  using takeSource_keeps [of s k n now b s'] by (simp add: relay_inv_def)

lemmas steps_inv = globals_inv pinSender_inv source_inv

lemma quota_inv:
  assumes "take_budget (r_nameBytes s) k a cap t = (b, m)" "0 \<le> a" "relay_inv s"
    and "r_pins s' = r_pins s" "r_nameBytes s' = m"
  shows "relay_inv s'"
  using assms take_budget_key(3) [OF assms(1)] take_budget_nonneg [OF assms(1,2)]
  by (simp add: relay_inv_def)

lemma handlePacket_inv:
  assumes "handlePacket s pkt src now ok = (s', out)" "relay_inv s"
  shows "relay_inv s' \<and> r_cfg s' = r_cfg s"
  using assms(1)
proof (cases rule: handlePacket_cases)
  case (quota a b f s1 s2 s3 p m)
  have "relay_inv s3 \<and> r_cfg s3 = r_cfg s" using quota(2-4) assms(2) steps_inv by metis
  then show ?thesis using quota_inv [OF quota(6)] quota(7) by simp
next
  case (sent a b f s1 s2 s3 p m)
  have "relay_inv s3 \<and> r_cfg s3 = r_cfg s" using sent(2-4) assms(2) steps_inv by metis
  then show ?thesis using quota_inv [OF sent(6)] sent(7) by simp
qed (use assms(2) steps_inv inc_inv inc_simps in metis)+

section \<open>What is forwarded to a name\<close>

definition bytes_to :: "gostring \<Rightarrow> (bytes \<times> UDPAddr option) list \<Rightarrow> int" where
  "bytes_to d out = sum_list (map (\<lambda>(dg, a). case ParsePacket dg of
       Inl e \<Rightarrow> 0 | Inr (src, dst, f) \<Rightarrow> if dst = d then int (length f) else 0) out)"

lemma bytes_to_simps [simp]:
  "bytes_to d [] = 0" "bytes_to d (out @ out') = bytes_to d out + bytes_to d out'"
  by (simp_all add: bytes_to_def)

text \<open>The budget history that one datagram adds to the quota of a name.\<close>

abbreviation quota_history :: "relay_server \<Rightarrow> gostring \<Rightarrow> budget_event list \<Rightarrow> int \<times> counter option" where
  "quota_history s d es \<equiv>
     granted (key_draw (rc_NameQuotaBytes (r_cfg s))) key_prune (map_of (r_nameBytes s) d) es"

lemma sweep_history:
  assumes "relay_inv s"
  shows "\<exists>es. (\<forall>t\<in>fst ` set es. t = now) \<and> amounts_ok es
    \<and> quota_history s d es = (0, map_of (r_nameBytes (maybeSweep s now)) d)"
proof -
  have "gm_ok (r_nameBytes s)" using assms by (simp add: relay_inv_def)
  from sweep_nameBytes [OF this, of now d] show ?thesis
  proof
    assume "map_of (r_nameBytes (maybeSweep s now)) d = map_of (r_nameBytes s) d"
    then show ?thesis by (intro exI [of _ "[]"]) simp
  next
    assume "map_of (r_nameBytes (maybeSweep s now)) d = key_prune now (map_of (r_nameBytes s) d)"
    then show ?thesis by (intro exI [of _ "[(now, None)]"]) simp
  qed
qed

lemma quota_draw_history:
  assumes "quota_history s d es = (0, map_of m d)" "r_cfg s3 = r_cfg s"
    and "take_budget m b a (rc_NameQuotaBytes (r_cfg s3)) now = (g, m')" "0 \<le> a"
    and "\<forall>t\<in>fst ` set es. t = now" "amounts_ok es"
  shows "\<exists>fs. (\<forall>t\<in>fst ` set fs. t = now) \<and> amounts_ok fs
    \<and> quota_history s d fs = (if g \<and> b = d then a else 0, map_of m' d)"
proof (cases "b = d")
  case True
  have "key_draw (rc_NameQuotaBytes (r_cfg s)) a now (map_of m d) = (g, map_of m' d)"
    using take_budget_key(1) [OF assms(3)] True assms(2) by simp
  then have "quota_history s d (es @ [(now, Some a)]) = (if g then a else 0, map_of m' d)"
    using assms(1) by (simp add: granted_append Let_def)
  then show ?thesis
    using True assms(4-6) by (intro exI [of _ "es @ [(now, Some a)]"]) auto
next
  case False
  then have "map_of m' d = map_of m d" using take_budget_key(2) [OF assms(3)] by simp
  then show ?thesis using False assms by (intro exI [of _ es]) simp
qed

lemma handlePacket_history:
  assumes "handlePacket s pkt src now ok = (s', out)" "relay_inv s"
  shows "\<exists>es. (\<forall>t\<in>fst ` set es. t = now) \<and> amounts_ok es
    \<and> quota_history s d es = (bytes_to d out, map_of (r_nameBytes s') d)"
proof -
  obtain es where es: "\<forall>t\<in>fst ` set es. t = now" "amounts_ok es"
    "quota_history s d es = (0, map_of (r_nameBytes (maybeSweep s now)) d)"
    using sweep_history [OF assms(2)] by blast
  from assms(1) show ?thesis
  proof (cases rule: handlePacket_cases)
    case (malformed e)
    then show ?thesis by (intro exI [of _ "[]"]) simp
  next
    case (global a b f s1)
    then show ?thesis using es takeGlobals_keeps [OF global(2)] by (intro exI [of _ es]) simp
  next
    case (pinned a b f s1)
    then show ?thesis using es takeGlobals_keeps [OF pinned(2)] by (intro exI [of _ es]) simp
  next
    case (source a b f s1 s2 s3)
    then show ?thesis
      using es takeGlobals_keeps [OF source(2)] pinSender_keeps [OF source(3)]
        takeSource_keeps [OF source(4)] by (intro exI [of _ es]) simp
  next
    case (unknown a b f s1 s2 s3)
    then show ?thesis
      using es takeGlobals_keeps [OF unknown(2)] pinSender_keeps [OF unknown(3)]
        takeSource_keeps [OF unknown(4)] by (intro exI [of _ es]) simp
  next
    case (quota a b f s1 s2 s3 p m)
    have "r_nameBytes s3 = r_nameBytes (maybeSweep s now)" "r_cfg s3 = r_cfg s"
      using takeGlobals_keeps [OF quota(2)] pinSender_keeps [OF quota(3)]
        takeSource_keeps [OF quota(4)] by simp_all
    then show ?thesis
      using quota_draw_history [OF es(3) _ _ _ es(1,2), where ?s3.0 = s3 and b = b
            and a = "int (length f)" and g = False and m' = m]
        quota(6-8) by simp
  next
    case (sent a b f s1 s2 s3 p m)
    have "r_nameBytes s3 = r_nameBytes (maybeSweep s now)" "r_cfg s3 = r_cfg s"
      using takeGlobals_keeps [OF sent(2)] pinSender_keeps [OF sent(3)]
        takeSource_keeps [OF sent(4)] by simp_all
    moreover have "bytes_to d out = (if b = d then int (length f) else 0)"
      using sent(1,8) by (simp add: bytes_to_def)
    ultimately show ?thesis
      using quota_draw_history [OF es(3) _ _ _ es(1,2), where ?s3.0 = s3 and b = b
            and a = "int (length f)" and g = True and m' = m]
        sent(6,7) by (cases "b = d"; cases ok) auto
  qed
qed

lemma relay_run_history:
  "relay_run s xs = (s', out) \<Longrightarrow> relay_inv s \<Longrightarrow>
   relay_inv s' \<and> r_cfg s' = r_cfg s \<and>
   (\<exists>es. fst ` set es \<subseteq> (\<lambda>(pkt, src, now, ok). now) ` set xs \<and> amounts_ok es
      \<and> quota_history s d es = (bytes_to d out, map_of (r_nameBytes s') d))"
proof (induction xs arbitrary: s out)
  case Nil
  then show ?case by (auto intro!: exI [of _ "[]"])
next
  case (Cons x xs)
  obtain pkt src now ok where x: "x = (pkt, src, now, ok)" by (cases x) auto
  obtain s1 out1 where h: "handlePacket s pkt src now ok = (s1, out1)" by force
  obtain out2 where r: "relay_run s1 xs = (s', out2)" and out: "out = out1 @ out2"
    using Cons.prems(1) h by (auto simp: x Let_def split: prod.splits)
  have s1: "relay_inv s1" "r_cfg s1 = r_cfg s" using handlePacket_inv [OF h Cons.prems(2)] by auto
  obtain es where es: "\<forall>t\<in>fst ` set es. t = now" "amounts_ok es"
    "quota_history s d es = (bytes_to d out1, map_of (r_nameBytes s1) d)"
    using handlePacket_history [OF h Cons.prems(2)] by blast
  obtain fs where fs: "fst ` set fs \<subseteq> (\<lambda>(pkt, src, now, ok). now) ` set xs" "amounts_ok fs"
    "quota_history s1 d fs = (bytes_to d out2, map_of (r_nameBytes s') d)"
    and s': "relay_inv s'" "r_cfg s' = r_cfg s1"
    using Cons.IH [OF r s1(1)] by blast
  have "quota_history s d (es @ fs) = (bytes_to d out, map_of (r_nameBytes s') d)"
    using es(3) fs(3) s1(2) by (simp add: granted_append out)
  moreover have "fst ` set (es @ fs) \<subseteq> (\<lambda>(pkt, src, now, ok). now) ` set (x # xs)"
    using es(1) fs(1) by (auto simp: x)
  ultimately show ?case using es(2) fs(2) s' s1(2) by (metis amounts_ok_simps(4))
qed

lemma relay_quota:
  assumes "relay_run s xs = (s', out)" "relay_inv s" "0 < rc_NameQuotaBytes (r_cfg s)"
    and "\<forall>(pkt, src, now, ok)\<in>set xs. from \<le> now \<and> now < from + second"
  shows "bytes_to d out \<le> 2 * rc_NameQuotaBytes (r_cfg s)"
proof -
  obtain es where es: "fst ` set es \<subseteq> (\<lambda>(pkt, src, now, ok). now) ` set xs" "amounts_ok es"
    "fst (quota_history s d es) = bytes_to d out"
    using relay_run_history [OF assms(1,2)] by (metis fst_conv)
  have "0 \<le> key_used (map_of (r_nameBytes s) d)"
    using assms(2) by (auto simp: relay_inv_def key_used_def simp del: map_of_eq_Some_iff
        split: option.splits)
  moreover have "\<forall>t\<in>fst ` set es. from \<le> t \<and> t < from + second"
    using es(1) assms(4) by fastforce
  ultimately show ?thesis using key_granted [OF assms(3) _ es(2)] es(3) by metis
qed

section \<open>Pins\<close>

lemma handlePacket_pin:
  assumes "handlePacket s pkt src now ok = (s', out)" "gm_ok (r_pins s)"
    and "map_of (r_pins s) v = Some p" and g: "rc_PinGrace (r_cfg s) = g" "0 \<le> g" "2 * g < max_duration"
    and t: "now - pin_lastSeen p \<le> g"
  shows "\<exists>p'. map_of (r_pins s') v = Some p' \<and> pin_addr p' = pin_addr p
      \<and> (pin_lastSeen p' = pin_lastSeen p \<or> pin_lastSeen p' = now)
    \<and> (\<forall>(dg, a)\<in>set out. dg = pkt
         \<and> (\<forall>b f. ParsePacket pkt = Inr (v, b, f) \<longrightarrow> addrEqual (pin_addr p) src)
         \<and> (\<forall>u f. ParsePacket pkt = Inr (u, v, f) \<longrightarrow> a = cloneAddr (pin_addr p)))"
proof -
  have ns: "\<not> time_sub now (pin_lastSeen p) > g" "\<not> time_sub now (pin_lastSeen p) > 2 * g"
    using g t by (simp_all add: time_sub_gt)
  then have sw: "map_of (r_pins (maybeSweep s now)) v = Some p"
    using sweep_pins [OF assms(2,3)] g by simp
  have pin: "\<exists>p'. map_of (r_pins s2) v = Some p' \<and> pin_addr p' = pin_addr p
      \<and> (pin_lastSeen p' = pin_lastSeen p \<or> pin_lastSeen p' = now)
      \<and> (i = v \<longrightarrow> addrEqual (pin_addr p) ad)"
    if "pinSender s1 i ad now = Some s2" "r_pins s1 = r_pins (maybeSweep s now)" "r_cfg s1 = r_cfg s"
    for i ad s1 s2
    using that sw ns g by (cases "i = v") (auto simp: pinSender_def split: option.splits if_splits)
  from assms(1) show ?thesis
  proof (cases rule: handlePacket_cases)
    case (malformed e)
    then show ?thesis using assms(3) by simp
  next
    case (global a b f s1)
    then show ?thesis using takeGlobals_keeps [OF global(2)] sw by simp
  next
    case (pinned a b f s1)
    then show ?thesis using takeGlobals_keeps [OF pinned(2)] sw by simp
  next
    case (source a b f s1 s2 s3)
    then show ?thesis
      using takeGlobals_keeps [OF source(2)] pin [OF source(3)] takeSource_keeps [OF source(4)] by auto
  next
    case (unknown a b f s1 s2 s3)
    then show ?thesis
      using takeGlobals_keeps [OF unknown(2)] pin [OF unknown(3)] takeSource_keeps [OF unknown(4)]
      by auto
  next
    case (quota a b f s1 s2 s3 q m)
    then show ?thesis
      using takeGlobals_keeps [OF quota(2)] pin [OF quota(3)] takeSource_keeps [OF quota(4)] by auto
  next
    case (sent a b f s1 s2 s3 q m)
    obtain p' where p': "map_of (r_pins s2) v = Some p'" "pin_addr p' = pin_addr p"
      "pin_lastSeen p' = pin_lastSeen p \<or> pin_lastSeen p' = now"
      "a = v \<longrightarrow> addrEqual (pin_addr p) (cloneAddr src)"
      using takeGlobals_keeps [OF sent(2)] pin [OF sent(3)] by auto
    have "r_pins s3 = r_pins s2" "r_pins s' = r_pins s2"
      using takeSource_keeps [OF sent(4)] sent(7) by auto
    then show ?thesis using p' sent(1,5,8) by auto
  qed
qed

text \<open>A relayed datagram respects the pin of a name: sent to the name it goes to the pinned
  endpoint, sent under the name it came from there.\<close>

definition pin_respected ::
    "gostring \<Rightarrow> UDPAddr option \<Rightarrow> arrival set \<Rightarrow> bytes \<times> UDPAddr option \<Rightarrow> bool" where
  "pin_respected v ad X dga =
     (case ParsePacket (fst dga) of Inl e \<Rightarrow> False
      | Inr (u, w, f) \<Rightarrow> (w = v \<longrightarrow> snd dga = cloneAddr ad)
          \<and> (u = v \<longrightarrow> (\<exists>src now ok. (fst dga, src, now, ok) \<in> X \<and> addrEqual ad src)))"

lemma pin_respected_mono: "pin_respected v ad X dga \<Longrightarrow> X \<subseteq> Y \<Longrightarrow> pin_respected v ad Y dga"
  by (fastforce simp: pin_respected_def split: sum.splits)

lemma handlePacket_respects:
  assumes "handlePacket s pkt src now ok = (s', out)" "gm_ok (r_pins s)"
    and "map_of (r_pins s) v = Some p" "rc_PinGrace (r_cfg s) = g" "0 \<le> g" "2 * g < max_duration"
    and "now - pin_lastSeen p \<le> g"
  shows "\<exists>p'. map_of (r_pins s') v = Some p' \<and> pin_addr p' = pin_addr p
      \<and> (pin_lastSeen p' = pin_lastSeen p \<or> pin_lastSeen p' = now)
      \<and> (\<forall>dga\<in>set out. pin_respected v (pin_addr p) {(pkt, src, now, ok)} dga)"
proof -
  have "\<exists>r. ParsePacket dg = Inr r" if "(dg, a) \<in> set out" for dg a
    using assms(1) that by (cases rule: handlePacket_cases) auto
  then show ?thesis
    using handlePacket_pin [OF assms] by (fastforce simp: pin_respected_def)
qed

lemma relay_run_pin:
  "relay_run s xs = (s', out) \<Longrightarrow> relay_inv s \<Longrightarrow> map_of (r_pins s) v = Some p \<Longrightarrow>
   rc_PinGrace (r_cfg s) = g \<Longrightarrow> 0 \<le> g \<Longrightarrow> 2 * g < max_duration \<Longrightarrow>
   (\<forall>(pkt, src, now, ok)\<in>set xs. t0 \<le> now \<and> now \<le> t0 + g) \<Longrightarrow>
   t0 \<le> pin_lastSeen p \<Longrightarrow>
   (\<exists>p'. map_of (r_pins s') v = Some p' \<and> pin_addr p' = pin_addr p) \<and>
   (\<forall>dga\<in>set out. pin_respected v (pin_addr p) (set xs) dga)"
proof (induction xs arbitrary: s out p)
  case (Cons x xs)
  obtain pkt src now ok where x: "x = (pkt, src, now, ok)" by (cases x) auto
  obtain s1 out1 where h: "handlePacket s pkt src now ok = (s1, out1)" by force
  obtain out2 where r: "relay_run s1 xs = (s', out2)" and out: "out = out1 @ out2"
    using Cons.prems(1) h by (auto simp: x Let_def split: prod.splits)
  have s1: "relay_inv s1" "r_cfg s1 = r_cfg s" using handlePacket_inv [OF h Cons.prems(2)] by auto
  have gm: "gm_ok (r_pins s)" using Cons.prems(2) by (simp add: relay_inv_def)
  have "now - pin_lastSeen p \<le> g" using Cons.prems(7,8) by (auto simp: x)
  then obtain p1 where p1: "map_of (r_pins s1) v = Some p1" "pin_addr p1 = pin_addr p"
      "pin_lastSeen p1 = pin_lastSeen p \<or> pin_lastSeen p1 = now"
    and o1: "\<forall>dga\<in>set out1. pin_respected v (pin_addr p) {x} dga"
    unfolding x using handlePacket_respects [OF h gm Cons.prems(3-6)] by blast
  have g1: "rc_PinGrace (r_cfg s1) = g" using Cons.prems(4) s1 by simp
  have t1: "\<forall>(pkt, src, now, ok)\<in>set xs. t0 \<le> now \<and> now \<le> t0 + g" "t0 \<le> pin_lastSeen p1"
    using Cons.prems(7,8) p1(3) by (auto simp: x)
  have IH: "\<exists>p'. map_of (r_pins s') v = Some p' \<and> pin_addr p' = pin_addr p"
    "\<forall>dga\<in>set out2. pin_respected v (pin_addr p) (set xs) dga"
    using Cons.IH [OF r s1(1) p1(1) g1 Cons.prems(5,6) t1] p1(2) by auto
  have "\<forall>dga\<in>set out. pin_respected v (pin_addr p) (set (x # xs)) dga"
    using o1 IH(2) pin_respected_mono [of v "pin_addr p" _ _ "set (x # xs)"]
    unfolding out set_append by (metis Un_iff insert_subset list.simps(15) set_subset_Cons
      empty_subsetI insertI1 list.set_intros(1))
  with IH(1) show ?case by blast
qed auto

section \<open>Accounting\<close>

text \<open>The outcomes counted: delivered, dropped, refused by a pin, refused by a budget.\<close>

definition outcome_sum :: "relay_stats \<Rightarrow> u64" where
  "outcome_sum st = rs_Forwarded st + rs_Dropped st + rs_PinnedDropped st + rs_RateLimited st"

abbreviation outcomes :: "relay_server \<Rightarrow> u64" where
  "outcomes s \<equiv> outcome_sum (r_stats s)"

lemma outcomes_inc [simp]:
  "outcomes (incForwarded s) = outcomes s + 1" "outcomes (incDropped s) = outcomes s + 1"
  "outcomes (incPinnedDropped s) = outcomes s + 1" "outcomes (incRateLimited s) = outcomes s + 1"
  "outcomes (incWrapped s) = outcomes s"
  by (simp_all add: outcome_sum_def incForwarded_def incDropped_def incPinnedDropped_def
      incRateLimited_def incWrapped_def)

lemma handlePacket_outcomes:
  assumes "handlePacket s pkt src now ok = (s', out)"
  shows "outcomes s' = outcomes s + 1"
  using assms
proof (cases rule: handlePacket_cases)
  case (global a b f s1)
  then show ?thesis using takeGlobals_keeps [OF global(2)] by simp
next
  case (pinned a b f s1)
  then show ?thesis using takeGlobals_keeps [OF pinned(2)] by simp
next
  case (source a b f s1 s2 s3)
  then show ?thesis
    using takeGlobals_keeps [OF source(2)] pinSender_keeps [OF source(3)]
      takeSource_keeps [OF source(4)] by simp
next
  case (unknown a b f s1 s2 s3)
  then show ?thesis
    using takeGlobals_keeps [OF unknown(2)] pinSender_keeps [OF unknown(3)]
      takeSource_keeps [OF unknown(4)] by simp
next
  case (quota a b f s1 s2 s3 p m)
  then show ?thesis
    using takeGlobals_keeps [OF quota(2)] pinSender_keeps [OF quota(3)]
      takeSource_keeps [OF quota(4)] by simp
next
  case (sent a b f s1 s2 s3 p m)
  then show ?thesis
    using takeGlobals_keeps [OF sent(2)] pinSender_keeps [OF sent(3)]
      takeSource_keeps [OF sent(4)] by simp
qed simp

lemma relay_run_outcomes: "outcomes (fst (relay_run s xs)) = outcomes s + of_nat (length xs)"
proof (induction xs arbitrary: s)
  case (Cons x xs)
  obtain pkt src now ok where x: "x = (pkt, src, now, ok)" by (cases x) auto
  obtain s1 out1 where h: "handlePacket s pkt src now ok = (s1, out1)" by force
  have "fst (relay_run s (x # xs)) = fst (relay_run s1 xs)"
    by (simp add: x h Let_def split: prod.splits)
  then show ?case using Cons [of s1] handlePacket_outcomes [OF h] by simp
qed simp

section \<open>Properties\<close>

text \<open>The relay's packet codec is exact: \<open>ParsePacket\<close> accepts a datagram with source name,
  destination name and frame precisely when \<open>WrapPacket\<close> builds that datagram from them, so the
  re-wrapped datagram the relay sends is the one it received.\<close>

theorem relay_packet_codec: "(ParsePacket pkt = Inr (a, b, f)) = (WrapPacket a b f = Inr pkt)"
  by (rule ParsePacket_iff)

text \<open>C19: A pinned name cannot be hijacked or misdirected. Take any state the relay can reach
  and a name whose pin was last refreshed at \<open>t0\<close>. Whatever datagrams arrive within the grace
  period after \<open>t0\<close>, from whatever sources: the name stays pinned to the same endpoint, every
  datagram relayed to the name goes to that endpoint, and every datagram relayed under the name
  is one that arrived from that endpoint.\<close>

theorem relay_pin_not_hijacked:
  assumes "s = fst (relay_run (newRelay cfg) history)" "map_of (r_pins s) v = Some p"
    and "rc_PinGrace (fillDefaults cfg) = g" "0 \<le> g" "2 * g < max_duration"
    and "\<forall>(pkt, src, now, ok)\<in>set xs. pin_lastSeen p \<le> now \<and> now \<le> pin_lastSeen p + g"
  shows "(\<exists>p'. map_of (r_pins (fst (relay_run s xs))) v = Some p' \<and> pin_addr p' = pin_addr p)
    \<and> (\<forall>dga\<in>set (snd (relay_run s xs)). pin_respected v (pin_addr p) (set xs) dga)"
proof -
  have "relay_inv s \<and> r_cfg s = fillDefaults cfg"
    using relay_run_history [of "newRelay cfg" history s] newRelay_inv [of cfg] assms(1)
    by (metis prod.collapse newRelay_def relay_server.select_convs(1))
  then show ?thesis
    using relay_run_pin [of s xs "fst (relay_run s xs)" "snd (relay_run s xs)" v p g "pin_lastSeen p"]
      assms by simp
qed

definition demo_relay_cfg :: relay_config where
  "demo_relay_cfg = \<lparr>rc_PinGrace = 0, rc_MaxPPS = 0, rc_MaxBytesPS = 0, rc_NameQuotaBytes = 0,
     rc_GlobalMaxPPS = 0, rc_GlobalMaxBytesPS = 0\<rparr>"

definition demo_addr :: "byte \<Rightarrow> UDPAddr option" where
  "demo_addr b = Some \<lparr>a_IP = Some [10, 0, 0, b], a_Port = 7, a_Zone = []\<rparr>"

text \<open>Name 1 sends to itself from host 1; then host 2 tries to send under the same name.\<close>

definition demo_pkt :: bytes where
  "demo_pkt = [Magic, 0, 1, 1, 0, 1, 1, 42]"

lemma demo_parse: "ParsePacket demo_pkt = Inr ([1], [1], [42])"
  by (simp add: demo_pkt_def ParsePacket_def MaxNameLen_def get16_def Let_def)

definition demo_arrivals :: "arrival list" where
  "demo_arrivals = [(demo_pkt, demo_addr 1, 100, True), (demo_pkt, demo_addr 2, 200, True)]"

definition demo_relay :: relay_server where
  "demo_relay = fst (relay_run (newRelay demo_relay_cfg) [(demo_pkt, demo_addr 1, 100, True)])"

lemma demo_relay_pin:
  "map_of (r_pins demo_relay) [1] = Some \<lparr>pin_addr = demo_addr 1, pin_lastSeen = 100\<rparr>"
  by code_simp

theorem relay_pin_not_hijacked_witness:
  "\<exists>p'. map_of (r_pins (fst (relay_run demo_relay demo_arrivals))) [1] = Some p'
     \<and> pin_addr p' = demo_addr 1"
proof -
  have "rc_PinGrace (fillDefaults demo_relay_cfg) = 30 * second"
    by (simp add: fillDefaults_def demo_relay_cfg_def)
  from relay_pin_not_hijacked [OF demo_relay_def demo_relay_pin this, of demo_arrivals]
  show ?thesis by (simp add: max_duration_def demo_arrivals_def del: relay_run.simps)
qed

text \<open>A name is not flooded through the relay. Within any one second, from any reachable
  state and whatever arrives, the frames relayed to one name carry at most twice the configured
  quota of bytes (the quota is counted in windows of one second, and a second can touch two).\<close>

theorem relay_name_quota:
  assumes "s = fst (relay_run (newRelay cfg) history)"
    and "0 < rc_NameQuotaBytes (fillDefaults cfg)"
    and "\<forall>(pkt, src, now, ok)\<in>set xs. from \<le> now \<and> now < from + second"
  shows "bytes_to d (snd (relay_run s xs)) \<le> 2 * rc_NameQuotaBytes (fillDefaults cfg)"
proof -
  have "relay_inv s \<and> r_cfg s = fillDefaults cfg"
    using relay_run_history [of "newRelay cfg" history s] newRelay_inv [of cfg] assms(1)
    by (metis prod.collapse newRelay_def relay_server.select_convs(1))
  then show ?thesis
    using relay_quota [of s xs "fst (relay_run s xs)" "snd (relay_run s xs)" "from" d] assms(2,3)
    by simp
qed

theorem relay_name_quota_witness:
  "bytes_to [1] (snd (relay_run demo_relay demo_arrivals)) \<le> 2 * (256 * 2 ^ 10)"
proof -
  have q: "rc_NameQuotaBytes (fillDefaults demo_relay_cfg) = 256 * 2 ^ 10"
    by (simp add: fillDefaults_def demo_relay_cfg_def)
  then have "0 < rc_NameQuotaBytes (fillDefaults demo_relay_cfg)" by simp
  from relay_name_quota [OF demo_relay_def this, of demo_arrivals 0 "[1]"]
  show ?thesis unfolding q by (simp add: demo_arrivals_def del: relay_run.simps)
qed

text \<open>The relay's counters account for every datagram. Of the datagrams a relay has handled,
  each is counted exactly once as forwarded, dropped, refused by a pin or refused by a budget:
  the four 64-bit counters add up to the number of datagrams.\<close>

theorem relay_accounting:
  "outcome_sum (r_stats (fst (relay_run (newRelay cfg) xs))) = of_nat (length xs)"
  using relay_run_outcomes [of "newRelay cfg" xs] by (simp add: newRelay_def outcome_sum_def)

text \<open>A datagram larger than the cap still costs its sender the whole window. A draw above
  the cap in a fresh window is refused and yet charges the full cap, so that every further draw
  of the same key within the second is refused too.\<close>

theorem oversized_draw_uses_window:
  assumes "0 < cap" "cap < a" "map_of m key = None" "0 < b" "t' < t + second"
  shows "\<exists>m'. take_budget m key a cap t = (False, m') \<and> take_budget m' key b cap t' = (False, m')"
  using assms by (auto simp: take_budget_def)

theorem oversized_draw_uses_window_witness:
  "\<exists>m'. take_budget [] [1] 11 10 0 = (False, m') \<and> take_budget m' [1] 1 10 5 = (False, m')"
  by (rule oversized_draw_uses_window) simp_all

end
