(* ===== verification/Natbox.thy ===== *)
theory Natbox
  imports Netaddr Gotext
begin

text \<open>
  The NAT simulator, \<^verbatim>\<open>internal/nat/nat.go\<close>: the two envelopes, the mapping table and the
  handlers of the inside door, of the public sockets, of the periodic cleanup and of \<^verbatim>\<open>Close\<close>.
  A socket is a number; the box keeps the set of public sockets it holds open, binding a new one
  is answered by the environment with a socket and its port, and a handler returns the datagrams
  it wrote with the socket they left from.
\<close>

section \<open>Behaviours and configuration\<close>

datatype behavior = BehaviorFullCone | BehaviorAddressRestricted | BehaviorSymmetric

definition maxEnvelopeName :: nat where "maxEnvelopeName = 1024"
definition outboundMagic :: byte where "outboundMagic = 0x52"
definition inboundMagic :: byte where "inboundMagic = 0x53"

datatype nat_error =
    UnknownBehavior gostring
  | BoxClosed
  | AllocFailed
  | NoSocket
  | EmptySource
  | SourceTooLong nat
  | NilDestination
  | EmptyDestination
  | DestinationTooLong nat
  | EnvelopeTooShort
  | BadMagic byte
  | TruncatedSource
  | TruncatedDestination
  | InvalidAddress gostring

definition ParseBehavior :: "gostring \<Rightarrow> nat_error + behavior" where
  "ParseBehavior s =
     (let t = ToLower (TrimSpace s)
      in if t = lit ''fullcone'' then Inr BehaviorFullCone
         else if t = lit ''restricted'' then Inr BehaviorAddressRestricted
         else if t = lit ''symmetric'' then Inr BehaviorSymmetric
         else Inl (UnknownBehavior s))"

type_synonym sock = nat

record nat_config =
  nc_Behavior :: behavior
  nc_PublicAddr :: UDPAddr
  nc_PrivateHost :: UDPAddr
  nc_MappingTTL :: duration

record mappingEntry =
  me_pubConn :: "sock option"
  me_pubPort :: int
  me_dstIP :: gostring
  me_dstPort :: int
  me_contactIP :: "(gostring, bool) gomap option"   \<comment> \<open>\<open>None\<close> for a nil map\<close>
  me_lastSeen :: gotime

record nat_stats =
  ns_Outbound :: u64
  ns_Inbound :: u64
  ns_Dropped :: u64

text \<open>A mapping key is the pair \<^verbatim>\<open>(dstIP, dstPort)\<close>; the fixed boxes use the zero key.\<close>

type_synonym mappingKey = "gostring \<times> int"

record box =
  b_cfg :: nat_config
  b_fixedConn :: "sock option"
  b_fixedPort :: int
  b_privateHostKey :: gostring
  b_mappings :: "(mappingKey, mappingEntry) gomap"
  b_stats :: nat_stats
  b_closed :: bool
  b_open :: "sock list"     \<comment> \<open>the public sockets that are open\<close>

text \<open>\<^verbatim>\<open>New\<close>, once its sockets are bound; \<open>fixed\<close> is the public socket of a fixed box.\<close>

definition newBox :: "nat_config \<Rightarrow> sock \<Rightarrow> int \<Rightarrow> box" where
  "newBox cfg fixed port =
     \<lparr>b_cfg = cfg,
      b_fixedConn = (if nc_Behavior cfg \<noteq> BehaviorSymmetric then Some fixed else None),
      b_fixedPort = port,
      b_privateHostKey = addrKey (Some (nc_PrivateHost cfg)),
      b_mappings = [],
      b_stats = \<lparr>ns_Outbound = 0, ns_Inbound = 0, ns_Dropped = 0\<rparr>,
      b_closed = False,
      b_open = (if nc_Behavior cfg \<noteq> BehaviorSymmetric then [fixed] else [])\<rparr>"

definition incOutbound :: "box \<Rightarrow> box" where
  "incOutbound b = b\<lparr>b_stats := (b_stats b)\<lparr>ns_Outbound := ns_Outbound (b_stats b) + 1\<rparr>\<rparr>"

definition incInbound :: "box \<Rightarrow> box" where
  "incInbound b = b\<lparr>b_stats := (b_stats b)\<lparr>ns_Inbound := ns_Inbound (b_stats b) + 1\<rparr>\<rparr>"

definition incDroppedBox :: "box \<Rightarrow> box" where
  "incDroppedBox b = b\<lparr>b_stats := (b_stats b)\<lparr>ns_Dropped := ns_Dropped (b_stats b) + 1\<rparr>\<rparr>"

section \<open>Envelopes\<close>

definition WrapOutbound :: "gostring \<Rightarrow> UDPAddr option \<Rightarrow> bytes \<Rightarrow> nat_error + bytes" where
  "WrapOutbound srcID dst frame =
     (if srcID = [] then Inl EmptySource
      else if length srcID > maxEnvelopeName then Inl (SourceTooLong (length srcID))
      else if dst = None \<or> a_IP (the dst) = None then Inl NilDestination
      else let dstStr = UDPAddr_String dst
      in if length dstStr > maxEnvelopeName then Inl (DestinationTooLong (length dstStr))
         else Inr ([outboundMagic] @ put16 (of_nat (length srcID)) @ srcID
                @ put16 (of_nat (length dstStr)) @ dstStr @ frame))"

definition UnwrapOutbound ::
    "(gostring \<Rightarrow> UDPAddr option) \<Rightarrow> bytes \<Rightarrow> nat_error + gostring \<times> UDPAddr \<times> bytes" where
  "UnwrapOutbound resolver pkt =
     (if length pkt < 1 + 2 + 1 + 2 + 1 then Inl EnvelopeTooShort
      else if pkt ! 0 \<noteq> outboundMagic then Inl (BadMagic (pkt ! 0))
      else let p = drop 1 pkt;
               srcLen = unat (get16 (p ! 0) (p ! 1));
               p = drop 2 p
      in if srcLen = 0 then Inl EmptySource
         else if srcLen > maxEnvelopeName then Inl (SourceTooLong srcLen)
         else if length p < srcLen + 2 then Inl TruncatedSource
         else let srcID = take srcLen p;
                  p = drop srcLen p;
                  dstLen = unat (get16 (p ! 0) (p ! 1));
                  p = drop 2 p
         in if dstLen = 0 then Inl EmptyDestination
            else if dstLen > maxEnvelopeName then Inl (DestinationTooLong dstLen)
            else if length p < dstLen then Inl TruncatedDestination
            else (case ResolveUDPAddr resolver (take dstLen p) of
                    None \<Rightarrow> Inl (InvalidAddress (take dstLen p))
                  | Some dst \<Rightarrow> Inr (srcID, dst, drop dstLen p)))"

definition WrapInbound :: "UDPAddr option \<Rightarrow> bytes \<Rightarrow> bytes" where
  "WrapInbound src payload =
     (let s = UDPAddr_String src in [inboundMagic] @ put16 (of_nat (length s)) @ s @ payload)"

definition UnwrapInbound ::
    "(gostring \<Rightarrow> UDPAddr option) \<Rightarrow> bytes \<Rightarrow> nat_error + UDPAddr \<times> bytes" where
  "UnwrapInbound resolver pkt =
     (if length pkt < 1 + 2 + 1 then Inl EnvelopeTooShort
      else if pkt ! 0 \<noteq> inboundMagic then Inl (BadMagic (pkt ! 0))
      else let srcLen = unat (get16 (pkt ! 1) (pkt ! 2))
      in if srcLen = 0 then Inl EmptySource
         else if srcLen > maxEnvelopeName then Inl (SourceTooLong srcLen)
         else let p = drop 3 pkt
         in if length p < srcLen then Inl TruncatedSource
            else (case ResolveUDPAddr resolver (take srcLen p) of
                    None \<Rightarrow> Inl (InvalidAddress (take srcLen p))
                  | Some as \<Rightarrow> Inr (as, drop srcLen p)))"

section \<open>The mapping table\<close>

definition lastSeenExpired :: "mappingEntry \<Rightarrow> gotime \<Rightarrow> duration \<Rightarrow> bool" where
  "lastSeenExpired e now ttl \<longleftrightarrow> ttl > 0 \<and> time_sub now (me_lastSeen e) > ttl"

definition closeSock :: "sock option \<Rightarrow> box \<Rightarrow> box" where
  "closeSock c b = (case c of None \<Rightarrow> b | Some k \<Rightarrow> b\<lparr>b_open := filter (\<lambda>j. j \<noteq> k) (b_open b)\<rparr>)"

definition reclaimLocked :: "mappingKey \<Rightarrow> mappingEntry \<Rightarrow> box \<Rightarrow> box" where
  "reclaimLocked key e b =
     (let b = (if me_pubConn e \<noteq> None \<and> me_pubConn e \<noteq> b_fixedConn b
               then closeSock (me_pubConn e) b else b)
      in b\<lparr>b_mappings := AList.delete key (b_mappings b)\<rparr>)"

text \<open>\<^verbatim>\<open>cleanup\<close> and the pruning of \<^verbatim>\<open>Stats\<close>: every expired mapping is reclaimed.\<close>

definition pruneExpired :: "gotime \<Rightarrow> box \<Rightarrow> box" where
  "pruneExpired now b =
     fold (\<lambda>(k, e) b. if lastSeenExpired e now (nc_MappingTTL (b_cfg b)) then reclaimLocked k e b else b)
       (b_mappings b) b"

definition cleanup :: "gotime \<Rightarrow> box \<Rightarrow> box" where
  "cleanup now b = (if nc_MappingTTL (b_cfg b) \<le> 0 then b else pruneExpired now b)"

definition Stats :: "gotime \<Rightarrow> box \<Rightarrow> (nat_stats \<times> nat) \<times> box" where
  "Stats now b = (let b = pruneExpired now b in ((b_stats b, length (b_mappings b)), b))"

text \<open>
  \<open>outboundSocket\<close>; \<open>alloc\<close> is the answer of \<^verbatim>\<open>net.ListenPacket\<close> for a new public socket. The
  outer option is the panic of a write to a nil map.
\<close>

definition outboundSocket ::
    "box \<Rightarrow> UDPAddr \<Rightarrow> gotime \<Rightarrow> (sock \<times> int) option \<Rightarrow> ((nat_error + sock) \<times> box) option" where
  "outboundSocket b dst now alloc =
     (let beh = nc_Behavior (b_cfg b); ttl = nc_MappingTTL (b_cfg b);
          key = (if beh = BehaviorSymmetric then (ipKey (a_IP dst), a_Port dst) else ([], 0));
          (oe, b) = (case map_of (b_mappings b) key of
              None \<Rightarrow> (None, b)
            | Some e \<Rightarrow> if ttl > 0 \<and> time_sub now (me_lastSeen e) > ttl
                         then (None, reclaimLocked key e b) else (Some e, b));
          finish = (\<lambda>e b. let b = b\<lparr>b_mappings := AList.update key e (b_mappings b)\<rparr>
                     in (case me_pubConn e of None \<Rightarrow> (Inl NoSocket, b) | Some c \<Rightarrow> (Inr c, b)))
      in (case oe of
            Some e \<Rightarrow>
              let e = e\<lparr>me_lastSeen := now\<rparr>
              in if beh = BehaviorAddressRestricted
                 then (case me_contactIP e of
                         None \<Rightarrow> None
                       | Some m \<Rightarrow> Some (finish (e\<lparr>me_contactIP :=
                                     Some (AList.update (ipKey (a_IP dst)) True m)\<rparr>) b))
                 else Some (finish e b)
          | None \<Rightarrow>
              let e = \<lparr>me_pubConn = None, me_pubPort = 0, me_dstIP = fst key, me_dstPort = snd key,
                       me_contactIP = None, me_lastSeen = now\<rparr>
              in if beh \<noteq> BehaviorSymmetric
                 then Some (finish (e\<lparr>me_pubConn := b_fixedConn b, me_pubPort := b_fixedPort b,
                        me_contactIP := (if beh = BehaviorAddressRestricted
                          then Some [(ipKey (a_IP dst), True)] else None)\<rparr>) b)
                 else if b_closed b then Some (Inl BoxClosed, b)
                 else (case alloc of
                         None \<Rightarrow> Some (Inl AllocFailed, b)
                       | Some (pc, port) \<Rightarrow>
                           Some (finish (e\<lparr>me_pubConn := Some pc, me_pubPort := port,
                               me_contactIP := Some [(ipKey (a_IP dst), True)]\<rparr>)
                             (b\<lparr>b_open := pc # b_open b\<rparr>)))))"

text \<open>
  The datagrams a handler writes: to the public through a socket, or to the private host.
\<close>

datatype delivery =
    ToPublic sock bytes UDPAddr
  | ToHost sock bytes

definition handleOutbound ::
    "(gostring \<Rightarrow> UDPAddr option) \<Rightarrow> box \<Rightarrow> bytes \<Rightarrow> UDPAddr option \<Rightarrow> gotime
     \<Rightarrow> (sock \<times> int) option \<Rightarrow> bool \<Rightarrow> (box \<times> delivery list) option" where
  "handleOutbound resolver b pkt src now alloc write_ok =
     (if addrKey src \<noteq> b_privateHostKey b then Some (incDroppedBox b, [])
      else (case UnwrapOutbound resolver pkt of
              Inl e \<Rightarrow> Some (incDroppedBox b, [])
            | Inr (_, dst, inner) \<Rightarrow>
                (case outboundSocket b dst now alloc of
                   None \<Rightarrow> None
                 | Some (Inl e, b) \<Rightarrow> Some (incDroppedBox b, [])
                 | Some (Inr conn, b) \<Rightarrow>
                     Some (if write_ok then incOutbound b else incDroppedBox b,
                           [ToPublic conn inner dst]))))"

text \<open>
  \<^verbatim>\<open>lookupInbound\<close>: a symmetric box looks for the mapping that owns the socket. Sockets are not
  shared, so the order in which Go visits the map does not matter.
\<close>

definition lookupInbound :: "box \<Rightarrow> sock \<Rightarrow> UDPAddr \<Rightarrow> gotime \<Rightarrow> bool" where
  "lookupInbound b sock src now =
     (let ttl = nc_MappingTTL (b_cfg b)
      in case nc_Behavior (b_cfg b) of
           BehaviorSymmetric \<Rightarrow>
             (case find (\<lambda>(k, e). me_pubConn e = Some sock) (b_mappings b) of
                None \<Rightarrow> False
              | Some (k, e) \<Rightarrow>
                  if lastSeenExpired e now ttl then False
                  else me_dstIP e = ipKey (a_IP src) \<and> me_dstPort e = a_Port src)
         | beh \<Rightarrow>
             (case map_of (b_mappings b) ([], 0) of
                None \<Rightarrow> False
              | Some e \<Rightarrow>
                  if lastSeenExpired e now ttl then False
                  else if beh = BehaviorAddressRestricted
                  then (case me_contactIP e of
                          None \<Rightarrow> False
                        | Some m \<Rightarrow> map_of m (ipKey (a_IP src)) = Some True)
                  else True))"

definition handleInbound ::
    "box \<Rightarrow> sock \<Rightarrow> bytes \<Rightarrow> UDPAddr \<Rightarrow> gotime \<Rightarrow> bool \<Rightarrow> box \<times> delivery list" where
  "handleInbound b sock pkt src now write_ok =
     (if \<not> lookupInbound b sock src now then (incDroppedBox b, [])
      else (if write_ok then incInbound b else incDroppedBox b,
            [ToHost sock (WrapInbound (Some src) pkt)]))"

text \<open>\<^verbatim>\<open>Close\<close>, the body that runs once.\<close>

definition CloseBox :: "box \<Rightarrow> box" where
  "CloseBox b =
     (let b = b\<lparr>b_closed := True\<rparr>;
          b = closeSock (b_fixedConn b) b;
          b = fold (\<lambda>(k, e) b. closeSock (me_pubConn e) b) (b_mappings b) b
      in b\<lparr>b_mappings := []\<rparr>)"

definition Public :: "box \<Rightarrow> UDPAddr \<Rightarrow> UDPAddr" where
  "Public b bound =
     (if b_fixedConn b \<noteq> None then the (cloneAddr (Some bound))
      else \<lparr>a_IP = cloneIP (a_IP (nc_PublicAddr (b_cfg b))), a_Port = 0, a_Zone = []\<rparr>)"

section \<open>Envelopes read back\<close>

interpretation v4_text: addr_codec v4_addr "\<lambda>a. UDPAddr_String (Some a)" "ResolveUDPAddr resolver"
    "\<lambda>a b. addrEqual (Some a) (Some b)" for resolver
proof unfold_locales
  fix a assume a: "v4_addr a"
  show "\<exists>b. ResolveUDPAddr resolver (UDPAddr_String (Some a)) = Some b \<and> addrEqual (Some a) (Some b)"
    by (rule Resolve_v4_equal [OF a])
  show "UDPAddr_String (Some a) \<noteq> []" "length (UDPAddr_String (Some a)) \<le> 1024"
    using length_UDPAddr_String_v4 [OF a] by auto
qed

lemma v4_addr_IP: "v4_addr a \<Longrightarrow> a_IP a \<noteq> None"
  by (cases "a_IP a") (auto simp: v4_addr_def To4_def)

lemma Unwrap_Wrap_outbound:
  assumes "v4_addr dst" "srcID \<noteq> []" "length srcID \<le> 1024"
  shows "\<exists>pkt dst'. WrapOutbound srcID (Some dst) frame = Inr pkt
    \<and> UnwrapOutbound resolver pkt = Inr (srcID, dst', frame) \<and> addrEqual (Some dst) (Some dst')"
proof -
  let ?s = "UDPAddr_String (Some dst)"
  define q where "q = put16 (of_nat (length ?s)) @ ?s @ frame"
  define p where "p = put16 (of_nat (length srcID)) @ srcID @ q"
  obtain dst' where r: "ResolveUDPAddr resolver ?s = Some dst'" "addrEqual (Some dst) (Some dst')"
    using v4_text.resolve_show [OF assms(1)] by blast
  have b: "length ?s \<le> 1024" by (rule v4_text.show_bounded [OF assms(1)])
  have w: "WrapOutbound srcID (Some dst) frame = Inr (outboundMagic # p)"
    using assms b v4_addr_IP [OF assms(1)]
    by (simp add: WrapOutbound_def maxEnvelopeName_def p_def q_def Let_def)
  note q = v4_text.show_field [OF assms(1) q_def]
  have p: "unat (get16 (p ! 0) (p ! Suc 0)) = length srcID" "drop 2 p = srcID @ q"
    "length p = 2 + length srcID + length q" "0 < length srcID"
    using field_front [OF _ p_def] assms by auto
  have "UnwrapOutbound resolver (outboundMagic # p) = Inr (srcID, dst', frame)"
    using p q assms(3) b r(1) by (simp add: UnwrapOutbound_def maxEnvelopeName_def Let_def)
      (use p(4) q(4) in linarith)
  then show ?thesis using w r(2) by blast
qed

lemma Unwrap_inbound_resolved:
  assumes "v4_addr src"
  shows "\<exists>src'. UnwrapInbound resolver (WrapInbound (Some src) payload) = Inr (src', payload)
    \<and> ResolveUDPAddr resolver (UDPAddr_String (Some src)) = Some src' \<and> addrEqual (Some src) (Some src')"
proof -
  let ?s = "UDPAddr_String (Some src)"
  define p where "p = put16 (of_nat (length ?s)) @ ?s @ payload"
  obtain src' where r: "ResolveUDPAddr resolver ?s = Some src'" "addrEqual (Some src) (Some src')"
    using v4_text.resolve_show [OF assms] by blast
  have b: "length ?s \<le> 1024" by (rule v4_text.show_bounded [OF assms])
  note p = v4_text.show_field [OF assms p_def]
  have "WrapInbound (Some src) payload = inboundMagic # p" by (simp add: WrapInbound_def p_def Let_def)
  moreover have "drop 3 (inboundMagic # p) = drop 2 p" by (simp add: numeral_eq_Suc)
  ultimately have "UnwrapInbound resolver (WrapInbound (Some src) payload) = Inr (src', payload)"
    using p b r(1) by (simp add: UnwrapInbound_def maxEnvelopeName_def Let_def)
  then show ?thesis using r by blast
qed

lemma Unwrap_Wrap_inbound:
  assumes "v4_addr src"
  shows "\<exists>src'. UnwrapInbound resolver (WrapInbound (Some src) payload) = Inr (src', payload)
    \<and> addrEqual (Some src) (Some src')"
  using Unwrap_inbound_resolved [OF assms] by blast

section \<open>Histories of a box\<close>

datatype nat_event =
    EvDoor bytes "UDPAddr option" gotime "(sock \<times> int) option" bool
  | EvPublic sock bytes UDPAddr gotime bool
  | EvCleanup gotime
  | EvStats gotime
  | EvClose

fun nat_step :: "(gostring \<Rightarrow> UDPAddr option) \<Rightarrow> box \<Rightarrow> nat_event \<Rightarrow> (box \<times> delivery list) option" where
  "nat_step resolver b (EvDoor pkt src now alloc ok) = handleOutbound resolver b pkt src now alloc ok"
| "nat_step resolver b (EvPublic k pkt src now ok) = Some (handleInbound b k pkt src now ok)"
| "nat_step resolver b (EvCleanup now) = Some (cleanup now b, [])"
| "nat_step resolver b (EvStats now) = Some (snd (Stats now b), [])"
| "nat_step resolver b EvClose = Some (CloseBox b, [])"

text \<open>A run returns the box and what each event wrote, oldest first.\<close>

fun nat_run ::
    "(gostring \<Rightarrow> UDPAddr option) \<Rightarrow> box \<Rightarrow> nat_event list
     \<Rightarrow> (box \<times> (nat_event \<times> delivery list) list) option" where
  "nat_run resolver b [] = Some (b, [])"
| "nat_run resolver b (ev # evs) =
     (case nat_step resolver b ev of
        None \<Rightarrow> None
      | Some (b', out) \<Rightarrow>
          (case nat_run resolver b' evs of
             None \<Rightarrow> None
           | Some (b'', tr) \<Rightarrow> Some (b'', (ev, out) # tr)))"

text \<open>The contacts of a run: which destination was written to from which socket, and when.\<close>

type_synonym contact = "sock \<times> UDPAddr \<times> gotime"

fun contacts_of :: "nat_event \<times> delivery list \<Rightarrow> contact set" where
  "contacts_of (EvDoor pkt src now alloc ok, out) = {(k, dst, now) | k dst. \<exists>x. ToPublic k x dst \<in> set out}"
| "contacts_of _ = {}"

definition contacts :: "(nat_event \<times> delivery list) list \<Rightarrow> contact set" where
  "contacts tr = \<Union> (contacts_of ` set tr)"

definition within_ttl :: "duration \<Rightarrow> gotime \<Rightarrow> gotime \<Rightarrow> bool" where
  "within_ttl ttl t now \<longleftrightarrow> \<not> (ttl > 0 \<and> time_sub now t > ttl)"

definition contacted_ip :: "contact set \<Rightarrow> gostring \<Rightarrow> bool" where
  "contacted_ip L ip \<longleftrightarrow> (\<exists>k dst t. (k, dst, t) \<in> L \<and> ipKey (a_IP dst) = ip)"

lemma contacted_ip_insert [simp]:
  "contacted_ip (insert (k, dst, t) L) ip \<longleftrightarrow> ipKey (a_IP dst) = ip \<or> contacted_ip L ip"
  unfolding contacted_ip_def by blast

lemma contacted_ip_mono: "contacted_ip L ip \<Longrightarrow> L \<subseteq> M \<Longrightarrow> contacted_ip M ip"
  unfolding contacted_ip_def by blast

text \<open>What each behaviour promises of a datagram it lets in.\<close>

definition admitted :: "behavior \<Rightarrow> duration \<Rightarrow> contact set \<Rightarrow> sock \<Rightarrow> UDPAddr \<Rightarrow> gotime \<Rightarrow> bool" where
  "admitted beh ttl L k src now =
     (case beh of
        BehaviorFullCone \<Rightarrow> \<exists>k' dst t. (k', dst, t) \<in> L \<and> within_ttl ttl t now
      | BehaviorAddressRestricted \<Rightarrow>
          (\<exists>k' dst t. (k', dst, t) \<in> L \<and> within_ttl ttl t now)
          \<and> contacted_ip L (ipKey (a_IP src))
      | BehaviorSymmetric \<Rightarrow>
          \<exists>dst t. (k, dst, t) \<in> L \<and> within_ttl ttl t now
            \<and> ipKey (a_IP dst) = ipKey (a_IP src) \<and> a_Port dst = a_Port src)"

section \<open>The invariant of the mapping table\<close>

definition entry_ok :: "behavior \<Rightarrow> sock option \<Rightarrow> contact set \<Rightarrow> mappingKey \<Rightarrow> mappingEntry \<Rightarrow> bool" where
  "entry_ok beh fixed L key e =
     (case beh of
        BehaviorSymmetric \<Rightarrow> me_dstIP e = fst key \<and> me_dstPort e = snd key
          \<and> (\<exists>k dst. me_pubConn e = Some k \<and> (k, dst, me_lastSeen e) \<in> L
               \<and> ipKey (a_IP dst) = fst key \<and> a_Port dst = snd key)
      | BehaviorFullCone \<Rightarrow> me_pubConn e = fixed \<and> (\<exists>k dst. (k, dst, me_lastSeen e) \<in> L)
      | BehaviorAddressRestricted \<Rightarrow> me_pubConn e = fixed \<and> (\<exists>k dst. (k, dst, me_lastSeen e) \<in> L)
          \<and> (\<exists>m. me_contactIP e = Some m \<and> (\<forall>ip. map_of m ip = Some True \<longrightarrow>
                contacted_ip L ip)))"

definition box_inv :: "contact set \<Rightarrow> box \<Rightarrow> bool" where
  "box_inv L b \<longleftrightarrow> gm_ok (b_mappings b)
     \<and> (b_fixedConn b = None \<longleftrightarrow> nc_Behavior (b_cfg b) = BehaviorSymmetric)
     \<and> (\<forall>(key, e)\<in>set (b_mappings b).
          entry_ok (nc_Behavior (b_cfg b)) (b_fixedConn b) L key e)"

lemma entry_ok_mono: "entry_ok beh f L key e \<Longrightarrow> L \<subseteq> M \<Longrightarrow> entry_ok beh f M key e"
  unfolding entry_ok_def using contacted_ip_mono by (cases beh) (simp_all, blast+)

lemma box_inv_mono: "box_inv L b \<Longrightarrow> L \<subseteq> M \<Longrightarrow> box_inv M b"
  by (auto simp: box_inv_def intro: entry_ok_mono)

lemma box_inc [simp]:
  "b_cfg (incOutbound b) = b_cfg b" "b_cfg (incInbound b) = b_cfg b" "b_cfg (incDroppedBox b) = b_cfg b"
  "b_fixedConn (incOutbound b) = b_fixedConn b" "b_fixedConn (incInbound b) = b_fixedConn b"
  "b_fixedConn (incDroppedBox b) = b_fixedConn b"
  "b_mappings (incOutbound b) = b_mappings b" "b_mappings (incInbound b) = b_mappings b"
  "b_mappings (incDroppedBox b) = b_mappings b"
  "b_open (incOutbound b) = b_open b" "b_open (incInbound b) = b_open b"
  "b_open (incDroppedBox b) = b_open b"
  by (simp_all add: incOutbound_def incInbound_def incDroppedBox_def)

lemma inc_inv_box [simp]:
  "box_inv L (incOutbound b) = box_inv L b" "box_inv L (incInbound b) = box_inv L b"
  "box_inv L (incDroppedBox b) = box_inv L b"
  by (simp_all add: box_inv_def)

lemma closeSock_keeps [simp]:
  "b_cfg (closeSock c b) = b_cfg b" "b_fixedConn (closeSock c b) = b_fixedConn b"
  "b_mappings (closeSock c b) = b_mappings b" "b_closed (closeSock c b) = b_closed b"
  by (simp_all add: closeSock_def split: option.splits)

lemma reclaim_keeps [simp]:
  "b_cfg (reclaimLocked key e b) = b_cfg b" "b_fixedConn (reclaimLocked key e b) = b_fixedConn b"
  "b_mappings (reclaimLocked key e b) = AList.delete key (b_mappings b)"
  "b_closed (reclaimLocked key e b) = b_closed b"
  by (simp_all add: reclaimLocked_def Let_def)

lemma set_delete: "x \<in> set (AList.delete k m) \<Longrightarrow> x \<in> set m"
  by (auto simp: AList.delete_eq)

lemma reclaim_inv: "box_inv L b \<Longrightarrow> box_inv L (reclaimLocked key e b)"
  by (auto simp: box_inv_def dest: set_delete)

lemma prune_fold:
  "(\<And>k e b. P b \<Longrightarrow> P (reclaimLocked k e b)) \<Longrightarrow> P b \<Longrightarrow>
   P (fold (\<lambda>(k, e) b. if lastSeenExpired e now (nc_MappingTTL (b_cfg b)) then reclaimLocked k e b else b) m b)"
  by (induction m arbitrary: b) auto

lemma pruneExpired_inv: "box_inv L b \<Longrightarrow> box_inv L (pruneExpired now b)"
  unfolding pruneExpired_def by (rule prune_fold) (auto intro: reclaim_inv)

lemma close_fold [simp]:
  "b_cfg (fold (\<lambda>(k, e) b. closeSock (me_pubConn e) b) m b) = b_cfg b"
  "b_fixedConn (fold (\<lambda>(k, e) b. closeSock (me_pubConn e) b) m b) = b_fixedConn b"
  by (induction m arbitrary: b) auto

lemma CloseBox_inv: "box_inv L b \<Longrightarrow> box_inv L (CloseBox b)"
  by (simp add: box_inv_def CloseBox_def Let_def)

text \<open>Writing an entry that satisfies its promise keeps the invariant.\<close>

lemma update_inv:
  assumes "box_inv L b" "entry_ok (nc_Behavior (b_cfg b)) (b_fixedConn b) L key e"
    and "b' = b\<lparr>b_mappings := AList.update key e (b_mappings b)\<rparr>"
  shows "box_inv L b'"
proof -
  have gm: "gm_ok (b_mappings b)" using assms(1) by (simp add: box_inv_def)
  have "entry_ok (nc_Behavior (b_cfg b)) (b_fixedConn b) L k x"
    if "(k, x) \<in> set (AList.update key e (b_mappings b))" for k x
  proof -
    have "map_of (AList.update key e (b_mappings b)) k = Some x"
      by (rule map_of_is_SomeI) (use that gm in simp_all)
    then show ?thesis using assms(1,2) by (auto simp: box_inv_def split: if_splits dest: map_of_SomeD)
  qed
  then show ?thesis using assms(1,3) gm by (auto simp: box_inv_def)
qed

definition outbound_key :: "box \<Rightarrow> UDPAddr \<Rightarrow> mappingKey" where
  "outbound_key b dst = (if nc_Behavior (b_cfg b) = BehaviorSymmetric
     then (ipKey (a_IP dst), a_Port dst) else ([], 0))"

text \<open>The outcomes of \<open>outboundSocket\<close> with the entry it leaves in the table.\<close>

lemma outboundSocket_cases:
  assumes "box_inv L b"
  obtains (sock) k e b1 where "outboundSocket b dst now alloc =
        Some (Inr k, b1\<lparr>b_mappings := AList.update (outbound_key b dst) e (b_mappings b1)\<rparr>)"
      "box_inv L b1" "b_cfg b1 = b_cfg b" "b_fixedConn b1 = b_fixedConn b"
      "entry_ok (nc_Behavior (b_cfg b)) (b_fixedConn b) (insert (k, dst, now) L) (outbound_key b dst) e"
      "me_pubConn e = Some k" "me_lastSeen e = now"
      "nc_Behavior (b_cfg b) = BehaviorAddressRestricted \<Longrightarrow>
        (\<exists>m. me_contactIP e = Some m \<and> map_of m (ipKey (a_IP dst)) = Some True)"
      "(b_mappings b1 = b_mappings b \<or> b_mappings b1 = AList.delete (outbound_key b dst) (b_mappings b))"
  | (error) err b1 where "outboundSocket b dst now alloc = Some (Inl err, b1)" "box_inv L b1"
      "b_cfg b1 = b_cfg b" "b_fixedConn b1 = b_fixedConn b" "nc_Behavior (b_cfg b) = BehaviorSymmetric"
proof -
  let ?beh = "nc_Behavior (b_cfg b)" and ?key = "outbound_key b dst"
  obtain oe b1 where st: "(case map_of (b_mappings b) ?key of
              None \<Rightarrow> (None, b)
            | Some e \<Rightarrow> if nc_MappingTTL (b_cfg b) > 0
                  \<and> time_sub now (me_lastSeen e) > nc_MappingTTL (b_cfg b)
                then (None, reclaimLocked ?key e b) else (Some e, b)) = (oe, b1)"
    by force
  have b1: "box_inv L b1" "b_cfg b1 = b_cfg b" "b_fixedConn b1 = b_fixedConn b"
      "b_mappings b1 = b_mappings b \<or> b_mappings b1 = AList.delete ?key (b_mappings b)"
    and oe: "\<And>e. oe = Some e \<Longrightarrow> map_of (b_mappings b) ?key = Some e"
    using st assms by (auto simp: reclaim_inv split: option.splits if_splits)
  have fx: "(b_fixedConn b = None) = (?beh = BehaviorSymmetric)" using assms by (simp add: box_inv_def)
  have key: "(if ?beh = BehaviorSymmetric then (ipKey (a_IP dst), a_Port dst) else ([], 0)) = ?key"
    by (simp add: outbound_key_def)
  note def = outboundSocket_def [of b dst now alloc, unfolded Let_def key, unfolded st]
  show thesis
  proof (cases oe)
    case (Some e)
    have e: "entry_ok ?beh (b_fixedConn b) L ?key e"
      using oe [OF Some] assms by (auto simp: box_inv_def dest!: map_of_SomeD)
    define e' where "e' = (if ?beh = BehaviorAddressRestricted
      then e\<lparr>me_lastSeen := now, me_contactIP :=
        map_option (AList.update (ipKey (a_IP dst)) True) (me_contactIP e)\<rparr>
      else e\<lparr>me_lastSeen := now\<rparr>)"
    obtain k where k: "me_pubConn e = Some k"
      using e fx by (cases ?beh) (auto simp: entry_ok_def)
    have e': "entry_ok ?beh (b_fixedConn b) (insert (k, dst, now) L) ?key e'"
      using e k by (cases ?beh) (auto simp: entry_ok_def e'_def outbound_key_def)
    have c: "\<exists>m. me_contactIP e = Some m" if "?beh = BehaviorAddressRestricted"
      using e that by (auto simp: entry_ok_def)
    have "outboundSocket b dst now alloc
        = Some (Inr k, b1\<lparr>b_mappings := AList.update ?key e' (b_mappings b1)\<rparr>)"
      using c k by (auto simp: def Some e'_def)
    then show thesis
      by (rule sock [OF _ b1(1-3) e' _ _ _ b1(4)]) (use c k in \<open>auto simp: e'_def\<close>)
  next
    case None
    define e0 where "e0 = \<lparr>me_pubConn = None, me_pubPort = 0, me_dstIP = fst ?key,
      me_dstPort = snd ?key, me_contactIP = None, me_lastSeen = now\<rparr>"
    show thesis
    proof (cases "?beh = BehaviorSymmetric")
      case False
      then obtain k where k: "b_fixedConn b = Some k" using fx by auto
      define e where "e = e0\<lparr>me_pubConn := b_fixedConn b1, me_pubPort := b_fixedPort b1,
        me_contactIP := (if ?beh = BehaviorAddressRestricted
                          then Some [(ipKey (a_IP dst), True)] else None)\<rparr>"
      have "outboundSocket b dst now alloc
          = Some (Inr k, b1\<lparr>b_mappings := AList.update ?key e (b_mappings b1)\<rparr>)"
        using False k b1(3) by (simp add: def None e_def e0_def)
      moreover have "entry_ok ?beh (b_fixedConn b) (insert (k, dst, now) L) ?key e"
        using False k b1(3) by (cases ?beh) (auto simp: entry_ok_def e_def e0_def split: if_splits)
      ultimately show thesis
        by (rule sock [OF _ b1(1-3) _ _ _ _ b1(4)]) (use k b1(3) in \<open>auto simp: e_def e0_def\<close>)
    next
      case sym: True
      show thesis
      proof (cases "b_closed b1 \<or> alloc = None")
        case True
        then have "\<exists>err. outboundSocket b dst now alloc = Some (Inl err, b1)"
          using sym unfolding def None by (auto split: option.splits)
        then show thesis using error b1(1-3) sym by blast
      next
        case False
        then obtain k port where k: "alloc = Some (k, port)" "\<not> b_closed b1" by auto
        define b2 where "b2 = b1\<lparr>b_open := k # b_open b1\<rparr>"
        define e where "e = e0\<lparr>me_pubConn := Some k, me_pubPort := port,
          me_contactIP := Some [(ipKey (a_IP dst), True)]\<rparr>"
        have b2: "box_inv L b2" "b_cfg b2 = b_cfg b" "b_fixedConn b2 = b_fixedConn b"
          "b_mappings b2 = b_mappings b \<or> b_mappings b2 = AList.delete ?key (b_mappings b)"
          using b1 by (simp_all add: b2_def box_inv_def)
        have "outboundSocket b dst now alloc
            = Some (Inr k, b2\<lparr>b_mappings := AList.update ?key e (b_mappings b2)\<rparr>)"
          using sym k unfolding def None by (simp add: e_def e0_def b2_def)
        moreover have "entry_ok ?beh (b_fixedConn b) (insert (k, dst, now) L) ?key e"
          using sym by (auto simp: entry_ok_def e_def e0_def outbound_key_def)
        ultimately show thesis
          by (rule sock [OF _ b2(1-3) _ _ _ _ b2(4)]) (use sym in \<open>auto simp: e_def e0_def\<close>)
      qed
    qed
  qed
qed

lemma handleOutbound_inv:
  assumes "box_inv L b"
  shows "\<exists>b' out. handleOutbound resolver b pkt src now alloc ok = Some (b', out) \<and> b_cfg b' = b_cfg b
    \<and> box_inv (L \<union> contacts_of (EvDoor pkt src now alloc ok, out)) b'"
proof (cases "addrKey src \<noteq> b_privateHostKey b")
  case True
  then show ?thesis using assms by (simp add: handleOutbound_def)
next
  case False
  show ?thesis
  proof (cases "UnwrapOutbound resolver pkt")
    case (Inl e)
    then show ?thesis using False assms by (simp add: handleOutbound_def)
  next
    case (Inr x)
    then obtain i dst inner where u: "UnwrapOutbound resolver pkt = Inr (i, dst, inner)"
      by (cases x) auto
    from assms show ?thesis
    proof (cases rule: outboundSocket_cases [where dst = dst and now = now and alloc = alloc])
      case (sock k e b1)
      let ?b2 = "b1\<lparr>b_mappings := AList.update (outbound_key b dst) e (b_mappings b1)\<rparr>"
      have "box_inv (insert (k, dst, now) L) b1" by (rule box_inv_mono [OF sock(2)]) auto
      then have "box_inv (insert (k, dst, now) L) ?b2"
        by (rule update_inv) (use sock in simp_all)
      moreover have "contacts_of (EvDoor pkt src now alloc ok, [ToPublic k inner dst]) = {(k, dst, now)}"
        by auto
      moreover have "handleOutbound resolver b pkt src now alloc ok
          = Some ((if ok then incOutbound ?b2 else incDroppedBox ?b2), [ToPublic k inner dst])"
        using False u sock(1) by (simp add: handleOutbound_def)
      ultimately show ?thesis using sock(3) by (cases ok) simp_all
    next
      case (error err b1)
      then show ?thesis using False u by (simp add: handleOutbound_def)
    qed
  qed
qed

lemma Stats_snd: "snd (Stats now b) = pruneExpired now b"
  by (simp add: Stats_def Let_def)

lemma pruneExpired_cfg [simp]: "b_cfg (pruneExpired now b) = b_cfg b"
  unfolding pruneExpired_def by (rule prune_fold) auto

lemma nat_step_inv:
  assumes "box_inv L b"
  shows "\<exists>b' out. nat_step resolver b ev = Some (b', out) \<and> b_cfg b' = b_cfg b
    \<and> box_inv (L \<union> contacts_of (ev, out)) b'"
proof (cases ev)
  case (EvDoor pkt src now alloc ok)
  then show ?thesis using handleOutbound_inv [OF assms] by simp
next
  case (EvPublic k pkt src now ok)
  then show ?thesis using assms by (simp add: handleInbound_def)
next
  case (EvCleanup now)
  then show ?thesis using assms pruneExpired_inv by (simp add: cleanup_def)
next
  case (EvStats now)
  then show ?thesis using assms pruneExpired_inv by (simp add: Stats_snd)
next
  case EvClose
  then show ?thesis using assms CloseBox_inv [OF assms] by (simp add: CloseBox_def Let_def)
qed

lemma contacts_Cons [simp]: "contacts (x # tr) = contacts_of x \<union> contacts tr"
  and contacts_Nil [simp]: "contacts [] = {}"
  by (simp_all add: contacts_def)

lemma nat_run_inv:
  "box_inv L b \<Longrightarrow> \<exists>b' tr. nat_run resolver b evs = Some (b', tr) \<and> b_cfg b' = b_cfg b
     \<and> box_inv (L \<union> contacts tr) b'"
proof (induction evs arbitrary: b L)
  case (Cons ev evs)
  obtain b1 out where s: "nat_step resolver b ev = Some (b1, out)" "b_cfg b1 = b_cfg b"
    "box_inv (L \<union> contacts_of (ev, out)) b1"
    using nat_step_inv [OF Cons.prems] by blast
  obtain b' tr where "nat_run resolver b1 evs = Some (b', tr)" "b_cfg b' = b_cfg b1"
    "box_inv (L \<union> contacts_of (ev, out) \<union> contacts tr) b'"
    using Cons.IH [OF s(3)] by blast
  then show ?case using s by (simp add: Un_assoc)
qed simp

lemma newBox_inv: "box_inv {} (newBox cfg fixed port)"
  by (simp add: box_inv_def newBox_def)

lemma lookupInbound_sound:
  assumes "box_inv L b" "lookupInbound b k src now"
  shows "admitted (nc_Behavior (b_cfg b)) (nc_MappingTTL (b_cfg b)) L k src now"
proof (cases "nc_Behavior (b_cfg b) = BehaviorSymmetric")
  case True
  then obtain key e where f: "find (\<lambda>(k', e). me_pubConn e = Some k) (b_mappings b) = Some (key, e)"
    using assms(2) by (auto simp: lookupInbound_def Let_def split: option.splits)
  then have m: "(key, e) \<in> set (b_mappings b)" "me_pubConn e = Some k"
    by (auto simp: find_Some_iff) (metis nth_mem)
  have "\<not> lastSeenExpired e now (nc_MappingTTL (b_cfg b))"
    "me_dstIP e = ipKey (a_IP src)" "me_dstPort e = a_Port src"
    using assms(2) True f by (auto simp: lookupInbound_def Let_def split: if_splits)
  moreover have "entry_ok BehaviorSymmetric (b_fixedConn b) L key e"
    using assms(1) m(1) True by (auto simp: box_inv_def)
  ultimately show ?thesis
    using True m(2) by (auto simp: entry_ok_def admitted_def within_ttl_def lastSeenExpired_def)
next
  case False
  then obtain e where e: "map_of (b_mappings b) ([], 0) = Some e"
    "\<not> lastSeenExpired e now (nc_MappingTTL (b_cfg b))"
    "nc_Behavior (b_cfg b) = BehaviorAddressRestricted \<Longrightarrow>
       \<exists>m. me_contactIP e = Some m \<and> map_of m (ipKey (a_IP src)) = Some True"
    using assms(2) by (cases "nc_Behavior (b_cfg b)")
      (auto simp: lookupInbound_def Let_def split: option.splits if_splits)
  then have "entry_ok (nc_Behavior (b_cfg b)) (b_fixedConn b) L ([], 0) e"
    using assms(1) by (auto simp: box_inv_def dest!: map_of_SomeD)
  then show ?thesis
    using False e(2,3) by (cases "nc_Behavior (b_cfg b)")
      (auto simp: entry_ok_def admitted_def within_ttl_def lastSeenExpired_def)
qed

section \<open>A symmetric box never shares a socket\<close>

definition sock_inv :: "box \<Rightarrow> bool" where
  "sock_inv b \<longleftrightarrow> (nc_Behavior (b_cfg b) = BehaviorSymmetric \<longrightarrow>
     (\<forall>k1 e1 k2 e2. (k1, e1) \<in> set (b_mappings b) \<longrightarrow> (k2, e2) \<in> set (b_mappings b) \<longrightarrow>
        me_pubConn e1 = me_pubConn e2 \<longrightarrow> k1 = k2)
     \<and> (\<forall>k e. (k, e) \<in> set (b_mappings b) \<longrightarrow> (\<exists>j\<in>set (b_open b). me_pubConn e = Some j)))"

lemma sock_invD1:
  "sock_inv b \<Longrightarrow> nc_Behavior (b_cfg b) = BehaviorSymmetric \<Longrightarrow> (k1, e1) \<in> set (b_mappings b) \<Longrightarrow>
   (k2, e2) \<in> set (b_mappings b) \<Longrightarrow> me_pubConn e1 = me_pubConn e2 \<Longrightarrow> k1 = k2"
  unfolding sock_inv_def by blast

lemma sock_invD2:
  "sock_inv b \<Longrightarrow> nc_Behavior (b_cfg b) = BehaviorSymmetric \<Longrightarrow> (k, e) \<in> set (b_mappings b) \<Longrightarrow>
   \<exists>j\<in>set (b_open b). me_pubConn e = Some j"
  unfolding sock_inv_def by blast

lemma sock_invI:
  assumes "\<And>k1 e1 k2 e2. nc_Behavior (b_cfg b) = BehaviorSymmetric \<Longrightarrow> (k1, e1) \<in> set (b_mappings b) \<Longrightarrow>
      (k2, e2) \<in> set (b_mappings b) \<Longrightarrow> me_pubConn e1 = me_pubConn e2 \<Longrightarrow> k1 = k2"
    and "\<And>k e. nc_Behavior (b_cfg b) = BehaviorSymmetric \<Longrightarrow> (k, e) \<in> set (b_mappings b) \<Longrightarrow>
      \<exists>j\<in>set (b_open b). me_pubConn e = Some j"
  shows "sock_inv b"
  using assms unfolding sock_inv_def by blast

text \<open>The sockets the environment hands out are not in use.\<close>

fun fresh_alloc :: "box \<Rightarrow> nat_event \<Rightarrow> bool" where
  "fresh_alloc b (EvDoor pkt src now alloc ok) = (case alloc of None \<Rightarrow> True | Some (k, p) \<Rightarrow> k \<notin> set (b_open b))"
| "fresh_alloc b _ = True"

fun fresh_run :: "(gostring \<Rightarrow> UDPAddr option) \<Rightarrow> box \<Rightarrow> nat_event list \<Rightarrow> bool" where
  "fresh_run resolver b [] = True"
| "fresh_run resolver b (ev # evs) = (fresh_alloc b ev \<and>
     (case nat_step resolver b ev of None \<Rightarrow> True | Some (b', out) \<Rightarrow> fresh_run resolver b' evs))"

lemma sock_inv_inc [simp]:
  "sock_inv (incOutbound b) = sock_inv b" "sock_inv (incInbound b) = sock_inv b"
  "sock_inv (incDroppedBox b) = sock_inv b"
  by (simp_all add: sock_inv_def)

lemma in_delete: "(k, e) \<in> set (AList.delete key m) \<longleftrightarrow> (k, e) \<in> set m \<and> k \<noteq> key"
  by (auto simp: AList.delete_eq)

lemma reclaim_open:
  "j \<in> set (b_open b) \<Longrightarrow> me_pubConn e \<noteq> Some j \<Longrightarrow> j \<in> set (b_open (reclaimLocked key e b))"
  "set (b_open (reclaimLocked key e b)) \<subseteq> set (b_open b)"
  by (auto simp: reclaimLocked_def closeSock_def Let_def split: option.splits if_splits)

lemma reclaim_sock:
  assumes "sock_inv b" "(key, e) \<in> set (b_mappings b)"
  shows "sock_inv (reclaimLocked key e b)"
proof (rule sock_invI, goal_cases)
  case (1 k1 e1 k2 e2)
  then show ?case using sock_invD1 [OF assms(1), of k1 e1 k2 e2] by (simp add: in_delete)
next
  case (2 k e')
  then have m: "nc_Behavior (b_cfg b) = BehaviorSymmetric" "(k, e') \<in> set (b_mappings b)" "k \<noteq> key"
    by (simp_all add: in_delete)
  then obtain j where j: "j \<in> set (b_open b)" "me_pubConn e' = Some j"
    using sock_invD2 [OF assms(1)] by blast
  have "me_pubConn e \<noteq> Some j"
    using sock_invD1 [OF assms(1) m(1) assms(2) m(2)] m(3) j(2) by auto
  then show ?case using reclaim_open(1) j by blast
qed

lemma prune_fold_sock:
  "sock_inv b \<Longrightarrow> gm_ok m \<Longrightarrow> set m \<subseteq> set (b_mappings b) \<Longrightarrow>
   sock_inv (fold (\<lambda>(k, e) b. if lastSeenExpired e now (nc_MappingTTL (b_cfg b)) then reclaimLocked k e b else b) m b)"
proof (induction m arbitrary: b)
  case (Cons x m)
  obtain k e where x: "x = (k, e)" by (cases x)
  let ?b = "if lastSeenExpired e now (nc_MappingTTL (b_cfg b)) then reclaimLocked k e b else b"
  have "sock_inv ?b" using reclaim_sock [of b k e] Cons.prems by (simp add: x)
  moreover have "k \<notin> fst ` set m" using Cons.prems(2) by (simp add: x)
  then have "set m \<subseteq> set (b_mappings ?b)"
    using Cons.prems(3) by (auto simp: x in_delete rev_image_eqI)
  ultimately show ?case using Cons.IH [of ?b] Cons.prems(2) by (simp add: x)
qed simp

lemma pruneExpired_sock: "sock_inv b \<Longrightarrow> gm_ok (b_mappings b) \<Longrightarrow> sock_inv (pruneExpired now b)"
  unfolding pruneExpired_def by (rule prune_fold_sock) auto

lemma CloseBox_sock: "sock_inv (CloseBox b)"
  by (simp add: sock_inv_def CloseBox_def Let_def)

lemma in_update:
  "gm_ok m \<Longrightarrow> (k, e) \<in> set (AList.update key x m) \<longleftrightarrow> (if k = key then e = x else (k, e) \<in> set m)"
  using map_of_eq_Some_iff [of "AList.update key x m" k e] map_of_eq_Some_iff [of m k e]
  by (auto simp del: map_of_eq_Some_iff)

lemma sock_update:
  assumes "sock_inv b" "gm_ok (b_mappings b)" "me_pubConn e = Some j" "j \<in> set (b_open b)"
    and uniq: "\<And>k' e'. (k', e') \<in> set (b_mappings b) \<Longrightarrow> me_pubConn e' = Some j \<Longrightarrow> k' = key"
  shows "sock_inv (b\<lparr>b_mappings := AList.update key e (b_mappings b)\<rparr>)"
proof (rule sock_invI, goal_cases)
  case (1 k1 e1 k2 e2)
  have m: "if k1 = key then e = e1 else (k1, e1) \<in> set (b_mappings b)"
    "if k2 = key then e = e2 else (k2, e2) \<in> set (b_mappings b)"
    using 1(2,3) in_update [OF assms(2)] by simp_all
  show ?case
  proof (rule ccontr)
    assume ne: "k1 \<noteq> k2"
    show False
    proof (cases "k1 = key \<or> k2 = key")
      case True
      then show ?thesis using m ne uniq 1(4) assms(3) by metis
    next
      case False
      then show ?thesis using sock_invD1 [OF assms(1) _ _ _ 1(4)] m ne 1(1) by simp
    qed
  qed
next
  case (2 k e')
  then show ?case
    using sock_invD2 [OF assms(1), of k e'] assms(3,4)
    by (auto simp: in_update [OF assms(2)] split: if_splits)
qed

lemma outboundSocket_sock:
  assumes "sock_inv b" "box_inv L b" "\<And>k p. alloc = Some (k, p) \<Longrightarrow> k \<notin> set (b_open b)"
    and "outboundSocket b dst now alloc = Some (r, b')"
  shows "sock_inv b'"
proof (cases "nc_Behavior (b_cfg b) = BehaviorSymmetric")
  case False
  from assms(2) have "b_cfg b' = b_cfg b"
    by (cases rule: outboundSocket_cases [where dst = dst and now = now and alloc = alloc])
      (use assms(4) in auto)
  then show ?thesis using False by (simp add: sock_inv_def)
next
  case sym: True
  let ?key = "outbound_key b dst"
  have gm: "gm_ok (b_mappings b)" using assms(2) by (simp add: box_inv_def)
  obtain oe b1 where st: "(case map_of (b_mappings b) ?key of
              None \<Rightarrow> (None, b)
            | Some e \<Rightarrow> if nc_MappingTTL (b_cfg b) > 0
                  \<and> time_sub now (me_lastSeen e) > nc_MappingTTL (b_cfg b)
                then (None, reclaimLocked ?key e b) else (Some e, b)) = (oe, b1)"
    by force
  have b1: "sock_inv b1" "gm_ok (b_mappings b1)" "set (b_open b1) \<subseteq> set (b_open b)"
    using st assms(1) gm reclaim_open(2) [of ?key _ b]
    by (auto simp: reclaim_sock split: option.splits if_splits)
  have oe: "\<And>e. oe = Some e \<Longrightarrow> (?key, e) \<in> set (b_mappings b) \<and> b1 = b"
    using st by (auto split: option.splits if_splits dest: map_of_SomeD)
  have key: "(if nc_Behavior (b_cfg b) = BehaviorSymmetric then (ipKey (a_IP dst), a_Port dst)
      else ([], 0)) = ?key"
    by (simp add: outbound_key_def)
  note def = outboundSocket_def [of b dst now alloc, unfolded Let_def key, unfolded st]
  show ?thesis
  proof (cases oe)
    case (Some e)
    obtain j where j: "j \<in> set (b_open b)" "me_pubConn e = Some j"
      using oe [OF Some] sock_invD2 [OF assms(1) sym] by blast
    have "k' = ?key" if "(k', e') \<in> set (b_mappings b)" "me_pubConn e' = Some j" for k' e'
      using that oe [OF Some] j sock_invD1 [OF assms(1) sym, of k' e' ?key e] by simp
    then have "sock_inv (b\<lparr>b_mappings := AList.update ?key (e\<lparr>me_lastSeen := now\<rparr>) (b_mappings b)\<rparr>)"
      using j by (intro sock_update [OF assms(1) gm]) auto
    then show ?thesis using assms(4) oe [OF Some] j sym unfolding def Some by simp
  next
    case None
    show ?thesis
    proof (cases "b_closed b1 \<or> alloc = None")
      case True
      then show ?thesis using assms(4) b1(1) sym unfolding def None by (auto split: option.splits if_splits)
    next
      case False
      then obtain k port where k: "alloc = Some (k, port)" "\<not> b_closed b1" by auto
      define b2 where "b2 = b1\<lparr>b_open := k # b_open b1\<rparr>"
      have nk: "k \<notin> set (b_open b1)" using assms(3) [OF k(1)] b1(3) by blast
      have "sock_inv b2" "gm_ok (b_mappings b2)"
        using b1 sock_invD1 [OF b1(1)] sock_invD2 [OF b1(1)]
        by (auto simp: b2_def intro!: sock_invI)
      moreover have "me_pubConn e' \<noteq> Some k" if "(k', e') \<in> set (b_mappings b2)" for k' e'
      proof -
        have "nc_Behavior (b_cfg b1) = BehaviorSymmetric"
          using st sym by (auto split: option.splits if_splits)
        then show ?thesis using that sock_invD2 [OF b1(1)] nk by (fastforce simp: b2_def)
      qed
      ultimately have "sock_inv (b2\<lparr>b_mappings := AList.update ?key e (b_mappings b2)\<rparr>)"
        if "me_pubConn e = Some k" for e
        using that by (intro sock_update [where j = k]) (auto simp: b2_def)
      then show ?thesis using assms(4) k(2) sym unfolding def None by (auto simp: k(1) b2_def)
    qed
  qed
qed

lemma handleOutbound_result [consumes 1, case_names rejected failed forwarded]:
  assumes "handleOutbound resolver b pkt src now alloc ok = Some (b', out)"
  obtains "b' = incDroppedBox b" "out = []"
  | dst e b2 where "outboundSocket b dst now alloc = Some (Inl e, b2)" "b' = incDroppedBox b2" "out = []"
  | dst k inner b2 where "outboundSocket b dst now alloc = Some (Inr k, b2)"
      "b' = (if ok then incOutbound b2 else incDroppedBox b2)" "out = [ToPublic k inner dst]"
proof (cases "addrKey src \<noteq> b_privateHostKey b")
  case True
  then show thesis using assms that(1) by (simp add: handleOutbound_def)
next
  case False
  show thesis
  proof (cases "UnwrapOutbound resolver pkt")
    case (Inl e)
    then show thesis using assms that(1) False by (simp add: handleOutbound_def)
  next
    case (Inr x)
    obtain i dst inner where x: "x = (i, dst, inner)" by (cases x)
    show thesis
    proof (cases "outboundSocket b dst now alloc")
      case None
      then show thesis using assms False Inr x by (simp add: handleOutbound_def)
    next
      case (Some y)
      obtain r b2 where y: "y = (r, b2)" by (cases y)
      show thesis
      proof (cases r)
        case (Inl e)
        show thesis
          by (rule that(2) [of dst e b2])
            (use assms False \<open>UnwrapOutbound resolver pkt = Inr x\<close> x Some y Inl in
              \<open>simp_all add: handleOutbound_def\<close>)
      next
        case (Inr k)
        show thesis
          by (rule that(3) [of dst k b2 inner])
            (use assms False \<open>UnwrapOutbound resolver pkt = Inr x\<close> x Some y Inr in
              \<open>simp_all add: handleOutbound_def\<close>)
      qed
    qed
  qed
qed

lemma nat_step_sock:
  assumes "sock_inv b" "box_inv L b" "fresh_alloc b ev" "nat_step resolver b ev = Some (b', out)"
  shows "sock_inv b'"
proof (cases ev)
  case (EvDoor pkt src now alloc ok)
  have fr: "\<And>k p. alloc = Some (k, p) \<Longrightarrow> k \<notin> set (b_open b)"
    using assms(3) by (auto simp: EvDoor split: option.splits)
  have "handleOutbound resolver b pkt src now alloc ok = Some (b', out)"
    using assms(4) by (simp add: EvDoor)
  then show ?thesis
    by (cases rule: handleOutbound_result)
      (use assms(1) outboundSocket_sock [OF assms(1,2) fr] in auto)
next
  case (EvPublic k pkt src now ok)
  then show ?thesis using assms(1,4) by (auto simp: handleInbound_def split: if_splits)
next
  case (EvCleanup now)
  then show ?thesis
    using assms(1,2,4) pruneExpired_sock by (auto simp: cleanup_def box_inv_def split: if_splits)
next
  case (EvStats now)
  then show ?thesis
    using assms(1,2,4) pruneExpired_sock by (auto simp: Stats_snd box_inv_def)
next
  case EvClose
  then show ?thesis using assms(4) CloseBox_sock by auto
qed

lemma nat_run_sock:
  "sock_inv b \<Longrightarrow> box_inv L b \<Longrightarrow> fresh_run resolver b evs \<Longrightarrow>
   nat_run resolver b evs = Some (b', tr) \<Longrightarrow> sock_inv b'"
proof (induction evs arbitrary: b L tr)
  case (Cons ev evs)
  obtain b1 out where s: "nat_step resolver b ev = Some (b1, out)"
    "box_inv (L \<union> contacts_of (ev, out)) b1"
    using nat_step_inv [OF Cons.prems(2)] by blast
  have "sock_inv b1" using nat_step_sock [OF Cons.prems(1,2) _ s(1)] Cons.prems(3) by simp
  moreover have "fresh_run resolver b1 evs" using Cons.prems(3) s(1) by simp
  moreover obtain tr' where "nat_run resolver b1 evs = Some (b', tr')"
    using Cons.prems(4) s(1) by (auto split: option.splits)
  ultimately show ?case using Cons.IH s(2) by blast
qed simp

section \<open>Replies get in\<close>

lemma find_unique:
  assumes "x \<in> set xs" "P x" "\<And>y. y \<in> set xs \<Longrightarrow> P y \<Longrightarrow> y = x"
  shows "find P xs = Some x"
proof -
  obtain y where "find P xs = Some y" using assms(1,2) find_None_iff [of P xs] by (cases "find P xs") auto
  moreover from this have "y \<in> set xs" "P y" by (auto simp: find_Some_iff)
  ultimately show ?thesis using assms(3) by blast
qed

lemma reply_admitted:
  assumes "sock_inv b" "box_inv L b" "\<And>k p. alloc = Some (k, p) \<Longrightarrow> k \<notin> set (b_open b)"
    and "handleOutbound resolver b pkt src now alloc ok = Some (b', [ToPublic k inner dst])"
    and "within_ttl (nc_MappingTTL (b_cfg b)) now t"
  shows "lookupInbound b' k dst t"
proof -
  from assms(4) obtain b2 where o: "outboundSocket b dst now alloc = Some (Inr k, b2)"
    and b': "b' = incOutbound b2 \<or> b' = incDroppedBox b2"
    by (cases rule: handleOutbound_result) (auto split: if_splits)
  have si: "sock_inv b2" by (rule outboundSocket_sock [OF assms(1,2) _ o]) (use assms(3) in blast)
  let ?key = "outbound_key b dst" and ?beh = "nc_Behavior (b_cfg b)"
  from assms(2) obtain e b1 where e: "b2 = b1\<lparr>b_mappings := AList.update ?key e (b_mappings b1)\<rparr>"
    "box_inv L b1" "b_cfg b1 = b_cfg b" "entry_ok ?beh (b_fixedConn b) (insert (k, dst, now) L) ?key e"
    "me_pubConn e = Some k" "me_lastSeen e = now"
    "?beh = BehaviorAddressRestricted \<Longrightarrow>
        (\<exists>m. me_contactIP e = Some m \<and> map_of m (ipKey (a_IP dst)) = Some True)"
    by (cases rule: outboundSocket_cases [where dst = dst and now = now and alloc = alloc])
      (use o in auto)
  have cfg: "b_cfg b' = b_cfg b" "b_mappings b' = b_mappings b2" "b_cfg b2 = b_cfg b"
    using b' e(1,3) by auto
  have gm: "gm_ok (b_mappings b1)" using e(2) by (simp add: box_inv_def)
  have look: "map_of (b_mappings b2) ?key = Some e" using e(1) by simp
  have live: "\<not> lastSeenExpired e t (nc_MappingTTL (b_cfg b))"
    using assms(5) e(6) by (simp add: within_ttl_def lastSeenExpired_def)
  show ?thesis
  proof (cases "?beh = BehaviorSymmetric")
    case True
    have kin: "(?key, e) \<in> set (b_mappings b2)" using look by (rule map_of_SomeD)
    have uq: "y = (?key, e)" if "y \<in> set (b_mappings b2)" "(\<lambda>(k', e). me_pubConn e = Some k) y" for y
    proof -
      obtain k' e' where y: "y = (k', e')" by (cases y)
      have "k' = ?key"
        using sock_invD1 [OF si _ _ map_of_SomeD [OF look], of k' e'] that e(5) True cfg(3) y by simp
      moreover have "map_of (b_mappings b2) k' = Some e'"
        using that(1) gm e(1) y by (intro map_of_is_SomeI) simp_all
      ultimately show ?thesis using look y by simp
    qed
    have "find (\<lambda>(k', e). me_pubConn e = Some k) (b_mappings b2) = Some (?key, e)"
      by (rule find_unique [OF kin _ uq]) (simp_all add: e(5))
    moreover have "me_dstIP e = ipKey (a_IP dst)" "me_dstPort e = a_Port dst"
      using e(4) True by (auto simp: entry_ok_def outbound_key_def)
    ultimately show ?thesis using True cfg live by (simp add: lookupInbound_def Let_def)
  next
    case False
    then have "?key = ([], 0)" by (simp add: outbound_key_def)
    then show ?thesis
      using False cfg live look e(7)
      by (cases ?beh) (auto simp: lookupInbound_def Let_def)
  qed
qed

section \<open>Properties\<close>

text \<open>Both NAT envelopes are transparent. For an IPv4 endpoint, unwrapping what \<open>WrapOutbound\<close>
  or \<open>WrapInbound\<close> built gives back the name, an equal endpoint and the payload byte for byte,
  whatever the resolver would answer for other strings.\<close>

theorem nat_envelopes_roundtrip:
  assumes "v4_addr a" "srcID \<noteq> []" "length srcID \<le> maxEnvelopeName"
  shows "(\<exists>pkt a'. WrapOutbound srcID (Some a) frame = Inr pkt
      \<and> UnwrapOutbound resolver pkt = Inr (srcID, a', frame) \<and> addrEqual (Some a) (Some a'))
    \<and> (\<exists>a'. UnwrapInbound resolver (WrapInbound (Some a) frame) = Inr (a', frame)
      \<and> addrEqual (Some a) (Some a'))"
  using Unwrap_Wrap_outbound Unwrap_Wrap_inbound assms by (simp add: maxEnvelopeName_def)

definition demo_dst :: UDPAddr where
  "demo_dst = \<lparr>a_IP = Some [203, 0, 113, 9], a_Port = 4500, a_Zone = []\<rparr>"

lemma demo_dst_v4: "v4_addr demo_dst"
  by (simp add: v4_addr_def demo_dst_def To4_def)

theorem nat_envelopes_roundtrip_witness:
  "\<exists>a'. UnwrapInbound (\<lambda>_. None) (WrapInbound (Some demo_dst) [1, 2]) = Inr (a', [1, 2])
     \<and> addrEqual (Some demo_dst) (Some a')"
  using nat_envelopes_roundtrip [OF demo_dst_v4, of "[65]" "[1, 2]" "\<lambda>_. None"]
  by (simp add: maxEnvelopeName_def)

text \<open>C22: Nothing unsolicited gets in. In every history of a box (door datagrams, public
  datagrams, cleanups, statistics, closing, in any order), the box never panics, and a public
  datagram it delivers to its private host satisfies what the configured behaviour promises of
  the contacts the host has made before: a live mapping for full cone; in addition an earlier
  contact with the source's IP for address restricted; a live contact from the very socket to
  the very IP and port for symmetric.\<close>

theorem nat_filtering:
  "case nat_run resolver (newBox cfg fixed port) evs of
     None \<Rightarrow> False
   | Some (b, tr) \<Rightarrow> snd (handleInbound b k pkt src now ok) = []
       \<or> admitted (nc_Behavior cfg) (nc_MappingTTL cfg) (contacts tr) k src now"
proof -
  obtain b tr where r: "nat_run resolver (newBox cfg fixed port) evs = Some (b, tr)"
    "b_cfg b = b_cfg (newBox cfg fixed port)" "box_inv ({} \<union> contacts tr) b"
    using nat_run_inv [OF newBox_inv] by blast
  have "b_cfg b = cfg" using r(2) by (simp add: newBox_def)
  then show ?thesis
    using lookupInbound_sound [of "contacts tr" b k src now] r(1,3) by (simp add: handleInbound_def)
qed

text \<open>Replies get in. After the private host has reached a destination through a box, in
  any state the box can be in, a datagram from that destination to the socket the box used is
  delivered to the host, wrapped with its source, as long as the mapping has not outlived its
  time to live. The sockets the system hands out must be unused ones.\<close>

theorem nat_replies_admitted:
  assumes "nat_run resolver (newBox cfg fixed port) evs = Some (b, tr)"
    and "fresh_run resolver (newBox cfg fixed port) evs"
    and "fresh_alloc b (EvDoor pkt src now alloc ok)"
    and "handleOutbound resolver b pkt src now alloc ok = Some (b', [ToPublic k inner dst])"
    and "within_ttl (nc_MappingTTL cfg) now t"
  shows "snd (handleInbound b' k reply dst t ok') = [ToHost k (WrapInbound (Some dst) reply)]"
proof -
  obtain L where L: "box_inv L b" "b_cfg b = cfg"
    using nat_run_inv [OF newBox_inv [of cfg fixed port], of resolver evs] assms(1)
    by (auto simp: newBox_def)
  have "sock_inv (newBox cfg fixed port)" by (simp add: sock_inv_def newBox_def)
  then have "sock_inv b" by (rule nat_run_sock [OF _ newBox_inv assms(2,1)])
  then have "lookupInbound b' k dst t"
    by (rule reply_admitted [OF _ L(1) _ assms(4)]) (use assms(3,5) L(2) in auto)
  then show ?thesis by (simp add: handleInbound_def)
qed

definition demo_host :: UDPAddr where
  "demo_host = \<lparr>a_IP = Some [10, 0, 0, 2], a_Port = 9000, a_Zone = []\<rparr>"

definition demo_box :: box where
  "demo_box = newBox \<lparr>nc_Behavior = BehaviorSymmetric, nc_PublicAddr = demo_host,
     nc_PrivateHost = demo_host, nc_MappingTTL = 10 * second\<rparr> 1 0"

theorem nat_replies_admitted_witness:
  "\<exists>b' dst. snd (handleInbound b' 5 [1, 2] dst 200 True) = [ToHost 5 (WrapInbound (Some dst) [1, 2])]"
proof -
  obtain pkt dst where u: "UnwrapOutbound (\<lambda>_. None) pkt = Inr ([65], dst, [7])"
    using Unwrap_Wrap_outbound [OF demo_dst_v4, of "[65]" "[7]" "\<lambda>_. None"] by auto
  have "\<exists>b2. outboundSocket demo_box dst 100 (Some (5, 40000)) = Some (Inr 5, b2)"
    by (simp add: outboundSocket_def demo_box_def newBox_def Let_def)
  then obtain b2 where "outboundSocket demo_box dst 100 (Some (5, 40000)) = Some (Inr 5, b2)" ..
  moreover have "b_privateHostKey demo_box = addrKey (Some demo_host)"
    by (simp add: demo_box_def newBox_def)
  ultimately obtain b' where h: "handleOutbound (\<lambda>_. None) demo_box pkt (Some demo_host) 100
      (Some (5, 40000)) True = Some (b', [ToPublic 5 [7] dst])"
    using u by (simp add: handleOutbound_def)
  have r: "nat_run (\<lambda>_. None) demo_box [] = Some (demo_box, [])" by simp
  show ?thesis
    using nat_replies_admitted [OF r [unfolded demo_box_def] _ _ h [unfolded demo_box_def], of 200]
    by (auto simp: newBox_def within_ttl_def time_sub_def max_duration_def min_duration_def)
qed

end
