(* ===== verification/Stun.thy ===== *)
theory Stun
  imports Netaddr
begin

text \<open>
  The STUN binding protocol, \<^verbatim>\<open>internal/stun/stun.go\<close>: the request encoder, the responder, the
  response decoder and the client's wait for a response. The random transaction id and the
  datagrams the socket delivers before its deadline are arguments of the client.
\<close>

section \<open>Constants and errors\<close>

definition messageTypeBindingRequest :: u16 where "messageTypeBindingRequest = 0x0001"
definition messageTypeBindingResponse :: u16 where "messageTypeBindingResponse = 0x0101"
definition attrXORMappedAddress :: u16 where "attrXORMappedAddress = 0x0020"
definition stunMagicCookie :: u32 where "stunMagicCookie = 0x2112A442"
definition stunHeaderLen :: nat where "stunHeaderLen = 20"
definition xorPortMask :: u16 where "xorPortMask = 0x2112"

lemmas stun_constants = messageTypeBindingRequest_def messageTypeBindingResponse_def
  attrXORMappedAddress_def stunMagicCookie_def stunHeaderLen_def xorPortMask_def

datatype stun_error =
    TooShort nat
  | NotBindingRequest u16
  | UnexpectedType u16
  | InvalidCookie u32
  | NilSource
  | UnsupportedIP bytes
  | TruncatedPacket nat
  | TruncatedAttribute u16 nat nat
  | NoMappedAddress
  | ValueTooShort nat
  | ReservedNonZero byte
  | TruncatedIPv4
  | TruncatedIPv6
  | MissingKey
  | UnsupportedFamily byte
  | SendFailed
  | SetDeadlineFailed
  | ReadTimeout
  | ReadFailed

section \<open>Messages\<close>

text \<open>\<^verbatim>\<open>copy(h[8:20], txid)\<close> copies at most 12 bytes into the zeroed header.\<close>

definition stunHeader :: "u16 \<Rightarrow> u16 \<Rightarrow> bytes \<Rightarrow> bytes" where
  "stunHeader msgType msgLen txid =
     put16 msgType @ put16 msgLen @ put32 stunMagicCookie
       @ take 12 txid @ replicate (12 - length txid) 0"

definition EncodeBindingRequest :: "bytes \<Rightarrow> bytes" where
  "EncodeBindingRequest txid = stunHeader messageTypeBindingRequest 0 txid"

definition splitAddress :: "bytes \<Rightarrow> stun_error + byte \<times> bytes" where
  "splitAddress ip = (case To4 ip of Some v4 \<Rightarrow> Inr (0x01, v4)
     | None \<Rightarrow> (case To16 ip of Some v6 \<Rightarrow> Inr (0x02, v6) | None \<Rightarrow> Inl (UnsupportedIP ip)))"

definition HandleBindingRequest :: "bytes \<Rightarrow> UDPAddr option \<Rightarrow> stun_error + bytes" where
  "HandleBindingRequest pkt src =
     (if length pkt < stunHeaderLen then Inl (TooShort (length pkt))
      else let typ = get16 (pkt ! 0) (pkt ! 1);
               c = get32 (pkt ! 4) (pkt ! 5) (pkt ! 6) (pkt ! 7)
      in if typ \<noteq> messageTypeBindingRequest then Inl (NotBindingRequest typ)
         else if c \<noteq> stunMagicCookie then Inl (InvalidCookie c)
         else case src of
           None \<Rightarrow> Inl NilSource
         | Some a \<Rightarrow>
             (case a_IP a of
                None \<Rightarrow> Inl NilSource
              | Some ip \<Rightarrow>
                  (case splitAddress ip of
                     Inl e \<Rightarrow> Inl e
                   | Inr (family, addrBytes) \<Rightarrow>
                       let attrLen = 4 + length addrBytes;
                           msgLen = 4 + attrLen;
                           hdr = stunHeader messageTypeBindingResponse (of_nat msgLen)
                                   (take 12 (drop 8 pkt));
                           resp = hdr @ put16 attrXORMappedAddress @ put16 (of_nat attrLen)
                             @ [0] @ [family] @ put16 (of_int (a_Port a) XOR xorPortMask)
                       in Inr (resp @ map (\<lambda>i. addrBytes ! i XOR resp ! (4 + i))
                                        [0..<length addrBytes]))))"

definition parseXORMappedAddress :: "bytes \<Rightarrow> bytes \<Rightarrow> stun_error + UDPAddr" where
  "parseXORMappedAddress v xkey =
     (if length v < 4 then Inl (ValueTooShort (length v))
      else if v ! 0 \<noteq> 0 then Inl (ReservedNonZero (v ! 0))
      else let port = get16 (v ! 2) (v ! 3) XOR xorPortMask;
               xaddr = drop 4 v
      in if v ! 1 = 0x01 then
           (if length xaddr < 4 then Inl TruncatedIPv4
            else Inr \<lparr>a_IP = Some (map (\<lambda>i. xaddr ! i XOR xkey ! i) [0..<4]),
                      a_Port = uint port, a_Zone = []\<rparr>)
         else if v ! 1 = 0x02 then
           (if length xaddr < 16 then Inl TruncatedIPv6
            else if length xkey < 16 then Inl MissingKey
            else Inr \<lparr>a_IP = Some (map (\<lambda>i. xaddr ! i XOR xkey ! i) [0..<16]),
                      a_Port = uint port, a_Zone = []\<rparr>)
         else Inl (UnsupportedFamily (v ! 1)))"

text \<open>
  The loop over the attributes. An attribute advances by its value padded to four bytes; a step
  past the end of the message stops the loop.
\<close>

function attr_loop :: "bytes \<Rightarrow> bytes \<Rightarrow> stun_error + UDPAddr" where
  "attr_loop xkey attrs =
     (if length attrs \<ge> 4 then
        let atyp = get16 (attrs ! 0) (attrs ! 1);
            alen = unat (get16 (attrs ! 2) (attrs ! 3))
        in if length attrs < 4 + alen then Inl (TruncatedAttribute atyp alen (length attrs - 4))
           else if atyp = attrXORMappedAddress
           then parseXORMappedAddress (take alen (drop 4 attrs)) xkey
           else let step = 4 + (alen + 3) div 4 * 4
                in if step > length attrs then Inl NoMappedAddress
                   else attr_loop xkey (drop step attrs)
      else Inl NoMappedAddress)"
  by pat_completeness auto
termination by (relation "measure (\<lambda>(xkey, attrs). length attrs)") auto

declare attr_loop.simps [simp del]

definition DecodeXORMappedAddress :: "bytes \<Rightarrow> stun_error + UDPAddr" where
  "DecodeXORMappedAddress pkt =
     (if length pkt < stunHeaderLen then Inl (TooShort (length pkt))
      else let typ = get16 (pkt ! 0) (pkt ! 1);
               c = get32 (pkt ! 4) (pkt ! 5) (pkt ! 6) (pkt ! 7);
               msgLen = unat (get16 (pkt ! 2) (pkt ! 3))
      in if typ \<noteq> messageTypeBindingResponse then Inl (UnexpectedType typ)
         else if c \<noteq> stunMagicCookie then Inl (InvalidCookie c)
         else if length pkt < stunHeaderLen + msgLen then Inl (TruncatedPacket msgLen)
         else attr_loop (take 16 (drop 4 pkt)) (take msgLen (drop stunHeaderLen pkt)))"

text \<open>
  \<^verbatim>\<open>ResolvePublicAddr\<close>: the receive loop over what the socket delivers, each delivery a datagram
  or a read error (\<open>True\<close> for a timeout). When the deliveries end, nothing arrives any more and
  the read deadline fires. The first component is the datagram sent to the server.
\<close>

fun await_response :: "bytes \<Rightarrow> (bool + bytes) list \<Rightarrow> stun_error + UDPAddr" where
  "await_response txid [] = Inl ReadTimeout"
| "await_response txid (Inl timeout # ds) = Inl (if timeout then ReadTimeout else ReadFailed)"
| "await_response txid (Inr pkt # ds) =
     (case DecodeXORMappedAddress pkt of
        Inl e \<Rightarrow> await_response txid ds
      | Inr addr \<Rightarrow>
          if length pkt \<ge> stunHeaderLen \<and> take 12 (drop 8 pkt) = txid then Inr addr
          else await_response txid ds)"

definition ResolvePublicAddr ::
    "bytes \<Rightarrow> bool \<Rightarrow> bool \<Rightarrow> (bool + bytes) list \<Rightarrow> bytes \<times> (stun_error + UDPAddr)" where
  "ResolvePublicAddr txid write_ok deadline_ok deliveries =
     (EncodeBindingRequest txid,
      if \<not> write_ok then Inl SendFailed
      else if \<not> deadline_ok then Inl SetDeadlineFailed
      else await_response txid deliveries)"

section \<open>The responder's answer reads back\<close>

lemma xor_cancel: "(a XOR k) XOR k = a" for a :: "'a::len word"
  by (simp add: xor.assoc)

lemma length_stunHeader [simp]: "length (stunHeader t l x) = 20"
  by (simp add: stunHeader_def)

lemma stunHeader_12:
  "length x = 12 \<Longrightarrow> stunHeader t l x = put16 t @ put16 l @ put32 stunMagicCookie @ x"
  by (simp add: stunHeader_def)

lemma cookie_bytes: "put32 stunMagicCookie = [0x21, 0x12, 0xA4, 0x42]"
  by (simp add: put32_def stunMagicCookie_def)

text \<open>The unmapped form of an address: IPv4 in four bytes, IPv6 in sixteen.\<close>

lemma splitAddress_cases:
  "splitAddress ip = Inr (fam, b) \<Longrightarrow> (fam = 1 \<and> length b = 4 \<and> To4 ip = Some b)
     \<or> (fam = 2 \<and> length b = 16 \<and> ip = b)"
  using To4_length [of ip b]
  by (auto simp: splitAddress_def To16_def To4_id split: option.splits if_splits)

lemma xor_map:
  "length b = n \<Longrightarrow> n \<le> length k \<Longrightarrow>
   map (\<lambda>i. map (\<lambda>j. b ! j XOR k ! j) [0..<n] ! i XOR k ! i) [0..<n] = b" for b k :: bytes
  by (rule nth_equalityI) (simp_all add: xor_cancel)

text \<open>A response as the responder lays it out.\<close>

lemma decode_response:
  assumes "length txid = 12" "length b = n" "n = 4 \<or> n = 16"
    and fam: "fam = (if n = 4 then 1 else 2)"
    and key: "key = put32 stunMagicCookie @ txid"
    and pkt: "pkt = stunHeader messageTypeBindingResponse (of_nat (8 + n)) txid
      @ put16 attrXORMappedAddress @ put16 (of_nat (4 + n)) @ [0, fam]
      @ put16 q @ map (\<lambda>i. b ! i XOR key ! i) [0..<n]"
  shows "DecodeXORMappedAddress pkt
    = Inr \<lparr>a_IP = Some b, a_Port = uint (q XOR xorPortMask), a_Zone = []\<rparr>"
proof -
  let ?x = "map (\<lambda>i. b ! i XOR key ! i) [0..<n]"
  let ?v = "[0, fam] @ put16 q @ ?x"
  let ?at = "put16 attrXORMappedAddress @ put16 (of_nat (4 + n)) @ ?v"
  have lk: "length key = 16" using assms(1) by (simp add: key)
  have v: "parseXORMappedAddress ?v key
      = Inr \<lparr>a_IP = Some b, a_Port = uint (q XOR xorPortMask), a_Zone = []\<rparr>"
    using assms(3) xor_map [OF assms(2), of key] lk
    by (auto simp: parseXORMappedAddress_def put16_def fam Let_def
        simp del: map_eq_conv upt_rec_numeral)
  have n: "unat (of_nat (4 + n) :: u16) = 4 + n" "unat (of_nat (8 + n) :: u16) = 8 + n"
    using assms(3) by auto
  have "attr_loop key ?at = parseXORMappedAddress ?v key"
    using n(1) by (subst attr_loop.simps) (simp add: put16_def Let_def del: upt_rec_numeral)
  moreover have "DecodeXORMappedAddress pkt = attr_loop key ?at"
    using n(2) assms(1)
    by (simp add: DecodeXORMappedAddress_def pkt key stunHeader_12 put16_def put32_def
        stunHeaderLen_def Let_def del: upt_rec_numeral)
  ultimately show ?thesis using v by simp
qed

lemma nth_response:
  assumes "length txid = 12" "i < 16"
  shows "(stunHeader t l txid @ rest) ! (4 + i) = (put32 stunMagicCookie @ txid) ! i"
proof -
  have "stunHeader t l txid @ rest = (put16 t @ put16 l) @ (put32 stunMagicCookie @ txid) @ rest"
    using assms(1) by (simp add: stunHeader_12)
  moreover have "((put16 t @ put16 l) @ (put32 stunMagicCookie @ txid) @ rest) ! (4 + i)
      = ((put32 stunMagicCookie @ txid) @ rest) ! i"
    using nth_append_length_plus [of "put16 t @ put16 l" _ i] by simp
  moreover have "((put32 stunMagicCookie @ txid) @ rest) ! i = (put32 stunMagicCookie @ txid) ! i"
    using assms by (intro nth_append_left) simp
  ultimately show ?thesis by simp
qed

lemma Handle_Encode:
  assumes "length txid = 12" "splitAddress ip = Inr (fam, b)" "a_IP src = Some ip"
  shows "HandleBindingRequest (EncodeBindingRequest txid) (Some src) =
    Inr (stunHeader messageTypeBindingResponse (of_nat (8 + length b)) txid
      @ put16 attrXORMappedAddress @ put16 (of_nat (4 + length b)) @ [0, fam]
      @ put16 (of_int (a_Port src) XOR xorPortMask)
      @ map (\<lambda>i. b ! i XOR (put32 stunMagicCookie @ txid) ! i) [0..<length b])"
proof -
  let ?req = "EncodeBindingRequest txid"
  have req: "?req = put16 messageTypeBindingRequest @ put16 0 @ put32 stunMagicCookie @ txid"
    using assms(1) by (simp add: EncodeBindingRequest_def stunHeader_12)
  have len: "length ?req = 20" by (simp add: EncodeBindingRequest_def)
  have f: "get16 (?req ! 0) (?req ! Suc 0) = messageTypeBindingRequest"
    "get32 (?req ! 4) (?req ! 5) (?req ! 6) (?req ! 7) = stunMagicCookie"
    "take 12 (drop 8 ?req) = txid"
    using assms(1) by (simp_all add: req put16_def put32_def)
  have lb: "length b \<le> 16" using splitAddress_cases [OF assms(2)] by auto
  have x: "map (\<lambda>i. b ! i XOR (stunHeader messageTypeBindingResponse l txid @ rest) ! (4 + i)) [0..<length b]
      = map (\<lambda>i. b ! i XOR (put32 stunMagicCookie @ txid) ! i) [0..<length b]" for l rest
    using lb nth_response [OF assms(1)] by (intro map_cong refl) auto
  show ?thesis
    unfolding HandleBindingRequest_def
    using len f x assms by (simp add: stunHeaderLen_def Let_def)
qed

text \<open>Answers of foreign transactions in front of the response are skipped.\<close>

lemma await_skips:
  "(\<forall>pkt\<in>set noise. take 12 (drop 8 pkt) \<noteq> txid) \<Longrightarrow>
   await_response txid (map Inr noise @ ds) = await_response txid ds"
  by (induction noise) (auto split: sum.splits)

lemma Handle_Decode:
  assumes "length txid = 12" "a_IP src = Some ip" "length ip = 4 \<or> length ip = 16"
    and "0 \<le> a_Port src" "a_Port src < 65536" "a_Zone src = []"
  shows "\<exists>resp m. HandleBindingRequest (EncodeBindingRequest txid) (Some src) = Inr resp
    \<and> DecodeXORMappedAddress resp = Inr m \<and> addrEqual (Some m) (Some src)
    \<and> 20 \<le> length resp \<and> take 12 (drop 8 resp) = txid"
proof -
  have "\<exists>fb. splitAddress ip = Inr fb"
    using assms(3) by (auto simp: splitAddress_def To16_def split: option.splits)
  then obtain fam b where sp: "splitAddress ip = Inr (fam, b)" by auto
  define n where "n = length b"
  define q :: u16 where "q = of_int (a_Port src) XOR xorPortMask"
  let ?k = "put32 stunMagicCookie @ txid"
  let ?resp = "stunHeader messageTypeBindingResponse (of_nat (8 + n)) txid
      @ put16 attrXORMappedAddress @ put16 (of_nat (4 + n)) @ [0, fam] @ put16 q
      @ map (\<lambda>i. b ! i XOR ?k ! i) [0..<n]"
  have h: "HandleBindingRequest (EncodeBindingRequest txid) (Some src) = Inr ?resp"
    unfolding n_def q_def by (rule Handle_Encode [OF assms(1) sp assms(2)])
  have nf: "n = 4 \<or> n = 16" "fam = (if n = 4 then 1 else 2)"
    using splitAddress_cases [OF sp] by (auto simp: n_def)
  have d: "DecodeXORMappedAddress ?resp
      = Inr \<lparr>a_IP = Some b, a_Port = uint (q XOR xorPortMask), a_Zone = []\<rparr>"
    by (rule decode_response [OF assms(1) n_def [symmetric] nf refl refl])
  have "uint (q XOR xorPortMask) = a_Port src"
    using assms(4,5) by (simp add: q_def xor_cancel uint_word_of_int)
  moreover have "IP_Equal b ip"
    using splitAddress_cases [OF sp] IP_Equal_To4 [OF To4_id, of b ip b] by auto
  ultimately have e: "addrEqual (Some \<lparr>a_IP = Some b, a_Port = uint (q XOR xorPortMask), a_Zone = []\<rparr>)
      (Some src)"
    using assms(2,6) by (simp add: addrEqual_def)
  have "take 12 (drop 8 ?resp) = txid" "20 \<le> length ?resp"
    using assms(1) by (simp_all add: stunHeader_12 del: upt_rec_numeral)
  then show ?thesis using h d e by blast
qed

section \<open>Properties\<close>

text \<open>A client learns its own public endpoint. For every 12-byte transaction id and every
  IPv4 or IPv6 source endpoint, the responder answers the client's request, and the client,
  reading that answer after any number of datagrams of other transactions and before any
  others, returns an endpoint equal to the source the responder saw.\<close>

theorem stun_discovers_source:
  assumes "length txid = 12" "a_IP src = Some ip" "length ip = 4 \<or> length ip = 16"
    and "0 \<le> a_Port src" "a_Port src < 65536" "a_Zone src = []"
    and "\<forall>pkt\<in>set noise. take 12 (drop 8 pkt) \<noteq> txid"
  shows "\<exists>req resp m. fst (ResolvePublicAddr txid True True []) = req
    \<and> HandleBindingRequest req (Some src) = Inr resp
    \<and> snd (ResolvePublicAddr txid True True (map Inr noise @ Inr resp # rest)) = Inr m
    \<and> addrEqual (Some m) (Some src)"
  using Handle_Decode [OF assms(1-6)] await_skips [OF assms(7)]
  by (fastforce simp: ResolvePublicAddr_def stunHeaderLen_def)

theorem stun_discovers_source_witness:
  "\<exists>req resp m. fst (ResolvePublicAddr (replicate 12 9) True True []) = req
    \<and> HandleBindingRequest req (Some \<lparr>a_IP = Some [203, 0, 113, 5], a_Port = 4711, a_Zone = []\<rparr>)
      = Inr resp
    \<and> snd (ResolvePublicAddr (replicate 12 9) True True (map Inr [[1, 2, 3]] @ Inr resp # [])) = Inr m
    \<and> addrEqual (Some m) (Some \<lparr>a_IP = Some [203, 0, 113, 5], a_Port = 4711, a_Zone = []\<rparr>)"
  using stun_discovers_source [of "replicate 12 9"
      "\<lparr>a_IP = Some [203, 0, 113, 5], a_Port = 4711, a_Zone = []\<rparr>" "[203, 0, 113, 5]" "[[1, 2, 3]]" "[]"]
  by simp

text \<open>A client believes only answers to its own request. Whatever datagrams arrive, an
  endpoint that \<open>ResolvePublicAddr\<close> returns was decoded from a delivered datagram that echoes
  the transaction id of the request it sent.\<close>

theorem stun_answer_matches_request:
  assumes "snd (ResolvePublicAddr txid w d ds) = Inr m"
  shows "\<exists>pkt. Inr pkt \<in> set ds \<and> take 12 (drop 8 pkt) = txid \<and> DecodeXORMappedAddress pkt = Inr m"
proof -
  have "await_response txid ds = Inr m"
    using assms by (simp add: ResolvePublicAddr_def split: if_splits)
  then show ?thesis
  proof (induction txid ds rule: await_response.induct)
    case (3 txid pkt ds)
    then show ?case by (auto split: sum.splits if_splits)
  qed auto
qed

definition demo_response :: bytes where
  "demo_response = (case HandleBindingRequest (EncodeBindingRequest (replicate 12 9))
       (Some \<lparr>a_IP = Some [203, 0, 113, 5], a_Port = 4711, a_Zone = []\<rparr>) of Inl e \<Rightarrow> [] | Inr r \<Rightarrow> r)"

theorem stun_answer_matches_request_witness:
  "\<exists>m pkt. Inr pkt \<in> set [Inl True, Inr demo_response :: bool + bytes]
     \<and> take 12 (drop 8 pkt) = replicate 12 9 \<and> DecodeXORMappedAddress pkt = Inr m"
proof -
  obtain m where m: "DecodeXORMappedAddress demo_response = Inr m" "20 \<le> length demo_response"
    "take 12 (drop 8 demo_response) = replicate 12 9"
    using Handle_Decode [of "replicate 12 9"
        "\<lparr>a_IP = Some [203, 0, 113, 5], a_Port = 4711, a_Zone = []\<rparr>" "[203, 0, 113, 5]"]
    by (auto simp: demo_response_def)
  then have "snd (ResolvePublicAddr (replicate 12 9) True True [Inr demo_response]) = Inr m"
    by (simp add: ResolvePublicAddr_def stunHeaderLen_def)
  from stun_answer_matches_request [OF this] show ?thesis by auto
qed

end
