(* ===== verification/Control.thy ===== *)
theory Control
  imports Noise_Handshake
begin

text \<open>
  The encrypted control connection, \<^verbatim>\<open>internal/control/control.go\<close>: the Noise handshake over a
  TCP stream with 16-bit length prefixes, then messages as ciphertexts with 32-bit length
  prefixes. A connection is its session and the bytes it can still read; what a call writes is
  its result, and whether a socket write succeeds is an argument.
\<close>

section \<open>The connection\<close>

definition maxMsgLen :: nat where "maxMsgLen = 2 ^ 20"

definition control_prologue :: bytes where "control_prologue = lit ''meshlink-v1-control''"

datatype control_error =
    HandshakeErr handshake_error
  | WriteErr
  | ReadErr io_error
  | EncryptErr noise_error
  | InvalidLength
  | DecryptErr noise_error

record 'c control_conn =
  cc_sess :: "'c session"
  cc_in :: bytes

definition writeRaw :: "bytes \<Rightarrow> bytes" where
  "writeRaw b = put16 (of_nat (length b)) @ b"

definition readRaw :: "bytes \<Rightarrow> io_error + bytes \<times> bytes" where
  "readRaw r =
     (case read_full 2 r of
        Inl e \<Rightarrow> Inl e
      | Inr (hdr, r) \<Rightarrow> read_full (unat (get16 (hdr ! 0) (hdr ! 1))) r)"

section \<open>The handshake over the stream\<close>

text \<open>
  \<open>input\<close> is all the peer ever sends; \<open>w1\<close> and \<open>w2\<close> say whether the two writes succeed. The
  first component of the result is what was written.
\<close>

definition Initiate ::
    "('h, 'c, 'r) handshake_api \<Rightarrow> 'r \<Rightarrow> gotime \<Rightarrow> Keypair option \<Rightarrow> bytes option \<Rightarrow> bool \<Rightarrow> bool
     \<Rightarrow> bytes \<Rightarrow> bytes \<times> (control_error + 'c control_conn)" where
  "Initiate hapi rnd now myKP peerStatic w1 w2 input =
     (case NewInitiator hapi rnd myKP peerStatic (Some control_prologue) of
        Inl e \<Rightarrow> ([], Inl (HandshakeErr e))
      | Inr i \<Rightarrow>
          (case Message1 hapi i of
             (Inl e, i) \<Rightarrow> ([], Inl (HandshakeErr e))
           | (Inr msg1, i) \<Rightarrow>
               if \<not> w1 then ([], Inl WriteErr)
               else (case readRaw input of
                  Inl e \<Rightarrow> (writeRaw msg1, Inl (ReadErr e))
                | Inr (msg2, rest) \<Rightarrow>
                    (case ReadMessage2 hapi i msg2 of
                       (Inl e, i) \<Rightarrow> (writeRaw msg1, Inl (HandshakeErr e))
                     | (Inr s, i) \<Rightarrow>
                         (case WriteMessage3 hapi now i of
                            (Inl e, i) \<Rightarrow> (writeRaw msg1, Inl (HandshakeErr e))
                          | (Inr msg3, i) \<Rightarrow>
                              if \<not> w2 then (writeRaw msg1, Inl WriteErr)
                              else (writeRaw msg1 @ writeRaw msg3,
                                    Inr \<lparr>cc_sess = (case in_session i of None \<Rightarrow> s | Some s \<Rightarrow> s),
                                         cc_in = rest\<rparr>))))))"

definition Accept ::
    "('h, 'c, 'r) handshake_api \<Rightarrow> 'r \<Rightarrow> gotime \<Rightarrow> Keypair option \<Rightarrow> bool \<Rightarrow> bytes
     \<Rightarrow> bytes \<times> (control_error + bytes option \<times> 'c control_conn)" where
  "Accept hapi rnd now myKP w input =
     (case NewResponder hapi rnd myKP (Some control_prologue) of
        Inl e \<Rightarrow> ([], Inl (HandshakeErr e))
      | Inr r \<Rightarrow>
          (case readRaw input of
             Inl e \<Rightarrow> ([], Inl (ReadErr e))
           | Inr (msg1, input) \<Rightarrow>
               (case ReadMessage1 hapi r msg1 of
                  (Inl e, r) \<Rightarrow> ([], Inl (HandshakeErr e))
                | (Inr _, r) \<Rightarrow>
                    (case Message2 hapi r of
                       (Inl e, r) \<Rightarrow> ([], Inl (HandshakeErr e))
                     | (Inr msg2, r) \<Rightarrow>
                         if \<not> w then ([], Inl WriteErr)
                         else (case readRaw input of
                            Inl e \<Rightarrow> (writeRaw msg2, Inl (ReadErr e))
                          | Inr (msg3, input) \<Rightarrow>
                              (case ReadMessage3 hapi now r msg3 of
                                 (Inl e, r) \<Rightarrow> (writeRaw msg2, Inl (HandshakeErr e))
                               | (Inr s, r) \<Rightarrow>
                                   (writeRaw msg2,
                                    Inr (PeerStatic s, \<lparr>cc_sess = s, cc_in = input\<rparr>))))))))"

section \<open>Messages\<close>

definition WriteMsg ::
    "('c, 'k) cipher_api \<Rightarrow> 'c control_conn \<Rightarrow> bytes \<Rightarrow> bool
     \<Rightarrow> bytes \<times> control_error option \<times> 'c control_conn" where
  "WriteMsg api c plaintext ok =
     (case Encrypt api (cc_sess c) plaintext of
        (Inl e, s) \<Rightarrow> ([], Some (EncryptErr e), c\<lparr>cc_sess := s\<rparr>)
      | (Inr ct, s) \<Rightarrow>
          if ok then (put32 (of_nat (length ct)) @ ct, None, c\<lparr>cc_sess := s\<rparr>)
          else ([], Some WriteErr, c\<lparr>cc_sess := s\<rparr>))"

definition ReadMsg ::
    "('c, 'k) cipher_api \<Rightarrow> 'c control_conn \<Rightarrow> (control_error + bytes) \<times> 'c control_conn" where
  "ReadMsg api c =
     (case read_full 4 (cc_in c) of
        Inl e \<Rightarrow> (Inl (ReadErr e), c\<lparr>cc_in := []\<rparr>)
      | Inr (hdr, r) \<Rightarrow>
          let n = unat (get32 (hdr ! 0) (hdr ! 1) (hdr ! 2) (hdr ! 3))
          in if n = 0 \<or> n > maxMsgLen then (Inl InvalidLength, c\<lparr>cc_in := r\<rparr>)
             else (case read_full n r of
                     Inl e \<Rightarrow> (Inl (ReadErr e), c\<lparr>cc_in := []\<rparr>)
                   | Inr (buf, r) \<Rightarrow>
                       (case Decrypt api (cc_sess c) buf of
                          (Inl e, s) \<Rightarrow> (Inl (DecryptErr e), \<lparr>cc_sess = s, cc_in = r\<rparr>)
                        | (Inr p, s) \<Rightarrow> (Inr p, \<lparr>cc_sess = s, cc_in = r\<rparr>))))"

text \<open>A sequence of successful writes, and a sequence of reads.\<close>

fun write_msgs :: "('c, 'k) cipher_api \<Rightarrow> 'c control_conn \<Rightarrow> bytes list \<Rightarrow> bytes" where
  "write_msgs api c [] = []"
| "write_msgs api c (p # ps) =
     (case WriteMsg api c p True of (out, e, c) \<Rightarrow> out @ write_msgs api c ps)"

fun read_msgs :: "('c, 'k) cipher_api \<Rightarrow> 'c control_conn \<Rightarrow> nat \<Rightarrow> (control_error + bytes) list" where
  "read_msgs api c 0 = []"
| "read_msgs api c (Suc n) = (case ReadMsg api c of (r, c) \<Rightarrow> r # read_msgs api c n)"

section \<open>What is written is read\<close>

lemma readRaw_writeRaw [codec]:
  "length b < 65536 \<Longrightarrow> readRaw (writeRaw b @ rest) = Inr (b, rest)"
proof -
  assume b: "length b < 65536"
  have "read_full 2 (writeRaw b @ rest) = Inr (put16 (of_nat (length b)), b @ rest)"
    unfolding writeRaw_def append_assoc by (rule read_full_append) simp
  then show ?thesis using b by (simp add: readRaw_def put16_def)
qed

lemma unat_of_nat32: "n < 4294967296 \<Longrightarrow> unat (of_nat n :: u32) = n"
  by (simp add: unat_of_nat)

lemma ReadMsg_frame:
  assumes "cc_in c = put32 (of_nat (length ct)) @ ct @ rest" "0 < length ct" "length ct \<le> maxMsgLen"
  shows "ReadMsg api c = (case Decrypt api (cc_sess c) ct of
      (Inl e, s) \<Rightarrow> (Inl (DecryptErr e), \<lparr>cc_sess = s, cc_in = rest\<rparr>)
    | (Inr p, s) \<Rightarrow> (Inr p, \<lparr>cc_sess = s, cc_in = rest\<rparr>))"
proof -
  have "read_full 4 (cc_in c) = Inr (put32 (of_nat (length ct)), ct @ rest)"
    unfolding assms(1) by (rule read_full_append) simp
  moreover have "unat (of_nat (length ct) :: u32) = length ct"
    using assms(3) by (intro unat_of_nat32) (simp add: maxMsgLen_def)
  ultimately show ?thesis
    using assms(2,3) by (simp add: ReadMsg_def put32_def Let_def)
qed

text \<open>
  \<open>tag_law\<close>: a ciphertext is not empty and at most the 16 bytes of the authentication tag longer
  than its plaintext.
\<close>

definition tag_law :: "('k \<Rightarrow> u64 \<Rightarrow> bytes \<Rightarrow> bytes) \<Rightarrow> nat \<Rightarrow> bool" where
  "tag_law seal tag \<longleftrightarrow> (\<forall>k n p. 0 < length (seal k n p) \<and> length (seal k n p) \<le> length p + tag)"

lemma Encrypt_length:
  assumes "cipher_laws api seal opn rk" "send_keyed api rk k0 s" "tag_law seal tag"
    and "Encrypt api s p = (Inr ct, s')"
    and "on_schedule (s_sendEpoch s) (s_sendCount s) (s_rekeyEvery s)"
  shows "0 < length ct \<and> length ct \<le> length p + tag"
proof -
  have "s_sendCount s \<le> MaxNonce"
    using assms(4) by (auto simp: Encrypt_def Send_def not_less split: option.splits if_splits)
  then obtain x where "fst (Send api s p) = Inr (s_sendCount s, x)" "\<exists>k n. x = seal k n p"
    using Send_spec [OF assms(1,2), of p] on_schedule_next [OF assms(5)] by (metis fst_conv)
  moreover from this have "ct = x"
    using assms(4) by (auto simp: Encrypt_def split: prod.splits)
  ultimately show ?thesis using assms(3) by (auto simp: tag_law_def)
qed

lemma msgs_roundtrip:
  assumes laws: "cipher_laws api seal opn rk" and tag: "tag_law seal tag"
  shows "send_keyed api rk k0 (cc_sess c) \<Longrightarrow> recv_keyed api rk k0 (cc_sess d) \<Longrightarrow>
    s_sendCount (cc_sess c) = s_recvCount (cc_sess d) \<Longrightarrow>
    s_rekeyEvery (cc_sess c) = s_rekeyEvery (cc_sess d) \<Longrightarrow>
    on_schedule (s_sendEpoch (cc_sess c)) (s_sendCount (cc_sess c)) (s_rekeyEvery (cc_sess c)) \<Longrightarrow>
    on_schedule (s_recvEpoch (cc_sess d)) (s_recvCount (cc_sess d)) (s_rekeyEvery (cc_sess d)) \<Longrightarrow>
    unat (s_sendCount (cc_sess c)) + length ps \<le> 18446744073709551615 \<Longrightarrow>
    (\<forall>p\<in>set ps. length p + tag \<le> maxMsgLen) \<Longrightarrow>
    cc_in d = write_msgs api c ps @ rest \<Longrightarrow> read_msgs api d (length ps) = map Inr ps"
proof (induction ps arbitrary: c d)
  case (Cons p ps)
  have n: "s_sendCount (cc_sess c) \<le> MaxNonce" using Cons.prems(7) by (simp add: word_le_nat_alt)
  obtain ct s' r' where st: "Encrypt api (cc_sess c) p = (Inr ct, s')"
    "Decrypt api (cc_sess d) ct = (Inr p, r')"
    "send_keyed api rk k0 s'" "recv_keyed api rk k0 r'"
    "s_sendCount s' = s_sendCount (cc_sess c) + 1" "s_recvCount r' = s_recvCount (cc_sess d) + 1"
    "s_rekeyEvery s' = s_rekeyEvery (cc_sess c)" "s_rekeyEvery r' = s_rekeyEvery (cc_sess d)"
    "on_schedule (s_sendEpoch s') (s_sendCount s') (s_rekeyEvery s')"
    "on_schedule (s_recvEpoch r') (s_recvCount r') (s_rekeyEvery r')"
    by (rule Encrypt_Decrypt_step [OF laws Cons.prems(1-6) n])
  let ?c = "c\<lparr>cc_sess := s'\<rparr>" and ?rest = "write_msgs api (c\<lparr>cc_sess := s'\<rparr>) ps @ rest"
  have len: "0 < length ct \<and> length ct \<le> length p + tag"
    by (rule Encrypt_length [OF laws Cons.prems(1) tag st(1) Cons.prems(5)])
  have inn: "cc_in d = put32 (of_nat (length ct)) @ ct @ ?rest"
    using Cons.prems(9) st(1) by (simp add: WriteMsg_def)
  have rd: "ReadMsg api d = (Inr p, \<lparr>cc_sess = r', cc_in = ?rest\<rparr>)"
    using ReadMsg_frame [OF inn, of api] len Cons.prems(8) st(2) by simp
  have "unat (s_sendCount s') + length ps \<le> 18446744073709551615"
    using Cons.prems(7) n by (simp add: st(5) unat_inc word_le_nat_alt)
  then have "read_msgs api \<lparr>cc_sess = r', cc_in = ?rest\<rparr> (length ps) = map Inr ps"
    using Cons.prems(3,4,8) st by (intro Cons.IH [of ?c]) simp_all
  then show ?case using rd by simp
qed simp

section \<open>From the handshake to messages\<close>

lemma WriteMessage3_session:
  assumes "WriteMessage3 hapi now i = (Inr m, i')"
  shows "\<exists>s a. in_session i' = Some s \<and> s_send s = Some a"
  using assms by (rule WriteMessage3_Inr) blast

lemma Initiate_Inr:
  assumes "Initiate hapi rnd now kp (Some key) w1 w2 input = (out, Inr c)" "static_law hapi" "msg_law hapi"
  obtains i i' msg1 msg3 where "initiator_inv hapi key i" "WriteMessage3 hapi now i = (Inr msg3, i')"
    "in_session i' = Some (cc_sess c)" "out = writeRaw msg1 @ writeRaw msg3"
    "length msg1 < 65536" "length msg3 < 65536"
proof -
  obtain i0 where i0: "NewInitiator hapi rnd kp (Some key) (Some control_prologue) = Inr i0"
    using assms(1) by (cases "NewInitiator hapi rnd kp (Some key) (Some control_prologue)")
      (simp_all add: Initiate_def)
  obtain m1 i1 where i1: "Message1 hapi i0 = (Inr m1, i1)"
    using assms(1) i0 by (cases "Message1 hapi i0"; cases "fst (Message1 hapi i0)")
      (simp_all add: Initiate_def)
  obtain m2 rest where rd: "readRaw input = Inr (m2, rest)"
    using assms(1) i0 i1 by (cases "readRaw input") (auto simp: Initiate_def split: if_splits)
  obtain s i2 where i2: "ReadMessage2 hapi i1 m2 = (Inr s, i2)"
    using assms(1) i0 i1 rd by (cases "ReadMessage2 hapi i1 m2"; cases "fst (ReadMessage2 hapi i1 m2)")
      (simp_all add: Initiate_def split: if_splits)
  obtain m3 i3 where i3: "WriteMessage3 hapi now i2 = (Inr m3, i3)"
    using assms(1) i0 i1 rd i2 by (cases "WriteMessage3 hapi now i2"; cases "fst (WriteMessage3 hapi now i2)")
      (simp_all add: Initiate_def split: if_splits)
  have fin: "out = writeRaw m1 @ writeRaw m3"
    "c = \<lparr>cc_sess = (case in_session i3 of None \<Rightarrow> s | Some s \<Rightarrow> s), cc_in = rest\<rparr>"
    using assms(1) i0 i1 rd i2 i3 by (auto simp: Initiate_def split: if_splits)
  have "initiator_inv hapi key i1"
    using Message1_inv [of hapi key i0] NewInitiator_inv [OF i0] i1 by simp
  then have inv: "initiator_inv hapi key i2" using ReadMessage2_inv [of hapi key i1 m2] i2 by simp
  have "in_session i3 = Some (cc_sess c)" using WriteMessage3_session [OF i3] fin(2) by auto
  then show thesis
    using that inv i3 fin(1) Message1_length [OF assms(3) i1] WriteMessage3_length [OF assms(3) i3]
    by blast
qed

lemma Accept_Inr:
  assumes "Accept hapi rnd now kp w input = (out, Inr (ps, c))"
  obtains r r' m1 in1 m3 where "readRaw input = Inr (m1, in1)" "readRaw in1 = Inr (m3, cc_in c)"
    "ReadMessage3 hapi now r m3 = (Inr (cc_sess c), r')" "ps = PeerStatic (cc_sess c)"
proof -
  obtain r0 where r0: "NewResponder hapi rnd kp (Some control_prologue) = Inr r0"
    using assms(1) by (cases "NewResponder hapi rnd kp (Some control_prologue)")
      (simp_all add: Accept_def)
  obtain m1 in1 where rd: "readRaw input = Inr (m1, in1)"
    using assms(1) r0 by (cases "readRaw input") (auto simp: Accept_def)
  obtain u r1 where r1: "ReadMessage1 hapi r0 m1 = (Inr u, r1)"
    using assms(1) r0 rd by (cases "ReadMessage1 hapi r0 m1"; cases "fst (ReadMessage1 hapi r0 m1)")
      (simp_all add: Accept_def)
  obtain m2 r2 where r2: "Message2 hapi r1 = (Inr m2, r2)"
    using assms(1) r0 rd r1 by (cases "Message2 hapi r1"; cases "fst (Message2 hapi r1)")
      (simp_all add: Accept_def)
  obtain m3 in2 where rd2: "readRaw in1 = Inr (m3, in2)"
    using assms(1) r0 rd r1 r2 by (cases "readRaw in1") (auto simp: Accept_def split: if_splits)
  obtain s r3 where r3: "ReadMessage3 hapi now r2 m3 = (Inr s, r3)"
    using assms(1) r0 rd r1 r2 rd2
    by (cases "ReadMessage3 hapi now r2 m3"; cases "fst (ReadMessage3 hapi now r2 m3)")
      (simp_all add: Accept_def split: if_splits)
  have "ps = PeerStatic s" "c = \<lparr>cc_sess = s, cc_in = in2\<rparr>"
    using assms(1) r0 rd r1 r2 rd2 r3 by (auto simp: Accept_def split: if_splits)
  then show thesis using that [OF rd, of m3 r2 r3] rd2 r3 by simp
qed

lemma handshake_msgs:
  assumes laws: "static_law hapi" "split_law hapi api" "cipher_laws api seal opn rk" "tag_law seal tag"
    and inv: "initiator_inv hapi key i"
    and w3: "WriteMessage3 hapi now i = (Inr msg, i')" "in_session i' = Some s"
    and r3: "ReadMessage3 hapi now' r msg = (Inr t, r')" "s_channelBinding s = s_channelBinding t"
  shows "cc_sess c = s \<Longrightarrow> cc_sess d = t \<Longrightarrow> length ps \<le> 18446744073709551615 \<Longrightarrow>
      \<forall>p\<in>set ps. length p + tag \<le> maxMsgLen \<Longrightarrow> cc_in d = write_msgs api c ps @ rest \<Longrightarrow>
      read_msgs api d (length ps) = map Inr ps"
proof -
  obtain hi hi' a b where i: "h_write hapi hi = (Some (msg, Some a, Some b), hi')"
      "s_send s = Some a" "s_channelBinding s = h_channelBinding hapi hi'"
    using WriteMessage3_Inr [OF w3(1)] w3(2) by (metis option.inject)
  obtain hr hr' x y where rr: "h_read hapi msg hr = (Some (Some x, Some y), hr')"
      "s_recv t = Some x" "s_channelBinding t = h_channelBinding hapi hr'" "complete_session t"
    using ReadMessage3_Inr [OF r3(1)] by metis
  have k: "c_key api a = c_key api x"
    using laws(2) i(1,3) rr(1,3) r3(2) unfolding split_law_def by metis
  have "initiator_inv hapi key i'"
    using WriteMessage3_inv [OF laws(1) inv, of now] w3(1) by simp
  then have cs: "complete_session s"
    using w3(2) i(2) by (auto simp: initiator_inv_def split: phase.splits)
  assume *: "cc_sess c = s" "cc_sess d = t" "length ps \<le> 18446744073709551615"
    "\<forall>p\<in>set ps. length p + tag \<le> maxMsgLen" "cc_in d = write_msgs api c ps @ rest"
  have "send_keyed api rk (c_key api a) s" "recv_keyed api rk (c_key api a) t"
    using cs rr(2,4) i(2) k
    by (simp_all add: send_keyed_def recv_keyed_def complete_session_def fresh_session_def)
  then show "read_msgs api d (length ps) = map Inr ps"
    using * cs rr(4)
    by (intro msgs_roundtrip [OF laws(3,4), where c = c and rest = rest])
      (simp_all add: complete_session_def fresh_session_def on_schedule_def epochOf_def)
qed

section \<open>Properties\<close>

text \<open>C31: The control channel from the first byte. An agent runs \<open>Initiate\<close> and a coordinator
  \<open>Accept\<close>; the coordinator reads what the agent wrote, first the handshake and then a sequence
  of messages. If both sides finish with the same channel binding, the agent's session names
  the coordinator key it was configured with, and the coordinator reads exactly the agent's
  messages in order, through every rekeying.\<close>

theorem control_channel_end_to_end:
  assumes "static_law hapi" "split_law hapi api" "cipher_laws api seal opn rk" "tag_law seal tag"
    "msg_law hapi"
    and "Initiate hapi rnd now kp (Some key) True True inp = (out, Inr c)" "length key = KeySize"
    and "Accept hapi rnd' now' kp' True (out @ write_msgs api c ps @ rest) = (out', Inr (st, d))"
    and "s_channelBinding (cc_sess c) = s_channelBinding (cc_sess d)"
    and "length ps \<le> 18446744073709551615" "\<forall>p\<in>set ps. length p + tag \<le> maxMsgLen"
  shows "PeerStatic (cc_sess c) = Some key \<and> read_msgs api d (length ps) = map Inr ps"
proof -
  obtain i i' msg1 msg3 where i: "initiator_inv hapi key i" "WriteMessage3 hapi now i = (Inr msg3, i')"
    "in_session i' = Some (cc_sess c)" "out = writeRaw msg1 @ writeRaw msg3"
    "length msg1 < 65536" "length msg3 < 65536"
    by (rule Initiate_Inr [OF assms(6,1,5)])
  obtain r r' m1 in1 m3 where a: "readRaw (out @ write_msgs api c ps @ rest) = Inr (m1, in1)"
    "readRaw in1 = Inr (m3, cc_in d)" "ReadMessage3 hapi now' r m3 = (Inr (cc_sess d), r')"
    by (rule Accept_Inr [OF assms(8)])
  have "in1 = writeRaw msg3 @ write_msgs api c ps @ rest"
    using a(1) i(4,5) readRaw_writeRaw [of msg1] by simp
  then have m3: "m3 = msg3" "cc_in d = write_msgs api c ps @ rest"
    using a(2) i(6) readRaw_writeRaw [of msg3] by simp_all
  have "initiator_inv hapi key i'" using WriteMessage3_inv [OF assms(1) i(1), of now] i(2) by simp
  moreover have "s_send (cc_sess c) \<noteq> None" using WriteMessage3_session [OF i(2)] i(3) by auto
  ultimately have "raw (s_peerStatic (cc_sess c)) = key"
    using i(3) by (auto simp: initiator_inv_def split: phase.splits)
  then have "PeerStatic (cc_sess c) = Some key"
    using assms(7) by (cases "s_peerStatic (cc_sess c)") (auto simp: PeerStatic_def KeySize_def)
  moreover have "read_msgs api d (length ps) = map Inr ps"
    using handshake_msgs [OF assms(1-4) i(1,2,3) a(3) [unfolded m3(1)] assms(9)] m3(2) assms(10,11)
    by blast
  ultimately show ?thesis by blast
qed

lemma demo_more_laws: "tag_law demo_seal 9" "msg_law demo_hapi"
  by (auto simp: tag_law_def demo_seal_def msg_law_def demo_hapi_def)

lemma demo_initiate:
  "Initiate demo_hapi () 5 (Some (demo_keypair 1)) (Some (replicate 32 2)) True True
     (writeRaw (replicate 32 2) @ [])
   = (writeRaw [] @ writeRaw (replicate 32 1), Inr \<lparr>cc_sess = demo_initiator_session, cc_in = []\<rparr>)"
  using readRaw_writeRaw [of "replicate 32 2" "[]"]
  by (simp add: Initiate_def NewInitiator_def demo_hapi_def demo_keypair_def static_ok_def KeySize_def
      Message1_def ReadMessage2_def WriteMessage3_def Let_def demo_initiator_session_def)

lemma demo_accept:
  "Accept demo_hapi () 6 (Some (demo_keypair 2)) True
     (writeRaw [] @ (writeRaw (replicate 32 1) @ rest))
   = (writeRaw (replicate 32 2),
      Inr (Some (replicate 32 1), \<lparr>cc_sess = demo_responder_session, cc_in = rest\<rparr>))"
proof -
  have r: "readRaw (writeRaw [] @ (writeRaw (replicate 32 1) @ rest))
      = Inr ([], writeRaw (replicate 32 1) @ rest)"
    "readRaw (writeRaw (replicate 32 1) @ rest) = Inr (replicate 32 1, rest)"
    by (rule readRaw_writeRaw; simp)+
  show ?thesis
    unfolding Accept_def r
    by (simp add: r NewResponder_def demo_hapi_def demo_keypair_def static_ok_def KeySize_def
      ReadMessage1_def Message2_def ReadMessage3_def Let_def demo_responder_session_def PeerStatic_def)
qed

theorem control_channel_end_to_end_witness:
  "read_msgs demo_api \<lparr>cc_sess = demo_responder_session,
       cc_in = write_msgs demo_api \<lparr>cc_sess = demo_initiator_session, cc_in = []\<rparr> [[1, 2], [3]] @ []\<rparr> 2
     = [Inr [1, 2], Inr [3]]"
proof -
  let ?c = "\<lparr>cc_sess = demo_initiator_session, cc_in = []\<rparr>"
  have "s_channelBinding (cc_sess ?c) = s_channelBinding demo_responder_session"
    by (simp add: demo_initiator_session_def demo_responder_session_def)
  then have "PeerStatic (cc_sess ?c) = Some (replicate 32 2)
      \<and> read_msgs demo_api \<lparr>cc_sess = demo_responder_session,
          cc_in = write_msgs demo_api ?c [[1, 2], [3]] @ []\<rparr> (length [[1 :: byte, 2], [3]])
        = map Inr [[1, 2], [3]]"
    using demo_accept [of "write_msgs demo_api ?c [[1, 2], [3]] @ []"]
    by (intro control_channel_end_to_end [where now' = 6 and kp' = "Some (demo_keypair 2)"
          and rest = "[]" and out' = "writeRaw (replicate 32 2)" and st = "Some (replicate 32 1)",
          OF demo_hapi_laws demo_laws demo_more_laws demo_initiate])
      (simp_all add: KeySize_def maxMsgLen_def del: write_msgs.simps)
  then show ?thesis by (simp add: numeral_2_eq_2 del: write_msgs.simps read_msgs.simps)
qed

end
