(* ===== verification/Protocol.thy ===== *)
theory Protocol
  imports Netaddr Gotext
begin

text \<open>
  The control messages, \<^verbatim>\<open>internal/protocol/protocol.go\<close>: the message type, its JSON encoding
  line by line as \<^verbatim>\<open>encoding/json\<close> writes it (field order, omitted empty fields, escapes), and
  the bounded line reader. Decoding JSON is an argument of \<open>DecodeLine\<close>.
\<close>

section \<open>Messages\<close>

definition TypeRegister :: gostring where "TypeRegister = lit ''register''"
definition TypePeerList :: gostring where "TypePeerList = lit ''peer_list''"
definition TypeQuery :: gostring where "TypeQuery = lit ''query''"
definition TypeQueryResult :: gostring where "TypeQueryResult = lit ''query_result''"
definition TypeError :: gostring where "TypeError = lit ''error''"
definition MaxControlLine :: nat where "MaxControlLine = 64 * 2 ^ 10"

text \<open>A nil \<^verbatim>\<open>[]string\<close> is \<open>None\<close>: JSON writes it as \<^verbatim>\<open>null\<close>, an empty one as \<^verbatim>\<open>[]\<close>.\<close>

record PeerInfo =
  pi_ID :: gostring
  pi_PubKey :: gostring
  pi_Endpoints :: "gostring list option"

record Message =
  m_Type :: gostring
  m_ID :: gostring
  m_PubKey :: gostring
  m_Endpoints :: "gostring list option"
  m_Peers :: "PeerInfo list"
  m_Msg :: gostring
  m_Count :: int
  m_Total :: int
  m_Up :: int

definition blank_message :: Message where
  "blank_message = \<lparr>m_Type = [], m_ID = [], m_PubKey = [], m_Endpoints = None, m_Peers = [],
     m_Msg = [], m_Count = 0, m_Total = 0, m_Up = 0\<rparr>"

section \<open>JSON text\<close>

text \<open>The length of a valid UTF-8 sequence at the front, 0 when there is none.\<close>

definition cont :: "byte \<Rightarrow> bool" where "cont b \<longleftrightarrow> 0x80 \<le> b \<and> b \<le> 0xBF"

fun utf8_len :: "bytes \<Rightarrow> nat" where
  "utf8_len [] = 0"
| "utf8_len (a # s) =
     (if a < 0x80 then 1
      else case s of
        b # t \<Rightarrow>
          if 0xC2 \<le> a \<and> a \<le> 0xDF then (if cont b then 2 else 0)
          else (case t of
            c # u \<Rightarrow>
              if a = 0xE0 then (if 0xA0 \<le> b \<and> b \<le> 0xBF \<and> cont c then 3 else 0)
              else if a = 0xED then (if 0x80 \<le> b \<and> b \<le> 0x9F \<and> cont c then 3 else 0)
              else if 0xE1 \<le> a \<and> a \<le> 0xEF then (if cont b \<and> cont c then 3 else 0)
              else (case u of
                d # v \<Rightarrow>
                  if a = 0xF0 then (if 0x90 \<le> b \<and> b \<le> 0xBF \<and> cont c \<and> cont d then 4 else 0)
                  else if a = 0xF4 then (if 0x80 \<le> b \<and> b \<le> 0x8F \<and> cont c \<and> cont d then 4 else 0)
                  else if 0xF1 \<le> a \<and> a \<le> 0xF3 then (if cont b \<and> cont c \<and> cont d then 4 else 0)
                  else 0
              | [] \<Rightarrow> 0)
          | [] \<Rightarrow> 0)
      | [] \<Rightarrow> 0)"

definition hexlow :: "nat \<Rightarrow> byte" where
  "hexlow n = (if n < 10 then 48 + of_nat n else 87 + of_nat n)"

definition escape_ascii :: "byte \<Rightarrow> gostring" where
  "escape_ascii c =
     (if c = 92 \<or> c = 34 then [92, c]
      else if c = 8 then [92, 98] else if c = 12 then [92, 102]
      else if c = 10 then [92, 110] else if c = 13 then [92, 114] else if c = 9 then [92, 116]
      else if c < 32 \<or> c = 60 \<or> c = 62 \<or> c = 38
      then [92, 117, 48, 48, hexlow (unat c div 16), hexlow (unat c mod 16)]
      else [c])"

lemma utf8_len_bound: "s \<noteq> [] \<Longrightarrow> utf8_len s \<le> length s"
  by (cases s rule: utf8_len.cases) (auto split: list.splits)

function json_chars :: "gostring \<Rightarrow> gostring" where
  "json_chars s = (case s of
       [] \<Rightarrow> []
     | c # cs \<Rightarrow>
         if c < 0x80 then escape_ascii c @ json_chars cs
         else if utf8_len s = 0 then [92, 117, 102, 102, 102, 100] @ json_chars cs
         else if take 3 s = [0xE2, 0x80, 0xA8] then [92, 117, 50, 48, 50, 56] @ json_chars (drop 3 s)
         else if take 3 s = [0xE2, 0x80, 0xA9] then [92, 117, 50, 48, 50, 57] @ json_chars (drop 3 s)
         else take (utf8_len s) s @ json_chars (drop (utf8_len s) s))"
  by pat_completeness auto
termination by (relation "measure length") (auto split: if_splits)

declare json_chars.simps [simp del]

definition json_string :: "gostring \<Rightarrow> gostring" where
  "json_string s = [34] @ json_chars s @ [34]"

definition json_list :: "gostring list \<Rightarrow> gostring" where
  "json_list xs = [91] @ join [44] xs @ [93]"

definition json_object :: "(string \<times> gostring) list \<Rightarrow> gostring" where
  "json_object fs = [123] @ join [44] (map (\<lambda>(n, v). [34] @ lit n @ [34, 58] @ v) fs) @ [125]"

definition json_strings :: "gostring list option \<Rightarrow> gostring" where
  "json_strings xs = (case xs of None \<Rightarrow> lit ''null'' | Some ys \<Rightarrow> json_list (map json_string ys))"

definition json_PeerInfo :: "PeerInfo \<Rightarrow> gostring" where
  "json_PeerInfo p = json_object
     [(''id'', json_string (pi_ID p)), (''pubkey'', json_string (pi_PubKey p)),
      (''endpoints'', json_strings (pi_Endpoints p))]"

text \<open>The tag \<^verbatim>\<open>omitempty\<close> drops a field that is the empty string, an empty slice or zero.\<close>

definition json_Message :: "Message \<Rightarrow> gostring" where
  "json_Message m = json_object
     ([(''type'', json_string (m_Type m))]
      @ (if m_ID m = [] then [] else [(''id'', json_string (m_ID m))])
      @ (if m_PubKey m = [] then [] else [(''pubkey'', json_string (m_PubKey m))])
      @ (if m_Endpoints m = None \<or> m_Endpoints m = Some [] then []
         else [(''endpoints'', json_strings (m_Endpoints m))])
      @ (if m_Peers m = [] then [] else [(''peers'', json_list (map json_PeerInfo (m_Peers m)))])
      @ (if m_Msg m = [] then [] else [(''msg'', json_string (m_Msg m))])
      @ (if m_Count m = 0 then [] else [(''count'', Itoa (m_Count m))])
      @ (if m_Total m = 0 then [] else [(''total'', Itoa (m_Total m))])
      @ (if m_Up m = 0 then [] else [(''up'', Itoa (m_Up m))]))"

text \<open>Marshalling a \<^verbatim>\<open>Message\<close> cannot fail: it holds strings, lists and integers only.\<close>

definition EncodeLine :: "Message \<Rightarrow> bytes" where
  "EncodeLine m = json_Message m @ [10]"

datatype line_error = EmptyLine | UnmarshalFailed

definition DecodeLine :: "(bytes \<Rightarrow> Message option) \<Rightarrow> bytes \<Rightarrow> line_error + Message" where
  "DecodeLine unmarshal b =
     (let b = TrimSpace b
      in if b = [] then Inl EmptyLine
         else (case unmarshal b of None \<Rightarrow> Inl UnmarshalFailed | Some m \<Rightarrow> Inr m))"

section \<open>The line reader\<close>

text \<open>
  \<^verbatim>\<open>bufio.Reader.ReadSlice\<close> with a buffer of \<open>cap\<close> bytes on the bytes that are still to come: up
  to the delimiter, or a full buffer without one, or what is left at the end.
\<close>

datatype slice_result = SliceLine | SliceBufferFull | SliceEOF

definition ReadSlice :: "nat \<Rightarrow> byte \<Rightarrow> bytes \<Rightarrow> slice_result \<times> bytes \<times> bytes" where
  "ReadSlice cap delim s =
     (let n = length (takeWhile (\<lambda>c. c \<noteq> delim) s)
      in if n < length s \<and> n < cap then (SliceLine, take (n + 1) s, drop (n + 1) s)
         else if cap \<le> length s then (SliceBufferFull, take cap s, drop cap s)
         else (SliceEOF, s, []))"

datatype readline_error = ErrControlLineTooLong | LineEOF bytes   \<comment> \<open>with the partial line\<close>

text \<open>
  The loop of \<open>ReadLine\<close>; \<open>tot\<close> counts the bytes seen. Every round consumes a full buffer, of
  which a reader has at least 16 bytes; the test for an empty round makes the recursion total for an
  empty buffer too.
\<close>

function readLineLoop :: "nat \<Rightarrow> nat \<Rightarrow> bytes \<Rightarrow> (readline_error + bytes) \<times> bytes" where
  "readLineLoop cap tot s =
     (case ReadSlice cap 10 s of
        (r, line, rest) \<Rightarrow>
          let tot = tot + length line in
          if tot > MaxControlLine then (Inl ErrControlLineTooLong, rest)
          else (case r of
                  SliceLine \<Rightarrow> (Inr line, rest)
                | SliceEOF \<Rightarrow> (Inl (LineEOF line), rest)
                | SliceBufferFull \<Rightarrow>
                    if line = [] then (Inl (LineEOF line), rest) else readLineLoop cap tot rest))"
  by pat_completeness auto
termination
  by (relation "measure (\<lambda>(cap, tot, s). length s)")
    (auto simp: ReadSlice_def Let_def split: if_splits)

declare readLineLoop.simps [simp del]

definition ReadLine :: "nat \<Rightarrow> bytes \<Rightarrow> (readline_error + bytes) \<times> bytes" where
  "ReadLine cap s = readLineLoop cap 0 s"

lemma ReadSlice_line:
  "10 \<notin> set l \<Longrightarrow> length l < cap \<Longrightarrow> ReadSlice cap 10 (l @ 10 # rest) = (SliceLine, l @ [10], rest)"
proof -
  assume l: "10 \<notin> set l" "length l < cap"
  then have "takeWhile (\<lambda>c. c \<noteq> 10) (l @ 10 # rest) = l" by (induction l) auto
  then show ?thesis using l by (simp add: ReadSlice_def Let_def)
qed

lemma ReadSlice_full:
  "10 \<notin> set l \<Longrightarrow> length l = cap \<Longrightarrow> ReadSlice cap 10 (l @ s) = (SliceBufferFull, l, s)"
proof -
  assume l: "10 \<notin> set l" "length l = cap"
  then have "cap \<le> length (takeWhile (\<lambda>c. c \<noteq> 10) (l @ s))"
    by (subst takeWhile_append2) auto
  then show ?thesis using l by (simp add: ReadSlice_def Let_def)
qed

section \<open>Properties\<close>

text \<open>A line that fits the reader's buffer is returned whole, with its newline, and the
  reader goes on right after it.\<close>

theorem ReadLine_short:
  assumes "10 \<notin> set l" "length l < cap" "length l < MaxControlLine"
  shows "ReadLine cap (l @ 10 # rest) = (Inr (l @ [10]), rest)"
  using ReadSlice_line [OF assms(1,2)] assms(3)
  by (simp add: ReadLine_def readLineLoop.simps [of cap 0] Let_def)

theorem ReadLine_short_witness: "ReadLine 4096 ([65, 66] @ 10 # [67]) = (Inr ([65, 66] @ [10]), [67])"
  by (rule ReadLine_short) (simp_all add: MaxControlLine_def)

text \<open>A line longer than the reader's buffer but within the limit is cut: \<open>ReadLine\<close> reports
  success and returns only what follows the first full buffer, and the bytes before are lost.\<close>

theorem ReadLine_drops_prefix:
  assumes "10 \<notin> set (a @ b)" "length a = cap" "0 < cap" "length b < cap"
    and "length a + length b < MaxControlLine"
  shows "ReadLine cap (a @ b @ 10 # rest) = (Inr (b @ [10]), rest)"
proof -
  have "ReadSlice cap 10 (a @ b @ 10 # rest) = (SliceBufferFull, a, b @ 10 # rest)"
    using assms by (intro ReadSlice_full) auto
  moreover have "a \<noteq> []" using assms(2,3) by auto
  ultimately have "ReadLine cap (a @ b @ 10 # rest) = readLineLoop cap (length a) (b @ 10 # rest)"
    using assms(5) by (simp add: ReadLine_def readLineLoop.simps [of cap 0] Let_def)
  also have "\<dots> = (Inr (b @ [10]), rest)"
    using ReadSlice_line [of b cap rest] assms
    by (simp add: readLineLoop.simps [of cap cap] Let_def)
  finally show ?thesis .
qed

theorem ReadLine_drops_prefix_witness:
  "ReadLine 4096 (replicate 4096 65 @ [66] @ 10 # [67]) = (Inr ([66] @ [10]), [67])"
  by (rule ReadLine_drops_prefix) (simp_all add: MaxControlLine_def)

end
