(* ===== verification/Coordinator.thy ===== *)
theory Coordinator
  imports Keys Protocol
begin

text \<open>
  The control-plane server, \<^verbatim>\<open>internal/coordinator/coordinator.go\<close>: the registry of peers, the
  sessions of connected clients and the goroutine that serves one client. A section under the
  server's mutex is one function on the state; a client goroutine is a program counter, so the
  steps of different clients interleave, and in particular a broadcast happens after the lock
  under which its peer list was collected is released. Messages handed to a connection's
  \<^verbatim>\<open>WriteMsg\<close> are the outputs, in order; which writes fail is an argument.
\<close>

section \<open>State\<close>

definition maxIDLen :: nat where "maxIDLen = 64"
definition maxEndpointsPerPeer :: nat where "maxEndpointsPerPeer = 2"
definition maxEndpointLen :: nat where "maxEndpointLen = 255"
definition maxRegistrations :: nat where "maxRegistrations = 512"
definition maxControlLineLen :: nat where "maxControlLineLen = 2 ^ 20"

type_synonym conn = nat

record Registration =
  rg_ID :: gostring
  rg_PubKey :: gostring
  rg_Endpoints :: "gostring list option"
  rg_Owner :: conn

text \<open>
  Where a client goroutine is: in the handshake, in the read loop with the static key it
  authenticated, or about to broadcast a peer list it has collected.
\<close>

datatype routine =
    Handshaking
  | Serving bytes
  | Broadcasting bytes Message

record coord =
  co_registrations :: "(gostring, Registration) gomap"
  co_clients :: "(conn, gostring) gomap"
  co_ctrlConns :: "(conn, unit) gomap"
  co_totalRegs :: int
  co_started :: gotime
  co_routines :: "(conn, routine) gomap"

definition newCoord :: "gotime \<Rightarrow> coord" where
  "newCoord now = \<lparr>co_registrations = [], co_clients = [], co_ctrlConns = [], co_totalRegs = 0,
     co_started = now, co_routines = []\<rparr>"

section \<open>Operations\<close>

definition cleanupConn :: "conn \<Rightarrow> coord \<Rightarrow> coord" where
  "cleanupConn c s =
     (let i = (case map_of (co_clients s) c of None \<Rightarrow> [] | Some i \<Rightarrow> i);
          regs = (if i \<noteq> [] then
                    (case map_of (co_registrations s) i of
                       None \<Rightarrow> co_registrations s
                     | Some reg \<Rightarrow> if rg_Owner reg = c then AList.delete i (co_registrations s)
                                    else co_registrations s)
                  else co_registrations s)
      in s\<lparr>co_registrations := regs, co_clients := AList.delete c (co_clients s),
           co_ctrlConns := AList.delete c (co_ctrlConns s)\<rparr>)"

definition evict :: "conn \<Rightarrow> coord \<Rightarrow> coord" where
  "evict c s = cleanupConn c s"

datatype registration_error =
    IDRequired
  | IDTooLong
  | TooManyEndpoints
  | EndpointTooLong

definition endpoints_of :: "gostring list option \<Rightarrow> gostring list" where
  "endpoints_of e = (case e of None \<Rightarrow> [] | Some xs \<Rightarrow> xs)"

definition validateRegistration :: "Message \<Rightarrow> registration_error option" where
  "validateRegistration msg =
     (if m_ID msg = [] then Some IDRequired
      else if length (m_ID msg) > maxIDLen then Some IDTooLong
      else if length (endpoints_of (m_Endpoints msg)) > maxEndpointsPerPeer then Some TooManyEndpoints
      else if \<exists>ep\<in>set (endpoints_of (m_Endpoints msg)). length ep > maxEndpointLen
      then Some EndpointTooLong
      else None)"

definition error_text :: "registration_error \<Rightarrow> gostring" where
  "error_text e = (case e of
       IDRequired \<Rightarrow> lit ''id is required''
     | IDTooLong \<Rightarrow> lit ''id exceeds 64 bytes''
     | TooManyEndpoints \<Rightarrow> lit ''too many endpoints''
     | EndpointTooLong \<Rightarrow> lit ''endpoint exceeds 255 bytes'')"

definition error_msg :: "gostring \<Rightarrow> Message" where
  "error_msg t = blank_message\<lparr>m_Type := TypeError, m_Msg := t\<rparr>"

text \<open>\<^verbatim>\<open>writeMsg\<close>: nothing is written to a connection without a session.\<close>

definition writeMsg :: "coord \<Rightarrow> conn \<Rightarrow> Message \<Rightarrow> (conn \<times> bytes) list" where
  "writeMsg s c m = (case map_of (co_ctrlConns s) c of None \<Rightarrow> [] | Some _ \<Rightarrow> [(c, EncodeLine m)])"

definition peer_infos :: "coord \<Rightarrow> PeerInfo list" where
  "peer_infos s = map (\<lambda>(k, r). \<lparr>pi_ID = rg_ID r, pi_PubKey = rg_PubKey r,
      pi_Endpoints = rg_Endpoints r\<rparr>) (co_registrations s)"

definition registrySnapshot :: "coord \<Rightarrow> gotime \<Rightarrow> Message" where
  "registrySnapshot s now = blank_message\<lparr>m_Type := TypeQueryResult,
     m_Count := int (length (co_registrations s)), m_Total := co_totalRegs s,
     m_Up := time_sub now (co_started s) div second, m_Peers := peer_infos s\<rparr>"

text \<open>
  The section under the lock that enters a registration; \<open>Inl\<close> is the refusal. The peers of the
  broadcast are collected before the lock is released.
\<close>

definition enterRegistration :: "conn \<Rightarrow> Message \<Rightarrow> coord \<Rightarrow> gostring + coord \<times> Message" where
  "enterRegistration c msg s =
     (if (case map_of (co_registrations s) (m_ID msg) of None \<Rightarrow> False
          | Some cur \<Rightarrow> rg_PubKey cur \<noteq> [] \<and> rg_PubKey cur \<noteq> m_PubKey msg)
      then Inl (lit ''id already registered with a different key'')
      else if map_of (co_registrations s) (m_ID msg) = None
              \<and> length (co_registrations s) \<ge> maxRegistrations
      then Inl (lit ''registry full'')
      else let s = s\<lparr>co_registrations := AList.update (m_ID msg)
                       \<lparr>rg_ID = m_ID msg, rg_PubKey = m_PubKey msg,
                        rg_Endpoints = m_Endpoints msg, rg_Owner = c\<rparr> (co_registrations s),
                     co_clients := AList.update c (m_ID msg) (co_clients s),
                     co_totalRegs := co_totalRegs s + 1\<rparr>
           in Inr (s, blank_message\<lparr>m_Type := TypePeerList, m_Peers := peer_infos s\<rparr>))"

text \<open>
  One turn of the read loop of \<open>handleClient\<close>, from a decrypted message to the broadcast it has
  to make, if any.
\<close>

definition handleMessage ::
    "(bytes \<Rightarrow> Message option) \<Rightarrow> coord \<Rightarrow> conn \<Rightarrow> bytes \<Rightarrow> bytes \<Rightarrow> gotime
     \<Rightarrow> coord \<times> (conn \<times> bytes) list \<times> Message option" where
  "handleMessage unmarshal s c peerStatic plain now =
     (case DecodeLine unmarshal plain of
        Inl e \<Rightarrow> (s, [], None)
      | Inr msg \<Rightarrow>
          if m_Type msg \<noteq> TypeRegister \<and> m_Type msg \<noteq> TypeQuery then (s, [], None)
          else if m_Type msg = TypeQuery then (s, writeMsg s c (registrySnapshot s now), None)
          else (case validateRegistration msg of
                  Some e \<Rightarrow> (s, writeMsg s c (error_msg (error_text e)), None)
                | None \<Rightarrow>
                    if hex_encode peerStatic \<noteq> m_PubKey msg
                    then (s, writeMsg s c
                            (error_msg (lit ''pubkey does not match the authenticated control identity'')),
                          None)
                    else (case enterRegistration c msg s of
                            Inl e \<Rightarrow> (s, writeMsg s c (error_msg e), None)
                          | Inr (s', m) \<Rightarrow> (s', [], Some m))))"

text \<open>
  \<open>broadcast\<close> writes to a snapshot of the sessions; a connection whose write fails is evicted.
\<close>

fun broadcastLoop :: "(conn \<Rightarrow> bool) \<Rightarrow> bytes \<Rightarrow> conn list \<Rightarrow> coord \<Rightarrow> coord \<times> (conn \<times> bytes) list" where
  "broadcastLoop fails line [] s = (s, [])"
| "broadcastLoop fails line (c # cs) s =
     (let (s', out) = broadcastLoop fails line cs (if fails c then evict c s else s)
      in (s', (c, line) # out))"

definition broadcast :: "(conn \<Rightarrow> bool) \<Rightarrow> Message \<Rightarrow> coord \<Rightarrow> coord \<times> (conn \<times> bytes) list" where
  "broadcast fails m s =
     (let line = EncodeLine m
      in if length line > maxControlLineLen then (s, [])
         else broadcastLoop fails line (map fst (co_ctrlConns s)) s)"

section \<open>Interleaving\<close>

text \<open>
  The labels of the steps: a connection is accepted; its handshake ends; its goroutine handles a
  message, performs the broadcast it owes, or ends (a failed handshake, a failed read, or the
  end of the server's context after a broadcast).
\<close>

datatype coord_label =
    LAccept conn
  | LHandshake conn bytes
  | LMessage conn bytes gotime
  | LBroadcast conn
  | LQuit conn

inductive coord_step ::
    "(bytes \<Rightarrow> Message option) \<Rightarrow> coord \<Rightarrow> coord_label \<Rightarrow> (conn \<times> bytes) list \<Rightarrow> coord \<Rightarrow> bool"
  for unmarshal where
  accept: "map_of (co_routines s) c = None \<Longrightarrow>
    coord_step unmarshal s (LAccept c) []
      (s\<lparr>co_clients := AList.update c [] (co_clients s),
         co_routines := AList.update c Handshaking (co_routines s)\<rparr>)"
| handshake: "map_of (co_routines s) c = Some Handshaking \<Longrightarrow> length st = KeySize \<Longrightarrow>
    coord_step unmarshal s (LHandshake c st) []
      (s\<lparr>co_ctrlConns := AList.update c () (co_ctrlConns s),
         co_routines := AList.update c (Serving st) (co_routines s)\<rparr>)"
| message: "map_of (co_routines s) c = Some (Serving st) \<Longrightarrow>
    handleMessage unmarshal s c st plain now = (s', out, ob) \<Longrightarrow>
    coord_step unmarshal s (LMessage c plain now) out
      (case ob of None \<Rightarrow> s'
       | Some m \<Rightarrow> s'\<lparr>co_routines := AList.update c (Broadcasting st m) (co_routines s')\<rparr>)"
| broadcast: "map_of (co_routines s) c = Some (Broadcasting st m) \<Longrightarrow>
    broadcast fails m s = (s', out) \<Longrightarrow>
    coord_step unmarshal s (LBroadcast c) out
      (s'\<lparr>co_routines := AList.update c (Serving st) (co_routines s')\<rparr>)"
| quit: "map_of (co_routines s) c = Some r \<Longrightarrow> (\<And>st m. r \<noteq> Broadcasting st m) \<Longrightarrow>
    coord_step unmarshal s (LQuit c) []
      (let s' = cleanupConn c s in s'\<lparr>co_routines := AList.delete c (co_routines s')\<rparr>)"

text \<open>A run with the labels of its steps and everything written, in order.\<close>

inductive coord_run ::
    "(bytes \<Rightarrow> Message option) \<Rightarrow> coord \<Rightarrow> (coord_label \<times> (conn \<times> bytes) list) list \<Rightarrow> coord \<Rightarrow> bool"
  for unmarshal where
  init: "coord_run unmarshal s [] s"
| step: "coord_run unmarshal s tr s' \<Longrightarrow> coord_step unmarshal s' l out s'' \<Longrightarrow>
    coord_run unmarshal s (tr @ [(l, out)]) s''"

inductive_cases coord_step_cases: "coord_step unmarshal s l out s'"

section \<open>The registry invariant\<close>

text \<open>
  \<open>A\<close> holds the pairs of a connection and the static key its handshake authenticated. Every entry
  of the registry is within the limits and carries the key of the connection that entered it.
\<close>

definition authenticated :: "(coord_label \<times> (conn \<times> bytes) list) list \<Rightarrow> (conn \<times> bytes) set" where
  "authenticated tr = {(c, st). LHandshake c st \<in> fst ` set tr \<and> length st = KeySize}"

definition registration_ok :: "(conn \<times> bytes) set \<Rightarrow> gostring \<Rightarrow> Registration \<Rightarrow> bool" where
  "registration_ok A k r \<longleftrightarrow> rg_ID r = k \<and> k \<noteq> [] \<and> length k \<le> maxIDLen
     \<and> length (endpoints_of (rg_Endpoints r)) \<le> maxEndpointsPerPeer
     \<and> (\<forall>ep\<in>set (endpoints_of (rg_Endpoints r)). length ep \<le> maxEndpointLen)
     \<and> (\<exists>st. (rg_Owner r, st) \<in> A \<and> rg_PubKey r = hex_encode st)"

definition registry_ok :: "(conn \<times> bytes) set \<Rightarrow> coord \<Rightarrow> bool" where
  "registry_ok A s \<longleftrightarrow> gm_ok (co_registrations s)
     \<and> length (co_registrations s) \<le> maxRegistrations
     \<and> (\<forall>k r. map_of (co_registrations s) k = Some r \<longrightarrow> registration_ok A k r)"

definition routines_ok :: "(conn \<times> bytes) set \<Rightarrow> coord \<Rightarrow> bool" where
  "routines_ok A s \<longleftrightarrow> (\<forall>c st m. map_of (co_routines s) c = Some (Serving st)
      \<or> map_of (co_routines s) c = Some (Broadcasting st m) \<longrightarrow> (c, st) \<in> A)"

lemma registration_ok_mono: "registration_ok A k r \<Longrightarrow> A \<subseteq> B \<Longrightarrow> registration_ok B k r"
  by (auto simp: registration_ok_def)

lemma registry_ok_mono: "registry_ok A s \<Longrightarrow> A \<subseteq> B \<Longrightarrow> registry_ok B s"
  using registration_ok_mono by (fastforce simp: registry_ok_def)

lemma routines_ok_mono: "routines_ok A s \<Longrightarrow> A \<subseteq> B \<Longrightarrow> routines_ok B s"
  by (fastforce simp: routines_ok_def)

text \<open>What \<open>cleanupConn\<close> does to one name: it goes only with its own connection.\<close>

lemma cleanupConn_lookup:
  "map_of (co_registrations (cleanupConn c s)) k =
     (if map_of (co_clients s) c = Some k \<and> k \<noteq> []
         \<and> map_option rg_Owner (map_of (co_registrations s) k) = Some c
      then None else map_of (co_registrations s) k)"
  by (auto simp: cleanupConn_def Let_def split: option.splits)

lemma cleanupConn_kept:
  "map_of (co_registrations (cleanupConn c s)) k = Some r \<Longrightarrow> map_of (co_registrations s) k = Some r"
  by (simp add: cleanupConn_lookup split: if_splits)

lemma cleanupConn_fields [simp]:
  "co_routines (cleanupConn c s) = co_routines s" "co_totalRegs (cleanupConn c s) = co_totalRegs s"
  by (simp_all add: cleanupConn_def Let_def)

lemma cleanupConn_length: "length (co_registrations (cleanupConn c s)) \<le> length (co_registrations s)"
  by (simp add: cleanupConn_def Let_def length_delete_le split: option.splits)

lemma cleanupConn_gm_ok: "gm_ok (co_registrations s) \<Longrightarrow> gm_ok (co_registrations (cleanupConn c s))"
  by (simp add: cleanupConn_def Let_def split: option.splits)

lemma cleanupConn_registry: "registry_ok A s \<Longrightarrow> registry_ok A (cleanupConn c s)"
  using cleanupConn_length [of c s]
  by (auto simp: registry_ok_def cleanupConn_gm_ok cleanupConn_lookup split: if_splits)

lemma broadcastLoop_shrinks:
  "broadcastLoop fails line cs s = (s', out) \<Longrightarrow>
     co_routines s' = co_routines s \<and> (registry_ok A s \<longrightarrow> registry_ok A s')
     \<and> (\<forall>k r. map_of (co_registrations s') k = Some r \<longrightarrow> map_of (co_registrations s) k = Some r)"
proof (induction fails line cs s arbitrary: s' out rule: broadcastLoop.induct)
  case (2 fails line c cs s)
  obtain out' where rec: "broadcastLoop fails line cs (if fails c then evict c s else s) = (s', out')"
    using 2(2) by (auto split: prod.splits)
  from 2(1) [OF rec] show ?case
    by (cases "fails c") (auto simp: evict_def cleanupConn_registry dest: cleanupConn_kept)
qed auto

lemma broadcast_shrinks:
  assumes "broadcast fails m s = (s', out)"
  shows "co_routines s' = co_routines s" and "registry_ok A s \<Longrightarrow> registry_ok A s'"
    and "map_of (co_registrations s') k = Some r \<Longrightarrow> map_of (co_registrations s) k = Some r"
  using assms broadcastLoop_shrinks [of fails "EncodeLine m" _ s s' out A]
  by (auto simp: broadcast_def Let_def split: if_splits)

text \<open>A message enters at most one registration, and only one that passed every check.\<close>

lemma validateRegistration_None:
  "validateRegistration m = None \<longleftrightarrow> m_ID m \<noteq> [] \<and> length (m_ID m) \<le> maxIDLen
     \<and> length (endpoints_of (m_Endpoints m)) \<le> maxEndpointsPerPeer
     \<and> (\<forall>ep\<in>set (endpoints_of (m_Endpoints m)). length ep \<le> maxEndpointLen)"
  by (auto simp: validateRegistration_def not_less not_le)

definition entry :: "conn \<Rightarrow> Message \<Rightarrow> Registration" where
  "entry c m = \<lparr>rg_ID = m_ID m, rg_PubKey = m_PubKey m, rg_Endpoints = m_Endpoints m, rg_Owner = c\<rparr>"

definition pin_free :: "coord \<Rightarrow> Message \<Rightarrow> bool" where
  "pin_free s m \<longleftrightarrow> (case map_of (co_registrations s) (m_ID m) of
       None \<Rightarrow> length (co_registrations s) < maxRegistrations
     | Some cur \<Rightarrow> rg_PubKey cur = [] \<or> rg_PubKey cur = m_PubKey m)"

definition enter :: "conn \<Rightarrow> Message \<Rightarrow> coord \<Rightarrow> coord" where
  "enter c m s = s\<lparr>co_registrations := AList.update (m_ID m) (entry c m) (co_registrations s),
     co_clients := AList.update c (m_ID m) (co_clients s), co_totalRegs := co_totalRegs s + 1\<rparr>"

definition peer_list :: "coord \<Rightarrow> Message" where
  "peer_list s = blank_message\<lparr>m_Type := TypePeerList, m_Peers := peer_infos s\<rparr>"

lemma enterRegistration_Inr:
  "enterRegistration c m s = Inr (s', b) \<longleftrightarrow> pin_free s m \<and> s' = enter c m s \<and> b = peer_list s'"
  by (auto simp: enterRegistration_def pin_free_def enter_def entry_def peer_list_def Let_def not_less
      split: option.splits)

lemma handleMessage_cases:
  assumes "handleMessage unmarshal s c st plain now = (s', out, ob)"
  obtains (kept) "s' = s" "ob = None"
  | (entered) msg where "DecodeLine unmarshal plain = Inr msg" "m_Type msg = TypeRegister"
      "validateRegistration msg = None" "m_PubKey msg = hex_encode st" "pin_free s msg"
      "s' = enter c msg s" "out = []" "ob = Some (peer_list s')"
proof (cases "ob = None")
  case True
  then show thesis using assms that(1)
    by (auto simp: handleMessage_def split: sum.splits if_splits option.splits prod.splits)
next
  case False
  then obtain msg b where "DecodeLine unmarshal plain = Inr msg" "m_Type msg \<noteq> TypeQuery"
    "m_Type msg = TypeRegister \<or> m_Type msg = TypeQuery" "validateRegistration msg = None"
    "m_PubKey msg = hex_encode st" "enterRegistration c msg s = Inr (s', b)" "out = []" "ob = Some b"
    using assms by (auto simp: handleMessage_def split: sum.splits if_splits option.splits prod.splits)
  then show thesis using that(2) by (auto simp: enterRegistration_Inr)
qed

lemma enter_registry:
  assumes "registry_ok A s" "(c, st) \<in> A" "validateRegistration m = None"
    "m_PubKey m = hex_encode st" "pin_free s m"
  shows "registry_ok A (enter c m s)"
proof -
  have "registration_ok A (m_ID m) (entry c m)"
    using assms(2-4) by (auto simp: registration_ok_def entry_def validateRegistration_None)
  then show ?thesis using assms(1,5)
    by (auto simp: registry_ok_def enter_def pin_free_def length_update Suc_le_eq update_conv'
        split: option.splits)
qed

lemma handleMessage_registry:
  assumes "handleMessage unmarshal s c st plain now = (s', out, ob)" "registry_ok A s" "(c, st) \<in> A"
  shows "registry_ok A s'"
  using assms(1)
proof (cases rule: handleMessage_cases)
  case (entered msg)
  then show ?thesis using enter_registry [OF assms(2,3)] by blast
qed (use assms(2) in simp)

lemma handleMessage_routines:
  "handleMessage unmarshal s c st plain now = (s', out, ob) \<Longrightarrow> co_routines s' = co_routines s"
  by (erule handleMessage_cases) (simp_all add: enter_def)

text \<open>Only the tables matter to the invariants, and a routine may be replaced by an allowed one.\<close>

lemma registry_ok_cong:
  "co_registrations s = co_registrations s' \<Longrightarrow> registry_ok A s = registry_ok A s'"
  by (simp add: registry_ok_def)

lemma routines_ok_update:
  assumes "routines_ok A s" "co_routines s' = AList.update c r (co_routines s)"
    and "\<And>st. r = Serving st \<or> (\<exists>m. r = Broadcasting st m) \<Longrightarrow> (c, st) \<in> A"
  shows "routines_ok A s'"
  unfolding routines_ok_def
proof (intro allI impI)
  fix d st m
  assume *: "map_of (co_routines s') d = Some (Serving st) \<or> map_of (co_routines s') d = Some (Broadcasting st m)"
  show "(d, st) \<in> A"
  proof (cases "d = c")
    case True then show ?thesis using * assms(2,3) by auto
  next
    case False then show ?thesis using * assms(1,2) unfolding routines_ok_def by auto
  qed
qed

lemma routines_okD:
  "routines_ok A s \<Longrightarrow> map_of (co_routines s) c = Some (Serving st) \<Longrightarrow> (c, st) \<in> A"
  "routines_ok A s \<Longrightarrow> map_of (co_routines s) c = Some (Broadcasting st m) \<Longrightarrow> (c, st) \<in> A"
  by (auto simp: routines_ok_def)

lemma coord_step_ok:
  assumes "coord_step unmarshal s l out s'" "registry_ok A s" "routines_ok A s"
    and "A \<subseteq> B" "\<And>c st. l = LHandshake c st \<Longrightarrow> length st = KeySize \<Longrightarrow> (c, st) \<in> B"
  shows "registry_ok B s' \<and> routines_ok B s'"
proof -
  have B: "registry_ok B s" "routines_ok B s"
    using assms(2-4) registry_ok_mono routines_ok_mono by blast+
  show ?thesis
    using assms(1)
  proof cases
    case (message c st plain now s1 ob)
    have c: "(c, st) \<in> B" by (rule routines_okD(1) [OF B(2) message(3)])
    have "registry_ok B s1" by (rule handleMessage_registry [OF message(4) B(1) c])
    moreover have "co_routines s1 = co_routines s" by (rule handleMessage_routines [OF message(4)])
    ultimately show ?thesis
      using B(2) c routines_ok_update [OF B(2), of _ c "Broadcasting st (the ob)"]
      by (cases ob) (auto simp: message(2) registry_ok_def routines_ok_def)
  next
    case (broadcast c st m fails s1)
    have "(c, st) \<in> B" by (rule routines_okD(2) [OF B(2) broadcast(3)])
    then show ?thesis
      using broadcast_shrinks(1,2) [OF broadcast(4)] B
        routines_ok_update [OF B(2), of s' c "Serving st"] registry_ok_cong [of s' s1]
      by (simp add: broadcast(2))
  next
    case (quit c r)
    have "registry_ok B s'"
      using cleanupConn_registry [OF B(1), of c] registry_ok_cong [of s' "cleanupConn c s"]
      by (simp add: quit(3) Let_def)
    moreover have "routines_ok B s'"
      using B(2) by (auto simp: quit(3) Let_def routines_ok_def delete_conv' split: if_splits)
    ultimately show ?thesis by blast
  next
    case (accept c)
    then show ?thesis
      using B routines_ok_update [OF B(2), of s' c Handshaking] registry_ok_cong [of s' s] by simp
  next
    case (handshake c st)
    then show ?thesis
      using B routines_ok_update [OF B(2), of s' c "Serving st"] registry_ok_cong [of s' s] assms(5)
      by simp
  qed
qed

lemma coord_run_ok:
  "coord_run unmarshal s tr s' \<Longrightarrow> s = newCoord t \<Longrightarrow>
     registry_ok (authenticated tr) s' \<and> routines_ok (authenticated tr) s'"
proof (induction rule: coord_run.induct)
  case (step s tr s' l out s'')
  have "authenticated tr \<subseteq> authenticated (tr @ [(l, out)])" by (auto simp: authenticated_def)
  moreover have "(c, st) \<in> authenticated (tr @ [(l, out)])"
    if "l = LHandshake c st" "length st = KeySize" for c st
    using that by (auto simp: authenticated_def)
  ultimately show ?case using coord_step_ok [OF step(2)] step(3,4) by blast
qed (simp add: registry_ok_def routines_ok_def newCoord_def)

section \<open>Steps of well-behaved clients\<close>

definition owing :: "conn \<Rightarrow> bytes \<Rightarrow> coord \<Rightarrow> coord" where
  "owing c st s = s\<lparr>co_routines := AList.update c (Broadcasting st (peer_list s)) (co_routines s)\<rparr>"

definition serving :: "conn \<Rightarrow> bytes \<Rightarrow> coord \<Rightarrow> coord" where
  "serving c st s = s\<lparr>co_routines := AList.update c (Serving st) (co_routines s)\<rparr>"

lemma handleMessage_entered:
  assumes "DecodeLine unmarshal p = Inr m" "m_Type m = TypeRegister" "validateRegistration m = None"
    "m_PubKey m = hex_encode st" "pin_free s m"
  shows "handleMessage unmarshal s c st p now = (enter c m s, [], Some (peer_list (enter c m s)))"
proof -
  have "enterRegistration c m s = Inr (enter c m s, peer_list (enter c m s))"
    using assms(5) by (simp add: enterRegistration_Inr)
  moreover have "TypeRegister \<noteq> TypeQuery" by (simp add: TypeRegister_def TypeQuery_def)
  ultimately show ?thesis using assms(1-4) by (simp add: handleMessage_def)
qed

lemma enter_routines [simp]: "co_routines (enter c m s) = co_routines s"
  by (simp add: enter_def)

lemma step_register:
  assumes "map_of (co_routines s) c = Some (Serving st)" "DecodeLine unmarshal p = Inr m"
    "m_Type m = TypeRegister" "validateRegistration m = None" "m_PubKey m = hex_encode st" "pin_free s m"
  shows "coord_step unmarshal s (LMessage c p now) [] (owing c st (enter c m s))"
  using coord_step.message [OF assms(1) handleMessage_entered [OF assms(2-6)], of now]
  by (simp add: owing_def)

lemma broadcastLoop_ok: "broadcastLoop (\<lambda>_. False) line cs s = (s, map (\<lambda>d. (d, line)) cs)"
  by (induction cs) simp_all

lemma broadcast_ok:
  "broadcast (\<lambda>_. False) m s = (s, if length (EncodeLine m) > maxControlLineLen then []
     else map (\<lambda>(d, _). (d, EncodeLine m)) (co_ctrlConns s))"
  by (simp add: broadcast_def Let_def broadcastLoop_ok comp_def case_prod_beta)

lemma step_broadcast:
  assumes "map_of (co_routines s) c = Some (Broadcasting st m)"
  shows "coord_step unmarshal s (LBroadcast c) (snd (broadcast (\<lambda>_. False) m s)) (serving c st s)"
  using coord_step.broadcast [OF assms, of "\<lambda>_. False" s "snd (broadcast (\<lambda>_. False) m s)"]
  by (simp add: broadcast_ok serving_def)

lemma run_trans: "coord_run unmarshal s' tr' s'' \<Longrightarrow> coord_run unmarshal s tr s' \<Longrightarrow>
    coord_run unmarshal s (tr @ tr') s''"
proof (induction rule: coord_run.induct)
  case (step a tr' b l out d)
  then show ?case using coord_run.step [of unmarshal s "tr @ tr'" b l out d] by simp
qed simp

lemma run_one: "coord_step unmarshal s l out s' \<Longrightarrow> coord_run unmarshal s [(l, out)] s'"
  using coord_run.step [OF coord_run.init] by fastforce

text \<open>A registration and the broadcast it owes, with nothing in between and no failed write.\<close>

definition registered :: "conn \<Rightarrow> bytes \<Rightarrow> Message \<Rightarrow> coord \<Rightarrow> coord" where
  "registered c st m s = serving c st (owing c st (enter c m s))"

lemma run_register:
  assumes "map_of (co_routines s) c = Some (Serving st)" "DecodeLine unmarshal p = Inr m"
    "m_Type m = TypeRegister" "validateRegistration m = None" "m_PubKey m = hex_encode st" "pin_free s m"
  shows "\<exists>out. coord_run unmarshal s [(LMessage c p now, []), (LBroadcast c, out)] (registered c st m s)"
proof -
  let ?s = "owing c st (enter c m s)"
  have "map_of (co_routines ?s) c = Some (Broadcasting st (peer_list (enter c m s)))"
    by (simp add: owing_def)
  from run_trans [OF run_one [OF step_broadcast [OF this]] run_one [OF step_register [OF assms]], of now]
  show ?thesis by (auto simp: registered_def)
qed

lemma registered_fields [simp]:
  "co_registrations (registered c st m s) = AList.update (m_ID m) (entry c m) (co_registrations s)"
  "co_clients (registered c st m s) = AList.update c (m_ID m) (co_clients s)"
  "co_ctrlConns (registered c st m s) = co_ctrlConns s"
  "map_of (co_routines (registered c st m s)) = (map_of (co_routines s))(c \<mapsto> Serving st)"
  by (simp_all add: registered_def serving_def owing_def enter_def update_conv' fun_upd_def)

definition joined :: "conn \<Rightarrow> bytes \<Rightarrow> coord \<Rightarrow> coord" where
  "joined c st s = s\<lparr>co_clients := AList.update c [] (co_clients s),
     co_ctrlConns := AList.update c () (co_ctrlConns s),
     co_routines := AList.update c (Serving st) (AList.update c Handshaking (co_routines s))\<rparr>"

lemma run_join:
  assumes "map_of (co_routines s) c = None" "length st = KeySize"
  shows "coord_run unmarshal s [(LAccept c, []), (LHandshake c st, [])] (joined c st s)"
proof -
  let ?s = "s\<lparr>co_clients := AList.update c [] (co_clients s),
         co_routines := AList.update c Handshaking (co_routines s)\<rparr>"
  have "map_of (co_routines ?s) c = Some Handshaking" by simp
  from run_trans [OF run_one [OF coord_step.handshake [OF this assms(2)]]
      run_one [OF coord_step.accept [OF assms(1)]]]
  show ?thesis by (simp add: joined_def)
qed

section \<open>Sizes of encoded messages\<close>

lemma json_chars_Nil [simp]: "json_chars [] = []"
  by (simp add: json_chars.simps)

lemma json_chars_plain:
  "\<forall>c\<in>set s. c < 0x80 \<and> 32 \<le> c \<and> c \<notin> {34, 38, 60, 62, 92} \<Longrightarrow> json_chars s = s"
proof (induction s)
  case (Cons c s)
  then have c: "c < 0x80" "32 \<le> c" "c \<notin> {34, 38, 60, 62, 92}" by simp_all
  have "c \<noteq> 8" "c \<noteq> 9" "c \<noteq> 10" "c \<noteq> 12" "c \<noteq> 13" using c(2) by auto
  then have "escape_ascii c = [c]" using c by (simp add: escape_ascii_def not_less)
  moreover have "json_chars s = s" using Cons by simp
  ultimately show ?case using c(1) by (subst json_chars.simps) simp
qed simp






definition register_msg :: "bytes \<Rightarrow> gostring \<Rightarrow> gostring list \<Rightarrow> Message" where
  "register_msg st i eps = blank_message\<lparr>m_Type := TypeRegister, m_ID := i,
     m_PubKey := hex_encode st, m_Endpoints := Some eps\<rparr>"





section \<open>Properties\<close>

text \<open>C30: The limits of the registry hold in every reachable state, for every interleaving of the
  clients: at most 512 names, each at most once, each an ID of 1 to 64 bytes with at most two
  endpoints of at most 255 bytes, and each with the public key that a Noise handshake on the
  owning connection authenticated.\<close>

theorem registry_within_limits:
  assumes "coord_run unmarshal (newCoord t) tr s"
  shows "gm_ok (co_registrations s) \<and> length (co_registrations s) \<le> maxRegistrations
     \<and> (\<forall>k r. map_of (co_registrations s) k = Some r \<longrightarrow> registration_ok (authenticated tr) k r)"
  using coord_run_ok [OF assms refl] by (simp add: registry_ok_def)

text \<open>C29: Key pinning: as long as a name stays in the registry, no step of any client changes the
  public key it is bound to.\<close>

theorem registered_key_pinned:
  assumes "coord_run unmarshal (newCoord t) tr s" "coord_step unmarshal s l out s'"
    and "map_of (co_registrations s) k = Some r" "map_of (co_registrations s') k = Some r'"
  shows "rg_PubKey r' = rg_PubKey r"
  using assms(2)
proof cases
  case (message c st plain now s1 ob)
  have regs: "co_registrations s' = co_registrations s1" by (simp add: message(2) split: option.splits)
  have "registration_ok (authenticated tr) k r"
    using coord_run_ok [OF assms(1) refl] assms(3) by (simp add: registry_ok_def)
  then obtain st' where "length st' = KeySize" "rg_PubKey r = hex_encode st'"
    by (auto simp: registration_ok_def authenticated_def)
  then have "length (rg_PubKey r) = 64" by (simp add: KeySize_def)
  then have ne: "rg_PubKey r \<noteq> []" by auto
  show ?thesis
    using message(4)
  proof (cases rule: handleMessage_cases)
    case (entered msg)
    then show ?thesis using assms(3,4) ne regs
      by (auto simp: enter_def entry_def pin_free_def split: if_splits)
  qed (use assms(3,4) regs in simp)
next
  case (broadcast c st m fails s1)
  then show ?thesis using broadcast_shrinks(3) [OF broadcast(4), of k r'] assms(3,4) by simp
next
  case (quit c r)
  then show ?thesis using cleanupConn_kept [of c s k r'] assms(3,4) by (simp add: Let_def)
qed (use assms(3,4) in simp_all)

text \<open>Registration succeeds when it should: a client whose authenticated key is the one in its
  message, with an ID and endpoints within the limits, for a name that is free while there is
  room or that is bound to the same key, gets the name with the endpoints it gave, and the
  message to be broadcast lists exactly the names of the registry, the new one included.\<close>

theorem registration_succeeds:
  assumes "DecodeLine unmarshal p = Inr m" "m_Type m = TypeRegister" "validateRegistration m = None"
    "m_PubKey m = hex_encode st" "pin_free s m"
    and "coord_run unmarshal (newCoord t) tr s"
  shows "\<exists>s' b. handleMessage unmarshal s c st p now = (s', [], Some b)
     \<and> map_of (co_registrations s') = (map_of (co_registrations s))(m_ID m \<mapsto>
          \<lparr>rg_ID = m_ID m, rg_PubKey = m_PubKey m, rg_Endpoints = m_Endpoints m, rg_Owner = c\<rparr>)
     \<and> m_Type b = TypePeerList
     \<and> pi_ID ` set (m_Peers b) = dom (map_of (co_registrations s'))
     \<and> length (m_Peers b) = length (co_registrations s')"
proof -
  let ?s = "enter c m s"
  have ok: "registry_ok (authenticated tr) s" using coord_run_ok [OF assms(6) refl] by blast
  have id: "\<forall>k r. map_of (co_registrations ?s) k = Some r \<longrightarrow> rg_ID r = k"
    using ok by (simp add: enter_def entry_def registry_ok_def registration_ok_def)
  have "gm_ok (co_registrations ?s)" using ok by (simp add: enter_def registry_ok_def)
  then have "rg_ID r = k" if "(k, r) \<in> set (co_registrations ?s)" for k r
    using id that by (simp add: map_of_is_SomeI)
  then have "(\<lambda>(k, r). rg_ID r) ` set (co_registrations ?s) = fst ` set (co_registrations ?s)"
    by (intro image_cong) auto
  then have "pi_ID ` set (m_Peers (peer_list ?s)) = dom (map_of (co_registrations ?s))"
    by (simp add: peer_list_def peer_infos_def image_image dom_map_of_conv_image_fst case_prod_beta)
  moreover have "map_of (co_registrations ?s) = (map_of (co_registrations s))(m_ID m \<mapsto>
          \<lparr>rg_ID = m_ID m, rg_PubKey = m_PubKey m, rg_Endpoints = m_Endpoints m, rg_Owner = c\<rparr>)"
    by (simp add: enter_def entry_def update_conv')
  moreover have "m_Type (peer_list ?s) = TypePeerList"
      "length (m_Peers (peer_list ?s)) = length (co_registrations ?s)"
    by (simp_all add: peer_list_def peer_infos_def)
  ultimately show ?thesis
    by (intro exI [of _ ?s] exI [of _ "peer_list ?s"] conjI handleMessage_entered [OF assms(1-5)])
qed



text \<open>A client that registers a second name and then goes away leaves its first name behind:
  the connection is gone, nothing will release the entry, and the name stays bound to its key.\<close>

theorem renamed_peer_leaks_name:
  assumes "map_of (co_routines s) c = Some (Serving st)"
    and "DecodeLine unmarshal p = Inr (register_msg st a eps)"
      "validateRegistration (register_msg st a eps) = None" "map_of (co_registrations s) a = None"
    and "DecodeLine unmarshal q = Inr (register_msg st b eps)"
      "validateRegistration (register_msg st b eps) = None" "map_of (co_registrations s) b = None"
    and "a \<noteq> b" "length (co_registrations s) + 1 < maxRegistrations"
  shows "\<exists>tr s'. coord_run unmarshal s tr s'
     \<and> map fst tr = [LMessage c p now, LBroadcast c, LMessage c q now, LBroadcast c, LQuit c]
     \<and> map_of (co_routines s') c = None \<and> map_of (co_clients s') c = None
     \<and> map_option rg_Owner (map_of (co_registrations s') a) = Some c
     \<and> map_of (co_registrations s') b = None"
proof -
  let ?m = "register_msg st a eps" and ?n = "register_msg st b eps"
  have m: "m_Type (register_msg st i eps) = TypeRegister" "m_ID (register_msg st i eps) = i"
    "m_PubKey (register_msg st i eps) = hex_encode st" for i
    by (simp_all add: register_msg_def)
  let ?s1 = "registered c st ?m s" let ?s2 = "registered c st ?n ?s1"
  have "pin_free s ?m" using assms(4,9) by (simp add: pin_free_def m)
  from run_register [OF assms(1,2) m(1) assms(3) m(3) this, of now]
  obtain o1 where r1: "coord_run unmarshal s [(LMessage c p now, []), (LBroadcast c, o1)] ?s1" ..
  have "map_of (co_registrations ?s1) b = None" using assms(7,8) by (simp add: m)
  moreover have "length (co_registrations ?s1) < maxRegistrations"
    using assms(9) by (simp add: length_update)
  ultimately have "pin_free ?s1 ?n" by (simp add: pin_free_def m)
  then obtain o2 where r2: "coord_run unmarshal ?s1 [(LMessage c q now, []), (LBroadcast c, o2)] ?s2"
    using run_register [OF _ assms(5) m(1) assms(6) m(3)] by force
  let ?s3 = "(cleanupConn c ?s2)\<lparr>co_routines := AList.delete c (co_routines (cleanupConn c ?s2))\<rparr>"
  have "map_of (co_routines ?s2) c = Some (Serving st)" by simp
  from coord_step.quit [OF this, of unmarshal]
  have r3: "coord_run unmarshal ?s2 [(LQuit c, [])] ?s3"
    by (intro run_one) (simp add: Let_def)
  have "b \<noteq> []" using assms(6) by (simp add: validateRegistration_None m)
  then have "map_option rg_Owner (map_of (co_registrations ?s3) a) = Some c"
    "map_of (co_registrations ?s3) b = None"
    using assms(8) by (simp_all add: cleanupConn_lookup m entry_def)
  moreover have "map_of (co_routines ?s3) c = None" "map_of (co_clients ?s3) c = None"
    by (simp_all add: delete_conv' cleanupConn_def Let_def)
  ultimately show ?thesis
    using run_trans [OF r3 run_trans [OF r2 r1]]
    by (intro exI [of _ "[(LMessage c p now, []), (LBroadcast c, o1)] @ [(LMessage c q now, []), (LBroadcast c, o2)]
      @ [(LQuit c, [])]"] exI [of _ ?s3]) simp
qed

text \<open>Peer lists can arrive in the wrong order: two registrations are entered one after the
  other, but because the broadcasts happen outside the lock the older list can be written last.
  The last list that every client then has does not mention a peer that is registered.\<close>

theorem stale_list_broadcast_last:
  assumes "coord_run unmarshal (newCoord t) tr0 s" "c \<noteq> d"
    and "map_of (co_routines s) c = Some (Serving st)" "map_of (co_routines s) d = Some (Serving st')"
    and "DecodeLine unmarshal p = Inr m" "m_Type m = TypeRegister" "validateRegistration m = None"
      "m_PubKey m = hex_encode st" "map_of (co_registrations s) (m_ID m) = None"
    and "DecodeLine unmarshal q = Inr m'" "m_Type m' = TypeRegister" "validateRegistration m' = None"
      "m_PubKey m' = hex_encode st'" "map_of (co_registrations s) (m_ID m') = None"
    and "m_ID m \<noteq> m_ID m'" "length (co_registrations s) + 1 < maxRegistrations"
    and "length (EncodeLine (peer_list (enter c m s))) \<le> maxControlLineLen"
  shows "\<exists>o1 b s'. coord_run unmarshal s
        [(LMessage c p now, []), (LMessage d q now, []), (LBroadcast d, o1),
         (LBroadcast c, map (\<lambda>(x, _). (x, EncodeLine b)) (co_ctrlConns s))] s'
     \<and> co_ctrlConns s' = co_ctrlConns s
     \<and> m_ID m' \<in> dom (map_of (co_registrations s')) \<and> m_ID m' \<notin> pi_ID ` set (m_Peers b)"
proof -
  let ?s1 = "owing c st (enter c m s)"
  let ?s2 = "owing d st' (enter d m' ?s1)"
  let ?s3 = "serving d st' ?s2" and ?b = "peer_list (enter c m s)"
  have "pin_free s m" using assms(9,16) by (simp add: pin_free_def)
  note r1 = run_one [OF step_register [OF assms(3,5-8) this, of now]]
  have "map_of (co_routines ?s1) d = Some (Serving st')" using assms(2,4) by (simp add: owing_def)
  moreover have "pin_free ?s1 m'"
    using assms(14,15,16) by (simp add: pin_free_def owing_def enter_def length_update)
  ultimately have r2: "coord_run unmarshal ?s1 [(LMessage d q now, [])] ?s2"
    by (intro run_one step_register [OF _ assms(10-13)])
  have "map_of (co_routines ?s2) d = Some (Broadcasting st' (peer_list (enter d m' ?s1)))"
    by (simp add: owing_def)
  note r3 = run_one [OF step_broadcast [OF this, of unmarshal]]
  have "map_of (co_routines ?s3) c = Some (Broadcasting st ?b)"
    using assms(2) by (simp add: owing_def serving_def)
  note r4 = run_one [OF step_broadcast [OF this, of unmarshal]]
  have conns: "co_ctrlConns ?s3 = co_ctrlConns s" by (simp add: owing_def serving_def enter_def)
  have "snd (broadcast (\<lambda>_. False) ?b ?s3) = map (\<lambda>(x, _). (x, EncodeLine ?b)) (co_ctrlConns s)"
    using assms(17) by (simp add: broadcast_ok conns not_less)
  note run = run_trans [OF r4 [unfolded this] run_trans [OF r3 run_trans [OF r2 r1]]]
  have ok: "registry_ok (authenticated tr0) s" using coord_run_ok [OF assms(1) refl] by blast
  have "m_ID m' \<notin> pi_ID ` set (m_Peers ?b)"
  proof
    assume "m_ID m' \<in> pi_ID ` set (m_Peers ?b)"
    then obtain k r where k: "(k, r) \<in> set (co_registrations (enter c m s))" "rg_ID r = m_ID m'"
      by (auto simp: peer_list_def peer_infos_def)
    have "gm_ok (co_registrations (enter c m s))" using ok by (simp add: enter_def registry_ok_def)
    then have "map_of (co_registrations (enter c m s)) k = Some r" using k(1) by (rule map_of_is_SomeI)
    then show False using k(2) ok assms(14,15)
      by (auto simp: enter_def entry_def registry_ok_def registration_ok_def split: if_splits)
  qed
  moreover have "m_ID m' \<in> dom (map_of (co_registrations (serving c st ?s3)))"
    by (simp add: serving_def owing_def enter_def)
  moreover have "co_ctrlConns (serving c st ?s3) = co_ctrlConns s" using conns by (simp add: serving_def)
  ultimately show ?thesis using run by auto
qed

section \<open>Witnesses\<close>

text \<open>A decoder under which a message is a name and the rest is fixed, and some names.\<close>

definition demo_key :: bytes where "demo_key = replicate 32 1"

definition demo_unmarshal :: "gostring list \<Rightarrow> bytes \<Rightarrow> Message option" where
  "demo_unmarshal eps b = Some (register_msg demo_key b eps)"

definition demo_name :: "nat \<Rightarrow> gostring" where
  "demo_name i = hex_encode [of_nat (i div 256), of_nat (i mod 256)]"

lemma demo_name_length: "length (demo_name i) = 4"
  by (simp add: demo_name_def)

lemma demo_name_inj: "i < 65536 \<Longrightarrow> j < 65536 \<Longrightarrow> demo_name i = demo_name j \<Longrightarrow> i = j"
proof -
  assume ij: "i < 65536" "j < 65536" "demo_name i = demo_name j"
  then have "[of_nat (i div 256), of_nat (i mod 256)] = [of_nat (j div 256), of_nat (j mod 256) :: byte]"
    using hex_roundtrip unfolding demo_name_def by (metis sum.inject(2))
  then have "unat (of_nat (i div 256) :: byte) = unat (of_nat (j div 256) :: byte)"
    "unat (of_nat (i mod 256) :: byte) = unat (of_nat (j mod 256) :: byte)" by simp_all
  moreover have "unat (of_nat n :: byte) = n" if "n < 256" for n using that by (simp add: unat_of_nat)
  ultimately have "i div 256 = j div 256" "i mod 256 = j mod 256" using ij(1,2) by simp_all
  then show "i = j" by (metis div_mult_mod_eq)
qed

lemma demo_decode:
  "DecodeLine (demo_unmarshal eps) (demo_name i) = Inr (register_msg demo_key (demo_name i) eps)"
proof -
  have "TrimSpace (demo_name i) = demo_name i"
    unfolding demo_name_def using hex_encode_chars by (intro TrimSpace_hex) blast
  moreover have "demo_name i \<noteq> []" using demo_name_length [of i] by auto
  ultimately show ?thesis by (simp add: DecodeLine_def demo_unmarshal_def)
qed

lemma demo_fields [simp]:
  "m_Type (register_msg st i eps) = TypeRegister" "m_ID (register_msg st i eps) = i"
  "m_PubKey (register_msg st i eps) = hex_encode st" "m_Endpoints (register_msg st i eps) = Some eps"
  by (simp_all add: register_msg_def)

lemma demo_valid: "validateRegistration (register_msg st (demo_name i) []) = None"
  using demo_name_length [of i]
  by (auto simp: validateRegistration_None endpoints_of_def maxIDLen_def maxEndpointsPerPeer_def)

definition demo_joined :: coord where "demo_joined = joined 2 demo_key (joined 1 demo_key (newCoord 0))"

lemma demo_joined_run: "\<exists>tr. coord_run unmarshal (newCoord 0) tr demo_joined"
proof -
  have k: "length demo_key = KeySize" by (simp add: demo_key_def KeySize_def)
  have "coord_run unmarshal (newCoord 0) [(LAccept 1, []), (LHandshake 1 demo_key, [])]
      (joined 1 demo_key (newCoord 0))"
    by (rule run_join [OF _ k]) (simp add: newCoord_def)
  moreover have "coord_run unmarshal (joined 1 demo_key (newCoord 0))
      [(LAccept 2, []), (LHandshake 2 demo_key, [])] demo_joined"
    unfolding demo_joined_def by (rule run_join [OF _ k]) (simp add: newCoord_def joined_def)
  ultimately show ?thesis using run_trans by blast
qed

lemma demo_joined_fields [simp]:
  "map_of (co_routines demo_joined) (Suc 0) = Some (Serving demo_key)"
  "map_of (co_routines demo_joined) 2 = Some (Serving demo_key)"
  "co_registrations demo_joined = []" "co_ctrlConns demo_joined = [(1, ()), (2, ())]"
  by (simp_all add: demo_joined_def joined_def newCoord_def)

lemma demo_free: "pin_free demo_joined m"
  by (simp add: pin_free_def maxRegistrations_def)

abbreviation demo_msg :: "nat \<Rightarrow> Message" where
  "demo_msg i \<equiv> register_msg demo_key (demo_name i) []"

definition demo_registered :: coord where
  "demo_registered = registered 1 demo_key (demo_msg 0) demo_joined"

lemma demo_registered_run: "\<exists>tr. coord_run (demo_unmarshal []) (newCoord 0) tr demo_registered"
proof -
  obtain tr where tr: "coord_run (demo_unmarshal []) (newCoord 0) tr demo_joined"
    using demo_joined_run by blast
  show ?thesis
    using run_register [of demo_joined 1 demo_key "demo_unmarshal []" "demo_name 0" "demo_msg 0" 0,
        OF _ demo_decode _ demo_valid _ demo_free] run_trans [OF _ tr]
    unfolding demo_registered_def by auto
qed

theorem registry_within_limits_witness:
  "map_of (co_registrations demo_registered) (demo_name 0) \<noteq> None
     \<and> length (co_registrations demo_registered) \<le> maxRegistrations"
proof -
  obtain tr where "coord_run (demo_unmarshal []) (newCoord 0) tr demo_registered"
    using demo_registered_run by blast
  from registry_within_limits [OF this] show ?thesis by (simp add: demo_registered_def)
qed

theorem registration_succeeds_witness:
  "\<exists>s' b. handleMessage (demo_unmarshal []) demo_joined 2 demo_key (demo_name 5) 0 = (s', [], Some b)
     \<and> length (m_Peers b) = length (co_registrations s')"
proof -
  obtain tr where "coord_run (demo_unmarshal []) (newCoord 0) tr demo_joined"
    using demo_joined_run by blast
  from registration_succeeds [OF demo_decode _ demo_valid _ demo_free this]
  show ?thesis by simp blast
qed


lemma demo_names_differ: "demo_name 0 \<noteq> demo_name 1"
  using demo_name_inj [of 0 1] by auto

theorem renamed_peer_leaks_name_witness:
  "\<exists>tr s'. coord_run (demo_unmarshal []) demo_joined tr s' \<and> map_of (co_clients s') 1 = None
     \<and> map_option rg_Owner (map_of (co_registrations s') (demo_name 0)) = Some 1"
  using renamed_peer_leaks_name [OF _ demo_decode demo_valid _ demo_decode demo_valid _ demo_names_differ,
      of demo_joined 1 0] by (auto simp: maxRegistrations_def)

lemma json_chars_hex: "json_chars (hex_encode x) = hex_encode x"
proof (rule json_chars_plain, rule ballI)
  fix c assume "c \<in> set (hex_encode x)"
  then have "from_hex c \<noteq> None" by (rule hex_encode_chars)
  then show "c < 0x80 \<and> 32 \<le> c \<and> c \<notin> {34, 38, 60, 62, 92}"
    by (auto simp: from_hex_def word_le_nat_alt word_less_nat_alt split: if_splits)
qed

lemma demo_line_length: "length (EncodeLine (peer_list (enter 1 (demo_msg 0) demo_joined))) \<le> maxControlLineLen"
proof -
  have p: "json_chars (lit ''peer_list'') = lit ''peer_list''"
    by (rule json_chars_plain) simp
  have n: "json_chars (demo_name 0) = demo_name 0" unfolding demo_name_def by (rule json_chars_hex)
  show ?thesis
    by (simp add: EncodeLine_def json_Message_def peer_list_def blank_message_def peer_infos_def enter_def
        entry_def TypePeerList_def json_object_def json_list_def json_string_def json_PeerInfo_def
        json_strings_def join_def p [simplified] n json_chars_hex demo_name_length demo_key_def
        maxControlLineLen_def)
qed

theorem stale_list_broadcast_last_witness:
  "\<exists>tr b s'. coord_run (demo_unmarshal []) demo_joined
       (tr @ [(LBroadcast 1, [(1, EncodeLine b), (2, EncodeLine b)])]) s'
     \<and> demo_name 1 \<in> dom (map_of (co_registrations s')) \<and> demo_name 1 \<notin> pi_ID ` set (m_Peers b)"
proof -
  obtain tr where "coord_run (demo_unmarshal []) (newCoord 0) tr demo_joined"
    using demo_joined_run by blast
  then obtain o1 b s' where "coord_run (demo_unmarshal []) demo_joined
        [(LMessage 1 (demo_name 0) 0, []), (LMessage 2 (demo_name 1) 0, []), (LBroadcast 2, o1),
         (LBroadcast 1, map (\<lambda>(x, _). (x, EncodeLine b)) (co_ctrlConns demo_joined))] s'"
     "demo_name 1 \<in> dom (map_of (co_registrations s'))" "demo_name 1 \<notin> pi_ID ` set (m_Peers b)"
    using stale_list_broadcast_last [of "demo_unmarshal []" 0 tr demo_joined 1 2 demo_key demo_key
        "demo_name 0" "demo_msg 0" "demo_name 1" "demo_msg 1" 0]
      demo_decode demo_valid demo_line_length demo_names_differ
    by (auto simp: maxRegistrations_def)
  then show ?thesis
    by (intro exI [of _ "[(LMessage 1 (demo_name 0) 0, []), (LMessage 2 (demo_name 1) 0, []), (LBroadcast 2, o1)]"]
          exI [of _ b] exI [of _ s']) simp
qed

text \<open>A step that changes the entry: another connection with the same key takes the name over.\<close>

theorem registered_key_pinned_witness:
  "\<exists>out s' r'. coord_step (demo_unmarshal []) demo_registered (LMessage 2 (demo_name 0) 0) out s'
      \<and> map_of (co_registrations s') (demo_name 0) = Some r' \<and> rg_Owner r' = 2
      \<and> rg_PubKey r' = rg_PubKey (entry 1 (demo_msg 0))"
proof -
  obtain tr where run: "coord_run (demo_unmarshal []) (newCoord 0) tr demo_registered"
    using demo_registered_run by blast
  have r: "map_of (co_registrations demo_registered) (demo_name 0) = Some (entry 1 (demo_msg 0))"
    by (simp add: demo_registered_def)
  then have "pin_free demo_registered (demo_msg 0)" by (simp add: pin_free_def entry_def)
  from step_register [OF _ demo_decode _ demo_valid _ this]
  have st: "coord_step (demo_unmarshal []) demo_registered (LMessage 2 (demo_name 0) 0) []
      (owing 2 demo_key (enter 2 (demo_msg 0) demo_registered))"
    by (simp add: demo_registered_def)
  have r': "map_of (co_registrations (owing 2 demo_key (enter 2 (demo_msg 0) demo_registered)))
      (demo_name 0) = Some (entry 2 (demo_msg 0))"
    by (simp add: owing_def enter_def)
  from registered_key_pinned [OF run st r r'] st r' show ?thesis
    by (metis entry_def Registration.select_convs(4))
qed

end
