(* ===== verification/Directory.thy ===== *)
theory Directory
  imports Coordinator
begin

text \<open>
  What the coordinator promises its clients, as a directory of names that is written by whole
  announcements and withdrawals, and the proof that the server with its interleaved client
  goroutines, its registry and its session tables implements it.
\<close>

section \<open>The specification\<close>















section \<open>The registry as a directory\<close>










section \<open>The simulation\<close>








section \<open>Witness\<close>


end
