(* ===== verification/Disco.thy ===== *)
theory Disco
  imports Prelude
begin

text \<open>
  The policy of path discovery, \<^verbatim>\<open>internal/disco/disco.go\<close>: the paths, the timing constants and
  the role of a peer, which both ends of a pair derive from their names alone.
\<close>

section \<open>Paths\<close>

datatype path = PathNone | PathDirect | PathRelay

text \<open>The constants are an \<^verbatim>\<open>iota\<close> enumeration of \<^verbatim>\<open>int\<close>; paths are ordered by their numbers.\<close>

fun path_number :: "path \<Rightarrow> int" where
  "path_number PathNone = 0"
| "path_number PathDirect = 1"
| "path_number PathRelay = 2"

lemma path_number_inj [simp]: "path_number p = path_number q \<longleftrightarrow> p = q"
  by (cases p; cases q) simp_all

instantiation path :: linorder
begin

definition less_eq_path :: "path \<Rightarrow> path \<Rightarrow> bool" where
  "p \<le> q \<longleftrightarrow> path_number p \<le> path_number q"

definition less_path :: "path \<Rightarrow> path \<Rightarrow> bool" where
  "p < q \<longleftrightarrow> path_number p < path_number q"

instance
  by intro_classes (auto simp: less_eq_path_def less_path_def simp del: path_number_inj
      simp flip: path_number_inj)

end

definition Path_String :: "path \<Rightarrow> gostring" where
  "Path_String p = (case p of PathDirect \<Rightarrow> lit ''direct'' | PathRelay \<Rightarrow> lit ''relay''
     | PathNone \<Rightarrow> lit ''none'')"

section \<open>Timing\<close>

definition ProbeInterval :: duration where "ProbeInterval = 500 * millisecond"
definition DirectAttempt :: duration where "DirectAttempt = 3 * second"
definition RelayAttempt :: duration where "RelayAttempt = 3 * second"
definition KeepaliveInterval :: duration where "KeepaliveInterval = 10 * second"
definition ReestablishInterval :: duration where "ReestablishInterval = 10 * second"
definition HS1ResendInterval :: duration where "HS1ResendInterval = 500 * millisecond"

lemmas disco_timing = ProbeInterval_def DirectAttempt_def RelayAttempt_def KeepaliveInterval_def
  ReestablishInterval_def HS1ResendInterval_def

section \<open>Roles\<close>

text \<open>Go compares strings byte by byte, as the lexicographic order of byte lists does.\<close>

definition RoleIsInitiator :: "gostring \<Rightarrow> gostring \<Rightarrow> bool" where
  "RoleIsInitiator myID peerID \<longleftrightarrow> myID < peerID"

lemma roles_split: "a \<noteq> b \<Longrightarrow> RoleIsInitiator a b \<noteq> RoleIsInitiator b a"
  by (auto simp: RoleIsInitiator_def)

end
