(* ===== verification/Peer.thy ===== *)
theory Peer
  imports Disco Framing Replay_Window Noise_Handshake Relay
begin

text \<open>
  A peer session, \<^verbatim>\<open>internal/peer/peer.go\<close>: hole punching, the Noise handshake in both roles,
  the choice between the direct and the relayed path, and encrypted data with its replay gate.
  Every function that runs under the mutex is one function on the state; datagrams are sent
  after the mutex is released and are the effects of the function, in order. \<open>None\<close> is a panic,
  of \<^verbatim>\<open>record.Frame\<close> or of an index. Instants, randomness and whether a transport call succeeds are
  arguments, and so is the relay's address, the only answer a transport gives.
\<close>

section \<open>Constants and state\<close>

definition Prologue :: bytes where "Prologue = lit ''meshlink-v1''"
definition nonceWireLen :: nat where "nonceWireLen = 8"
definition hs1MaxPerSec :: int where "hs1MaxPerSec = 8"
definition sessionMaxAge :: duration where "sessionMaxAge = 24 * 3600 * second"
definition responderHandshakeTimeout :: duration where "responderHandshakeTimeout = 10 * second"
definition recvBuffer :: nat where "recvBuffer = 64"

record ('h, 'c) peer =
  p_ID :: gostring
  p_DirectEP :: "UDPAddr option"
  p_myKp :: "Keypair option"
  p_peerStatic :: bytes
  p_initiator :: bool
  p_mode :: path
  p_path :: path
  p_responder :: "('h, 'c) responder option"
  p_initiatorHS :: "('h, 'c) initiator option"
  p_hs1Frame :: "bytes option"
  p_hs1Msg :: "bytes option"
  p_hs2Frame :: "bytes option"
  p_hs2SentAt :: gotime
  p_hs3Frame :: "bytes option"
  p_hs3Pending :: bool
  p_lastHS3 :: gotime
  p_sess :: "'c session option"
  p_replay :: replay_window
  p_established :: bool
  p_sessSince :: gotime
  p_phaseStart :: gotime
  p_lastHS1 :: gotime
  p_lastSent :: gotime
  p_closed :: bool
  p_recvClosed :: bool
  p_hsBurst :: "gotime \<times> int"   \<comment> \<open>\<^verbatim>\<open>hsBurstStart\<close> and \<^verbatim>\<open>hsBurstCount\<close>\<close>
  p_rekeyCount :: u64
  p_bytesTx :: u64
  p_bytesRx :: u64
  p_done :: bool
  p_recv :: "bytes list"         \<comment> \<open>what the channel buffers\<close>

text \<open>
  What a function does besides changing the state: it hands datagrams to the transport. The
  last two mark, for the statements below, that a data frame was accepted and that a session
  was installed.
\<close>

datatype effect =
    SendDirect UDPAddr bytes
  | SendRelay gostring bytes
  | Accepted u64 bytes
  | Installed

definition newPeer ::
    "gostring \<Rightarrow> gostring \<Rightarrow> bytes \<Rightarrow> UDPAddr option \<Rightarrow> Keypair option \<Rightarrow> ('h, 'c) peer" where
  "newPeer myID pid peerStatic directEP myKp =
     \<lparr>p_ID = pid, p_DirectEP = directEP, p_myKp = myKp, p_peerStatic = peerStatic,
      p_initiator = RoleIsInitiator myID pid, p_mode = PathNone, p_path = PathNone,
      p_responder = None, p_initiatorHS = None, p_hs1Frame = None, p_hs1Msg = None,
      p_hs2Frame = None, p_hs2SentAt = 0, p_hs3Frame = None, p_hs3Pending = False, p_lastHS3 = 0,
      p_sess = None, p_replay = newReplayWindow replayWindowSizeBits, p_established = False,
      p_sessSince = 0, p_phaseStart = 0, p_lastHS1 = 0, p_lastSent = 0, p_closed = False,
      p_recvClosed = False, p_hsBurst = (0, 0), p_rekeyCount = 0, p_bytesTx = 0, p_bytesRx = 0,
      p_done = False, p_recv = []\<rparr>"

definition ClosePeer :: "('h, 'c) peer \<Rightarrow> ('h, 'c) peer" where
  "ClosePeer p = p\<lparr>p_closed := True, p_done := True\<rparr>"

definition RemoteStatic :: "('h, 'c) peer \<Rightarrow> bytes option" where
  "RemoteStatic p = (case p_sess p of None \<Rightarrow> None | Some s \<Rightarrow> PeerStatic s)"

definition SessionAge :: "gotime \<Rightarrow> ('h, 'c) peer \<Rightarrow> duration" where
  "SessionAge now p = (case p_sess p of None \<Rightarrow> 0 | Some s \<Rightarrow> Age s now)"

definition DirectEndpoint :: "('h, 'c) peer \<Rightarrow> UDPAddr option" where
  "DirectEndpoint p = p_DirectEP p"

section \<open>Sending\<close>

definition addressFor :: "UDPAddr option \<Rightarrow> path \<Rightarrow> ('h, 'c) peer \<Rightarrow> UDPAddr option" where
  "addressFor relay mode p = (if mode = PathRelay then relay else p_DirectEP p)"

text \<open>The transport call of \<open>sendFrame\<close>; none when there is no direct endpoint, an error.\<close>

definition sendFrame :: "('h, 'c) peer \<Rightarrow> path \<Rightarrow> UDPAddr option \<Rightarrow> bytes \<Rightarrow> effect option" where
  "sendFrame p mode addr frame =
     (if mode = PathRelay then Some (SendRelay (p_ID p) frame)
      else (case addr of None \<Rightarrow> None | Some a \<Rightarrow> Some (SendDirect a frame)))"

definition emit :: "effect option \<Rightarrow> effect list" where
  "emit e = (case e of None \<Rightarrow> [] | Some x \<Rightarrow> [x])"

section \<open>Path selection\<close>

definition attemptFor :: "path \<Rightarrow> duration" where
  "attemptFor mode = (if mode = PathRelay then RelayAttempt else DirectAttempt)"

definition resetHandshakeLocked :: "('h, 'c) peer \<Rightarrow> ('h, 'c) peer" where
  "resetHandshakeLocked p = p\<lparr>p_initiatorHS := None, p_hs1Frame := None, p_hs3Frame := None,
     p_hs3Pending := False, p_responder := None, p_hs1Msg := None, p_hs2Frame := None\<rparr>"

definition switchMode ::
    "UDPAddr option \<Rightarrow> gotime \<Rightarrow> path \<Rightarrow> ('h, 'c) peer \<Rightarrow> ('h, 'c) peer" where
  "switchMode relay now current p = (case current of
       PathDirect \<Rightarrow> if relay \<noteq> None
         then (resetHandshakeLocked (p\<lparr>p_mode := PathRelay\<rparr>))\<lparr>p_phaseStart := now\<rparr> else p
     | PathRelay \<Rightarrow> if p_DirectEP p \<noteq> None
         then (resetHandshakeLocked (p\<lparr>p_mode := PathDirect\<rparr>))\<lparr>p_phaseStart := now\<rparr> else p
     | PathNone \<Rightarrow> p)"

definition abandonRoaming :: "gotime \<Rightarrow> ('h, 'c) peer \<Rightarrow> ('h, 'c) peer" where
  "abandonRoaming now p =
     (if p_mode p \<noteq> PathDirect then p
      else (resetHandshakeLocked (p\<lparr>p_mode := PathRelay\<rparr>))\<lparr>p_phaseStart := now\<rparr>)"

definition forceRehandshake :: "gotime \<Rightarrow> ('h, 'c) peer \<Rightarrow> ('h, 'c) peer" where
  "forceRehandshake now p =
     (resetHandshakeLocked (p\<lparr>p_sess := None, p_replay := newReplayWindow replayWindowSizeBits,
        p_established := False\<rparr>))\<lparr>p_phaseStart := now\<rparr>"

definition SetDirectEP :: "UDPAddr option \<Rightarrow> ('h, 'c) peer \<Rightarrow> ('h, 'c) peer" where
  "SetDirectEP ep p = p\<lparr>p_DirectEP := ep\<rparr>"

section \<open>The initiator\<close>

text \<open>A fresh handshake machine and its first message, as \<open>punch\<close> and \<open>retryDirect\<close> make them.\<close>

definition newHS1 ::
    "('h, 'c, 'r) handshake_api \<Rightarrow> 'r \<Rightarrow> ('h, 'c) peer
     \<Rightarrow> handshake_error + ('h, 'c) initiator \<times> bytes" where
  "newHS1 hapi rnd p =
     (case NewInitiator hapi rnd (p_myKp p) (Some (p_peerStatic p)) (Some Prologue) of
        Inl e \<Rightarrow> Inl e
      | Inr hs \<Rightarrow> (case Message1 hapi hs of
                     (Inl e, _) \<Rightarrow> Inl e
                   | (Inr msg1, hs) \<Rightarrow> Inr (hs, msg1)))"

text \<open>The effect of \<open>punch\<close> is an option: \<open>None\<close> is its error.\<close>

definition punch ::
    "('h, 'c, 'r) handshake_api \<Rightarrow> 'r \<Rightarrow> UDPAddr option \<Rightarrow> gotime \<Rightarrow> path \<Rightarrow> ('h, 'c) peer
     \<Rightarrow> (('h, 'c) peer \<times> effect option) option" where
  "punch hapi rnd relay now mode p =
     (if p_initiator p \<and> time_sub now (p_lastHS1 p) \<ge> HS1ResendInterval then
        (case p_hs1Frame p of
           Some f \<Rightarrow> Some (p\<lparr>p_lastHS1 := now\<rparr>, sendFrame p mode (addressFor relay mode p) f)
         | None \<Rightarrow>
             (case newHS1 hapi rnd p of
                Inl e \<Rightarrow> Some (p, None)
              | Inr (hs, msg1) \<Rightarrow>
                  (case Frame TypeHS1 msg1 of
                     None \<Rightarrow> None
                   | Some f \<Rightarrow>
                       Some (p\<lparr>p_initiatorHS := Some hs, p_hs1Frame := Some f, p_lastHS1 := now\<rparr>,
                             sendFrame p mode (addressFor relay mode p) f))))
      else (case Frame TypeProbe [] of
              None \<Rightarrow> None
            | Some f \<Rightarrow> Some (p, sendFrame p mode (addressFor relay mode p) f)))"

definition retryDirect ::
    "('h, 'c, 'r) handshake_api \<Rightarrow> 'r \<Rightarrow> gotime \<Rightarrow> ('h, 'c) peer
     \<Rightarrow> (('h, 'c) peer \<times> effect list) option" where
  "retryDirect hapi rnd now p =
     (case newHS1 hapi rnd p of
        Inl e \<Rightarrow> Some (p, [])
      | Inr (hs, msg1) \<Rightarrow>
          (case Frame TypeHS1 msg1 of
             None \<Rightarrow> None
           | Some f \<Rightarrow>
               Some (p\<lparr>p_initiatorHS := Some hs, p_hs1Frame := Some f, p_hs3Frame := None,
                       p_hs3Pending := False, p_responder := None, p_hs1Msg := None,
                       p_hs2Frame := None, p_mode := PathDirect, p_lastHS1 := now,
                       p_phaseStart := now\<rparr>,
                     emit (map_option (\<lambda>a. SendDirect a f) (p_DirectEP p)))))"

text \<open>
  \<open>setSessionLocked\<close>: a session that comes out of a handshake is a new object, so it always
  differs from the current one.
\<close>

definition setSessionLocked ::
    "gotime \<Rightarrow> 'c session \<Rightarrow> path \<Rightarrow> ('h, 'c) peer \<Rightarrow> ('h, 'c) peer \<times> effect list" where
  "setSessionLocked now sess path p =
     (if length (raw (PeerStatic sess)) \<noteq> 32 then (p, [])
      else if raw (PeerStatic sess) \<noteq> p_peerStatic p then (p, [])
      else (p\<lparr>p_rekeyCount := (if p_sess p \<noteq> None then p_rekeyCount p + 1 else p_rekeyCount p),
              p_sess := Some sess, p_replay := newReplayWindow replayWindowSizeBits,
              p_established := True, p_path := path, p_mode := path, p_sessSince := now,
              p_lastSent := now\<rparr>, [Installed]))"

definition onHS2 ::
    "('h, 'c, 'r) handshake_api \<Rightarrow> gotime \<Rightarrow> bytes \<Rightarrow> path \<Rightarrow> ('h, 'c) peer
     \<Rightarrow> (('h, 'c) peer \<times> effect list) option" where
  "onHS2 hapi now msg path p =
     (case p_initiatorHS p of
        None \<Rightarrow> Some (p, [])
      | Some i \<Rightarrow>
          (case ReadMessage2 hapi i msg of
             (Inl e, _) \<Rightarrow> Some (p\<lparr>p_initiatorHS := None, p_hs1Frame := None\<rparr>, [])
           | (Inr sess, i) \<Rightarrow>
               (case WriteMessage3 hapi now i of
                  (Inl e, _) \<Rightarrow> Some (p\<lparr>p_initiatorHS := None, p_hs1Frame := None\<rparr>, [])
                | (Inr msg3, i) \<Rightarrow>
                    let sess = (case in_session i of None \<Rightarrow> sess | Some s \<Rightarrow> s);
                        (p, inst) = setSessionLocked now sess path (p\<lparr>p_initiatorHS := Some i\<rparr>)
                    in (case Frame TypeHS3 msg3 of
                          None \<Rightarrow> None
                        | Some f \<Rightarrow>
                            Some (p\<lparr>p_hs3Frame := Some f, p_hs3Pending := True, p_lastHS3 := now\<rparr>,
                                  inst @ emit (sendFrame p path (p_DirectEP p) f))))))"

definition resendHS3 :: "gotime \<Rightarrow> ('h, 'c) peer \<Rightarrow> ('h, 'c) peer \<times> effect list" where
  "resendHS3 now p = (case p_hs3Frame p of
       None \<Rightarrow> (p, [])
     | Some f \<Rightarrow> if \<not> p_hs3Pending p then (p, [])
         else (p\<lparr>p_lastHS3 := now\<rparr>, emit (sendFrame p (p_mode p) (p_DirectEP p) f)))"

section \<open>The responder\<close>

text \<open>The handshake budget: a window of a second and the number of messages seen in it.\<close>

definition hs1_draw :: "int \<Rightarrow> gotime \<Rightarrow> gotime \<times> int \<Rightarrow> bool \<times> gotime \<times> int" where
  "hs1_draw k now b =
     (let (start, n) = (if time_sub now (fst b) \<ge> second then (now, 0) else b)
      in (n + k \<le> hs1MaxPerSec, start, n + k))"

text \<open>The part of \<open>onHS1\<close> that runs the Noise machine on a new first message.\<close>

definition acceptHS1 ::
    "('h, 'c, 'r) handshake_api \<Rightarrow> 'r \<Rightarrow> gotime \<Rightarrow> bytes \<Rightarrow> path \<Rightarrow> ('h, 'c) peer
     \<Rightarrow> (('h, 'c) peer \<times> effect list) option" where
  "acceptHS1 hapi rnd now msg path p =
     (case (case p_responder p of
              Some r \<Rightarrow> Inr r
            | None \<Rightarrow> NewResponder hapi rnd (p_myKp p) (Some Prologue)) of
        Inl e \<Rightarrow> Some (p, [])
      | Inr r \<Rightarrow>
          (case ReadMessage1 hapi r msg of
             (Inl e, _) \<Rightarrow> Some (p\<lparr>p_responder := None\<rparr>, [])
           | (Inr _, r) \<Rightarrow>
               (case Message2 hapi r of
                  (Inl e, _) \<Rightarrow> Some (p\<lparr>p_responder := None\<rparr>, [])
                | (Inr msg2, r) \<Rightarrow>
                    (case Frame TypeHS2 msg2 of
                       None \<Rightarrow> None
                     | Some f \<Rightarrow>
                         Some (p\<lparr>p_responder := Some r, p_hs1Msg := Some msg, p_hs2Frame := Some f,
                                 p_hs2SentAt := now, p_mode := path, p_phaseStart := now\<rparr>,
                               emit (sendFrame p path (p_DirectEP p) f))))))"

definition clearHalfOpen :: "('h, 'c) peer \<Rightarrow> ('h, 'c) peer" where
  "clearHalfOpen p = p\<lparr>p_responder := None, p_hs1Msg := None, p_hs2Frame := None\<rparr>"

definition onHS1 ::
    "('h, 'c, 'r) handshake_api \<Rightarrow> 'r \<Rightarrow> gotime \<Rightarrow> bytes \<Rightarrow> path \<Rightarrow> ('h, 'c) peer
     \<Rightarrow> (('h, 'c) peer \<times> effect list) option" where
  "onHS1 hapi rnd now msg path p =
     (let (granted, b) = hs1_draw 1 now (p_hsBurst p); p = p\<lparr>p_hsBurst := b\<rparr>
      in if \<not> granted then Some (p, [])
         else if p_established p \<and> p_path p \<noteq> PathRelay then Some (p, [])
         else (case (p_responder p, p_hs2Frame p) of
                 (Some _, Some f) \<Rightarrow>
                   if msg = raw (p_hs1Msg p)
                   then Some (p, emit (sendFrame p path (p_DirectEP p) f))
                   else if time_sub now (p_hs2SentAt p) < responderHandshakeTimeout then Some (p, [])
                   else acceptHS1 hapi rnd now msg path (clearHalfOpen p)
               | _ \<Rightarrow> acceptHS1 hapi rnd now msg path p))"

definition onHS3 ::
    "('h, 'c, 'r) handshake_api \<Rightarrow> gotime \<Rightarrow> bytes \<Rightarrow> path \<Rightarrow> ('h, 'c) peer
     \<Rightarrow> ('h, 'c) peer \<times> effect list" where
  "onHS3 hapi now msg path p =
     (case p_responder p of
        None \<Rightarrow> (p, [])
      | Some r \<Rightarrow>
          (case ReadMessage3 hapi now r msg of
             (Inl e, _) \<Rightarrow> (p\<lparr>p_responder := None\<rparr>, [])
           | (Inr sess, _) \<Rightarrow>
               let (p, inst) = setSessionLocked now sess path p in (clearHalfOpen p, inst)))"

section \<open>Data\<close>

definition onData ::
    "('c, 'k) cipher_api \<Rightarrow> bytes \<Rightarrow> ('h, 'c) peer \<Rightarrow> (('h, 'c) peer \<times> effect list) option" where
  "onData api payload p =
     (if p_closed p \<or> p_recvClosed p then Some (p, [])
      else (case p_sess p of
        None \<Rightarrow> Some (p, [])
      | Some sess \<Rightarrow>
          if length payload < 8 then Some (p, [])
          else let nonce = get64 (take 8 payload) in
            (case Check (p_replay p) nonce of
               None \<Rightarrow> None
             | Some False \<Rightarrow> Some (p, [])
             | Some True \<Rightarrow>
                 (case DecryptAt api sess nonce (drop 8 payload) of
                    (Inl e, sess) \<Rightarrow> Some (p\<lparr>p_sess := Some sess\<rparr>, [])
                  | (Inr plain, sess) \<Rightarrow>
                      (case Commit (p_replay p) nonce of
                         None \<Rightarrow> None
                       | Some w \<Rightarrow>
                           Some (p\<lparr>p_sess := Some sess,
                                   p_bytesRx := p_bytesRx p + of_nat (length plain),
                                   p_replay := w, p_hs3Pending := False,
                                   p_recv := (if plain \<noteq> [] \<and> length (p_recv p) < recvBuffer
                                              then p_recv p @ [plain] else p_recv p)\<rparr>,
                                 [Accepted nonce plain]))))))"

datatype send_error =
    NoSession
  | PayloadTooLarge path nat
  | NoiseErr noise_error
  | NoDirectEndpoint
  | TransportErr

definition encryptLocked ::
    "('c, 'k) cipher_api \<Rightarrow> gotime \<Rightarrow> bytes \<Rightarrow> ('h, 'c) peer
     \<Rightarrow> ((send_error + bytes \<times> path \<times> UDPAddr option) \<times> ('h, 'c) peer) option" where
  "encryptLocked api now payload p =
     (case p_sess p of
        None \<Rightarrow> Some (Inl NoSession, p)
      | Some sess \<Rightarrow>
          let limit = int (MaxPlaintextLen sess) - (if p_path p = PathRelay then int MaxHeaderLen else 0)
          in if int (length payload) > limit then Some (Inl (PayloadTooLarge (p_path p) (length payload)), p)
             else (case Send api sess payload of
                     (Inl e, sess) \<Rightarrow> Some (Inl (NoiseErr e), p\<lparr>p_sess := Some sess\<rparr>)
                   | (Inr (nonce, cipher), sess) \<Rightarrow>
                       (case Frame TypeData (put64 nonce @ cipher) of
                          None \<Rightarrow> None
                        | Some f \<Rightarrow>
                            Some (Inr (f, p_path p, p_DirectEP p),
                                  p\<lparr>p_sess := Some sess, p_lastSent := now,
                                    p_bytesTx := p_bytesTx p + of_nat (length payload)\<rparr>))))"

text \<open>\<^verbatim>\<open>Send\<close>: \<open>ok\<close> says whether the transport call succeeds.\<close>

definition SendPeer ::
    "('c, 'k) cipher_api \<Rightarrow> gotime \<Rightarrow> bool \<Rightarrow> bytes \<Rightarrow> ('h, 'c) peer
     \<Rightarrow> (send_error option \<times> ('h, 'c) peer \<times> effect list) option" where
  "SendPeer api now ok payload p =
     (case encryptLocked api now payload p of
        None \<Rightarrow> None
      | Some (Inl e, p) \<Rightarrow> Some (Some e, p, [])
      | Some (Inr (f, mode, dst), p) \<Rightarrow>
          (case sendFrame p mode dst f of
             None \<Rightarrow> Some (Some NoDirectEndpoint, p, [])
           | Some e \<Rightarrow> Some (if ok then None else Some TransportErr, p, [e])))"

section \<open>Incoming frames\<close>

definition handleFrameByPath ::
    "('h, 'c, 'r) handshake_api \<Rightarrow> ('c, 'k) cipher_api \<Rightarrow> 'r \<Rightarrow> gotime \<Rightarrow> path \<Rightarrow> byte \<Rightarrow> bytes
     \<Rightarrow> ('h, 'c) peer \<Rightarrow> (('h, 'c) peer \<times> effect list) option" where
  "handleFrameByPath hapi api rnd now path typ payload p =
     (if typ = TypeProbe then Some (p, [])
      else if typ = TypeHS1 then (if p_initiator p then Some (p, []) else onHS1 hapi rnd now payload path p)
      else if typ = TypeHS2 then (if \<not> p_initiator p then Some (p, []) else onHS2 hapi now payload path p)
      else if typ = TypeHS3 then (if p_initiator p then Some (p, []) else Some (onHS3 hapi now payload path p))
      else if typ = TypeData then onData api payload p
      else Some (p, []))"

definition HandleFrame ::
    "('h, 'c, 'r) handshake_api \<Rightarrow> ('c, 'k) cipher_api \<Rightarrow> UDPAddr option \<Rightarrow> 'r \<Rightarrow> gotime
     \<Rightarrow> UDPAddr option \<Rightarrow> bytes \<Rightarrow> ('h, 'c) peer \<Rightarrow> (('h, 'c) peer \<times> effect list) option" where
  "HandleFrame hapi api relay rnd now src frame p =
     (case Parse frame of
        Inl e \<Rightarrow> Some (p, [])
      | Inr (typ, payload) \<Rightarrow>
          handleFrameByPath hapi api rnd now
            (if relay \<noteq> None \<and> src \<noteq> None \<and> UDPAddr_String src = UDPAddr_String relay
             then PathRelay else PathDirect) typ payload p)"

section \<open>The loop\<close>

definition endRun :: "('h, 'c) peer \<Rightarrow> ('h, 'c) peer" where
  "endRun p = p\<lparr>p_done := True, p_recvClosed := True\<rparr>"

text \<open>The start of \<open>Run\<close>: without a direct endpoint and a relay it ends at once.\<close>

definition startRun :: "UDPAddr option \<Rightarrow> gotime \<Rightarrow> ('h, 'c) peer \<Rightarrow> ('h, 'c) peer" where
  "startRun relay now p =
     (if p_DirectEP p \<noteq> None then p\<lparr>p_mode := PathDirect, p_phaseStart := now\<rparr>
      else if relay \<noteq> None then p\<lparr>p_mode := PathRelay, p_phaseStart := now\<rparr>
      else endRun p)"

definition clearStale :: "gotime \<Rightarrow> ('h, 'c) peer \<Rightarrow> ('h, 'c) peer" where
  "clearStale now p =
     (if p_responder p \<noteq> None \<and> p_hs2Frame p \<noteq> None
         \<and> time_sub now (p_hs2SentAt p) > responderHandshakeTimeout
      then clearHalfOpen p else p)"

definition keepalive ::
    "('c, 'k) cipher_api \<Rightarrow> gotime \<Rightarrow> bool \<Rightarrow> gotime \<Rightarrow> ('h, 'c) peer
     \<Rightarrow> (('h, 'c) peer \<times> effect list) option" where
  "keepalive api now ok lastSent p =
     (if time_sub now lastSent > KeepaliveInterval
      then (case SendPeer api now ok [] p of None \<Rightarrow> None | Some (_, p, es) \<Rightarrow> Some (p, es))
      else Some (p, []))"

text \<open>
  One tick of \<open>Run\<close>. The decisions read a snapshot of the state at the start of the tick, here
  the argument \<open>p\<close>.
\<close>

definition tick ::
    "('h, 'c, 'r) handshake_api \<Rightarrow> ('c, 'k) cipher_api \<Rightarrow> 'r \<Rightarrow> UDPAddr option \<Rightarrow> gotime \<Rightarrow> bool
     \<Rightarrow> ('h, 'c) peer \<Rightarrow> (('h, 'c) peer \<times> effect list) option" where
  "tick hapi api rnd relay now ok p =
     (let p1 = clearStale now p in
      if p_established p \<and> time_sub now (p_sessSince p) > sessionMaxAge
      then Some (forceRehandshake now p1, [])
      else
        let (p2, es2) = (if p_established p \<and> p_hs3Pending p
                            \<and> time_sub now (p_lastHS3 p) > HS1ResendInterval
                         then resendHS3 now p1 else (p1, [])) in
        if \<not> p_established p then
          (case punch hapi rnd relay now (p_mode p) p2 of
             None \<Rightarrow> None
           | Some (p3, e) \<Rightarrow>
               Some (if e \<noteq> None \<and> ok \<and> time_sub now (p_phaseStart p) > attemptFor (p_mode p)
                     then switchMode relay now (p_mode p) p3 else p3, es2 @ emit e))
        else
          (case (if p_path p = PathRelay \<and> p_initiator p \<and> p_DirectEP p \<noteq> None then
                   if p_mode p = PathDirect then
                     Some (if time_sub now (p_phaseStart p) > DirectAttempt
                           then abandonRoaming now p2 else p2, [])
                   else if time_sub now (p_lastHS1 p) > ReestablishInterval
                   then retryDirect hapi rnd now p2 else Some (p2, [])
                 else Some (p2, [])) of
             None \<Rightarrow> None
           | Some (p3, es3) \<Rightarrow>
               (case keepalive api now ok (p_lastSent p) p3 of
                  None \<Rightarrow> None
                | Some (p4, es4) \<Rightarrow> Some (p4, es2 @ es3 @ es4))))"

end
