(* ===== verification/Peer_Safety.thy ===== *)
theory Peer_Safety
  imports Peer
begin

text \<open>
  What a peer guarantees in every history: its events in any order, from any network. The
  sections of \<open>tick\<close> are events of their own, so a history may interleave incoming frames with
  the parts of a tick, as the goroutines of the code do.
\<close>

section \<open>Events and histories\<close>

datatype 'r event =
    EvFrame "UDPAddr option" bytes 'r gotime  \<comment> \<open>\<open>HandleFrame\<close>\<close>
  | EvStart gotime
  | EvEnd
  | EvClearStale gotime
  | EvForce gotime
  | EvPunch 'r gotime path
  | EvSwitch gotime path
  | EvAbandon gotime
  | EvRetry 'r gotime
  | EvResendHS3 gotime
  | EvSend bytes gotime bool
  | EvSetDirectEP "UDPAddr option"
  | EvClose
  | EvReceive                                 \<comment> \<open>the consumer takes a payload\<close>

fun peer_step ::
    "('h, 'c, 'r) handshake_api \<Rightarrow> ('c, 'k) cipher_api \<Rightarrow> UDPAddr option \<Rightarrow> 'r event
     \<Rightarrow> ('h, 'c) peer \<Rightarrow> (('h, 'c) peer \<times> effect list) option" where
  "peer_step hapi api relay (EvFrame src f rnd now) p = HandleFrame hapi api relay rnd now src f p"
| "peer_step hapi api relay (EvStart now) p = Some (startRun relay now p, [])"
| "peer_step hapi api relay EvEnd p = Some (endRun p, [])"
| "peer_step hapi api relay (EvClearStale now) p = Some (clearStale now p, [])"
| "peer_step hapi api relay (EvForce now) p = Some (forceRehandshake now p, [])"
| "peer_step hapi api relay (EvPunch rnd now mode) p =
     map_option (\<lambda>(p, e). (p, emit e)) (punch hapi rnd relay now mode p)"
| "peer_step hapi api relay (EvSwitch now mode) p = Some (switchMode relay now mode p, [])"
| "peer_step hapi api relay (EvAbandon now) p = Some (abandonRoaming now p, [])"
| "peer_step hapi api relay (EvRetry rnd now) p = retryDirect hapi rnd now p"
| "peer_step hapi api relay (EvResendHS3 now) p = Some (resendHS3 now p)"
| "peer_step hapi api relay (EvSend b now ok) p = map_option snd (SendPeer api now ok b p)"
| "peer_step hapi api relay (EvSetDirectEP ep) p = Some (SetDirectEP ep p, [])"
| "peer_step hapi api relay EvClose p = Some (ClosePeer p, [])"
| "peer_step hapi api relay EvReceive p = Some (p\<lparr>p_recv := tl (p_recv p)\<rparr>, [])"

fun peer_run ::
    "('h, 'c, 'r) handshake_api \<Rightarrow> ('c, 'k) cipher_api \<Rightarrow> UDPAddr option \<Rightarrow> 'r event list
     \<Rightarrow> ('h, 'c) peer \<Rightarrow> (('h, 'c) peer \<times> effect list) option" where
  "peer_run hapi api relay [] p = Some (p, [])"
| "peer_run hapi api relay (ev # evs) p =
     (case peer_step hapi api relay ev p of
        None \<Rightarrow> None
      | Some (p', es) \<Rightarrow>
          map_option (\<lambda>(p'', es'). (p'', es @ es')) (peer_run hapi api relay evs p'))"

lemma peer_run_append:
  "peer_run hapi api relay (evs @ fs) p =
     (case peer_run hapi api relay evs p of
        None \<Rightarrow> None
      | Some (p', es) \<Rightarrow> map_option (\<lambda>(p'', es'). (p'', es @ es')) (peer_run hapi api relay fs p'))"
  by (induction evs arbitrary: p)
    (auto split: option.splits simp: option.map_comp comp_def option.map_ident case_prod_unfold)

text \<open>A tick is a sequence of these events.\<close>

fun tick_event :: "'r event \<Rightarrow> bool" where
  "tick_event (EvFrame _ _ _ _) = False"
| "tick_event (EvSetDirectEP _) = False"
| "tick_event (EvStart _) = False"
| "tick_event EvEnd = False"
| "tick_event EvClose = False"
| "tick_event EvReceive = False"
| "tick_event _ = True"

lemma run_events:
  assumes "peer_run hapi api relay evs p = Some (q, es)" "peer_run hapi api relay fs q = r"
  shows "peer_run hapi api relay (evs @ fs) p = map_option (\<lambda>(q, es'). (q, es @ es')) r"
  using assms by (simp add: peer_run_append)

lemma keepalive_events:
  "\<exists>evs. (\<forall>ev\<in>set evs. tick_event ev) \<and>
     peer_run hapi api relay evs p = keepalive api now ok lastSent p"
proof (cases "time_sub now lastSent > KeepaliveInterval")
  case True
  then show ?thesis
    by (intro exI [of _ "[EvSend [] now ok]"])
      (auto simp: keepalive_def split: option.splits)
next
  case False
  then show ?thesis by (intro exI [of _ "[]"]) (simp add: keepalive_def)
qed

lemma tick_events:
  "\<exists>evs. (\<forall>ev\<in>set evs. tick_event ev) \<and>
     peer_run hapi api relay evs p = tick hapi api rnd relay now ok p"
proof (cases "p_established p \<and> time_sub now (p_sessSince p) > sessionMaxAge")
  case True
  then show ?thesis
    by (intro exI [of _ "[EvClearStale now, EvForce now]"]) (simp add: tick_def Let_def)
next
  case force: False
  let ?re = "p_established p \<and> p_hs3Pending p \<and> time_sub now (p_lastHS3 p) > HS1ResendInterval"
  obtain p2 es2 where p2: "(if ?re then resendHS3 now (clearStale now p) else (clearStale now p, [])) = (p2, es2)"
    by force
  let ?evs2 = "EvClearStale now # (if ?re then [EvResendHS3 now] else [])"
  have run2: "peer_run hapi api relay ?evs2 p = Some (p2, es2)" using p2 by (auto split: if_splits)
  have t2: "\<forall>ev\<in>set ?evs2. tick_event ev" by simp
  show ?thesis
  proof (cases "p_established p")
    case False
    obtain evs where evs: "\<forall>ev\<in>set evs. tick_event ev"
      "peer_run hapi api relay evs p2 = (case punch hapi rnd relay now (p_mode p) p2 of
         None \<Rightarrow> None
       | Some (p3, e) \<Rightarrow> Some (if e \<noteq> None \<and> ok \<and> time_sub now (p_phaseStart p) > attemptFor (p_mode p)
                     then switchMode relay now (p_mode p) p3 else p3, emit e))"
    proof (cases "punch hapi rnd relay now (p_mode p) p2")
      case (Some r)
      obtain p3 e where r: "r = (p3, e)" by force
      let ?sw = "e \<noteq> None \<and> ok \<and> time_sub now (p_phaseStart p) > attemptFor (p_mode p)"
      show thesis
      proof (cases ?sw)
        case True
        then show thesis using that [of "[EvPunch rnd now (p_mode p), EvSwitch now (p_mode p)]"]
          by (simp add: Some r)
      next
        case False
        then show thesis using that [of "[EvPunch rnd now (p_mode p)]"]
          by (auto simp: Some r)
      qed
    qed (use that [of "[EvPunch rnd now (p_mode p)]"] in simp)
    show ?thesis
      using run_events [OF run2 evs(2)] t2 evs(1) False p2
      by (intro exI [of _ "?evs2 @ evs"])
        (auto simp: tick_def Let_def split: option.splits prod.splits)
  next
    case True
    define mid where "mid = (if p_path p = PathRelay \<and> p_initiator p \<and> p_DirectEP p \<noteq> None then
                   if p_mode p = PathDirect then
                     Some (if time_sub now (p_phaseStart p) > DirectAttempt
                           then abandonRoaming now p2 else p2, [])
                   else if time_sub now (p_lastHS1 p) > ReestablishInterval
                   then retryDirect hapi rnd now p2 else Some (p2, [])
                 else Some (p2, []))"
    obtain evs where evs: "\<forall>ev\<in>set evs. tick_event ev" "peer_run hapi api relay evs p2 = mid"
    proof -
      have "mid = Some (p2, []) \<or> mid = Some (abandonRoaming now p2, [])
          \<or> mid = retryDirect hapi rnd now p2"
        by (simp add: mid_def)
      then consider "mid = Some (p2, [])" | "mid = Some (abandonRoaming now p2, [])"
        | "mid = retryDirect hapi rnd now p2" by blast
      then show thesis
      proof cases
        case 3
        show thesis
          by (rule that [of "[EvRetry rnd now]"]) (auto simp: 3 split: option.splits)
      qed (use that [of "[]"] that [of "[EvAbandon now]"] in auto)
    qed
    have t: "tick hapi api rnd relay now ok p = (case mid of None \<Rightarrow> None
        | Some (p3, es3) \<Rightarrow> map_option (\<lambda>(q, es4). (q, es2 @ es3 @ es4)) (keepalive api now ok (p_lastSent p) p3))"
      using force True p2 by (auto simp: tick_def mid_def Let_def split: option.splits prod.splits)
    show ?thesis
    proof (cases mid)
      case None
      then show ?thesis using t run_events [OF run2 evs(2)] t2 evs(1)
        by (intro exI [of _ "?evs2 @ evs"]) auto
    next
      case (Some r)
      obtain p3 es3 where r: "r = (p3, es3)" by force
      obtain ks where ks: "\<forall>ev\<in>set ks. tick_event ev"
        "peer_run hapi api relay ks p3 = keepalive api now ok (p_lastSent p) p3"
        using keepalive_events by blast
      have "peer_run hapi api relay (?evs2 @ evs) p = Some (p3, es2 @ es3)"
        using run_events [OF run2 evs(2)] by (simp add: Some r)
      from run_events [OF this ks(2)] show ?thesis
        using t2 evs(1) ks(1) t Some r
        by (intro exI [of _ "(?evs2 @ evs) @ ks"]) (auto simp: comp_def)
    qed
  qed
qed

section \<open>What the operations leave alone\<close>

text \<open>
  Most operations only move handshake state and timers: the session, its window and what was
  received stay, and their effects are datagrams.
\<close>

definition core :: "('h, 'c) peer \<Rightarrow> bytes \<times> 'c session option \<times> replay_window \<times> bool \<times> bytes list" where
  "core p = (p_peerStatic p, p_sess p, p_replay p, p_established p, p_recv p)"

fun sending :: "effect \<Rightarrow> bool" where
  "sending (SendDirect a f) = True"
| "sending (SendRelay n f) = True"
| "sending _ = False"

definition harmless :: "('h, 'c) peer \<Rightarrow> (('h, 'c) peer \<times> effect list) option \<Rightarrow> bool" where
  "harmless p r \<longleftrightarrow> (\<forall>q es. r = Some (q, es) \<longrightarrow> core q = core p \<and> (\<forall>e\<in>set es. sending e))"

lemma emit_sendFrame [simp]: "e \<in> set (emit (sendFrame p mode a f)) \<Longrightarrow> sending e"
  by (auto simp: emit_def sendFrame_def split: option.splits if_splits)

lemma emit_simps [simp]: "emit None = []" "emit (Some e) = [e]"
  by (simp_all add: emit_def)

lemma core_update [simp]:
  "core (p\<lparr>p_responder := a\<rparr>) = core p" "core (p\<lparr>p_initiatorHS := b\<rparr>) = core p"
  "core (p\<lparr>p_hs1Frame := c\<rparr>) = core p" "core (p\<lparr>p_hs1Msg := c\<rparr>) = core p"
  "core (p\<lparr>p_hs2Frame := c\<rparr>) = core p" "core (p\<lparr>p_hs3Frame := c\<rparr>) = core p"
  "core (p\<lparr>p_hs2SentAt := d\<rparr>) = core p" "core (p\<lparr>p_hs3Pending := e\<rparr>) = core p"
  "core (p\<lparr>p_lastHS3 := d\<rparr>) = core p" "core (p\<lparr>p_lastHS1 := d\<rparr>) = core p"
  "core (p\<lparr>p_phaseStart := d\<rparr>) = core p" "core (p\<lparr>p_lastSent := d\<rparr>) = core p"
  "core (p\<lparr>p_mode := m\<rparr>) = core p" "core (p\<lparr>p_DirectEP := ep\<rparr>) = core p"
  "core (p\<lparr>p_closed := e\<rparr>) = core p" "core (p\<lparr>p_done := e\<rparr>) = core p"
  "core (p\<lparr>p_recvClosed := e\<rparr>) = core p" "core (p\<lparr>p_hsBurst := h\<rparr>) = core p"
  "core (p\<lparr>p_bytesTx := w\<rparr>) = core p"
  by (simp_all add: core_def)

lemma core_ops [simp]:
  "core (startRun relay now p) = core p" "core (endRun p) = core p" "core (ClosePeer p) = core p"
  "core (clearHalfOpen p) = core p" "core (clearStale now p) = core p"
  "core (resetHandshakeLocked p) = core p" "core (switchMode relay now m p) = core p"
  "core (abandonRoaming now p) = core p" "core (SetDirectEP ep p) = core p"
  by (simp_all add: startRun_def endRun_def ClosePeer_def clearStale_def clearHalfOpen_def
      resetHandshakeLocked_def switchMode_def abandonRoaming_def SetDirectEP_def split: path.splits)

lemma harmlessI: "(\<And>q es. r = Some (q, es) \<Longrightarrow> core q = core p \<and> (\<forall>e\<in>set es. sending e)) \<Longrightarrow> harmless p r"
  by (simp add: harmless_def)

lemma harmless_Some [simp]:
  "harmless p (Some (q, es)) \<longleftrightarrow> core q = core p \<and> (\<forall>e\<in>set es. sending e)" "harmless p None"
  by (simp_all add: harmless_def)

lemma harmless_core: "core p = core q \<Longrightarrow> harmless p r = harmless q r"
  by (simp add: harmless_def)

lemma punch_harmless: "harmless p (map_option (\<lambda>(p, e). (p, emit e)) (punch hapi rnd relay now mode p))"
  by (auto simp: punch_def split: option.splits sum.splits prod.splits)

lemma retryDirect_harmless: "harmless p (retryDirect hapi rnd now p)"
  by (auto simp: retryDirect_def emit_def split: option.splits sum.splits prod.splits)

lemma resendHS3_harmless: "harmless p (Some (resendHS3 now p))"
  by (auto simp: resendHS3_def split: option.splits)

lemma acceptHS1_harmless: "harmless p (acceptHS1 hapi rnd now msg path p)"
  by (auto simp: acceptHS1_def split: option.splits sum.splits prod.splits)

lemma onHS1_harmless: "harmless p (onHS1 hapi rnd now msg path p)"
proof -
  obtain g b where gb: "hs1_draw 1 now (p_hsBurst p) = (g, b)"
    by (cases "hs1_draw 1 now (p_hsBurst p)")
  let ?p = "p\<lparr>p_hsBurst := b\<rparr>"
  have "harmless p (acceptHS1 hapi rnd now msg path ?p)"
    "harmless p (acceptHS1 hapi rnd now msg path (clearHalfOpen ?p))"
    using acceptHS1_harmless [of ?p hapi rnd now msg path] harmless_core [of ?p p]
      acceptHS1_harmless [of "clearHalfOpen ?p" hapi rnd now msg path]
      harmless_core [of "clearHalfOpen ?p" p]
    by simp_all
  then show ?thesis by (auto simp: onHS1_def gb Let_def split: option.splits)
qed

section \<open>The session invariant\<close>

text \<open>
  \<open>T\<close> are the nonces accepted under the current session. A session is only ever there with the
  static key the peer was registered with, the window has seen exactly \<open>T\<close>, and the receive
  queue is within its capacity.
\<close>

definition peer_ok :: "bytes \<Rightarrow> nat set \<Rightarrow> ('h, 'c) peer \<Rightarrow> bool" where
  "peer_ok key T p \<longleftrightarrow> p_peerStatic p = key \<and> length (p_recv p) \<le> recvBuffer
     \<and> (case p_sess p of
          None \<Rightarrow> \<not> p_established p \<and> tracks (p_replay p) {}
        | Some s \<Rightarrow> PeerStatic s = Some key \<and> length key = 32 \<and> tracks (p_replay p) T)"

lemma peer_ok_core: "core p = core q \<Longrightarrow> peer_ok key T p = peer_ok key T q"
  by (cases "p_sess q") (auto simp: core_def peer_ok_def)

text \<open>The nonces accepted since the last session, and no nonce twice under one session.\<close>

fun seen :: "nat set \<Rightarrow> effect list \<Rightarrow> nat set" where
  "seen T [] = T"
| "seen T (Accepted n _ # es) = seen (insert (unat n) T) es"
| "seen T (Installed # es) = seen {} es"
| "seen T (_ # es) = seen T es"

fun fresh_accepts :: "nat set \<Rightarrow> effect list \<Rightarrow> bool" where
  "fresh_accepts T [] \<longleftrightarrow> True"
| "fresh_accepts T (Accepted n _ # es) \<longleftrightarrow> unat n \<notin> T \<and> fresh_accepts (insert (unat n) T) es"
| "fresh_accepts T (Installed # es) \<longleftrightarrow> fresh_accepts {} es"
| "fresh_accepts T (_ # es) \<longleftrightarrow> fresh_accepts T es"

lemma seen_append: "seen T (es @ fs) = seen (seen T es) fs"
  by (induction T es rule: seen.induct) simp_all

lemma fresh_append: "fresh_accepts T (es @ fs) \<longleftrightarrow> fresh_accepts T es \<and> fresh_accepts (seen T es) fs"
  by (induction T es rule: seen.induct) simp_all

lemma sending_seen: "\<forall>e\<in>set es. sending e \<Longrightarrow> seen T es = T \<and> fresh_accepts T es"
  by (induction T es rule: seen.induct) simp_all

definition step_ok ::
    "bytes \<Rightarrow> nat set \<Rightarrow> (('h, 'c) peer \<times> effect list) option \<Rightarrow> bool" where
  "step_ok key T r \<longleftrightarrow>
     (\<forall>q es. r = Some (q, es) \<longrightarrow> fresh_accepts T es \<and> peer_ok key (seen T es) q)"

lemma step_ok_Some [simp]:
  "step_ok key T (Some (q, es)) \<longleftrightarrow> fresh_accepts T es \<and> peer_ok key (seen T es) q" "step_ok key T None"
  by (simp_all add: step_ok_def)

lemma harmless_ok: "peer_ok key T p \<Longrightarrow> harmless p r \<Longrightarrow> step_ok key T r"
  using sending_seen peer_ok_core unfolding step_ok_def harmless_def by metis

lemma setSession_ok:
  assumes "peer_ok key T p" "setSessionLocked now s path p = (q, es)"
  shows "fresh_accepts T es \<and> peer_ok key (seen T es) q \<and> (es = [] \<or> es = [Installed])"
  using assms tracks_default
  by (auto simp: setSessionLocked_def peer_ok_def raw_def split: if_splits option.splits)

lemma ok_core_effects:
  assumes "peer_ok key (seen T es) q" "fresh_accepts T es" "core q = core q'" "\<forall>e\<in>set fs. sending e"
  shows "fresh_accepts T (es @ fs) \<and> peer_ok key (seen T (es @ fs)) q'"
  using assms sending_seen [OF assms(4)] peer_ok_core [OF assms(3)] by (simp add: fresh_append seen_append)

lemma onHS2_ok:
  assumes "peer_ok key T p"
  shows "step_ok key T (onHS2 hapi now msg path p)"
proof (cases "\<exists>i. p_initiatorHS p = Some i")
  case True
  then obtain i where i: "p_initiatorHS p = Some i" ..
  obtain r i1 where r: "ReadMessage2 hapi i msg = (r, i1)" by force
  obtain w i2 where w: "WriteMessage3 hapi now i1 = (w, i2)" by force
  have fail: "peer_ok key T (p\<lparr>p_initiatorHS := None, p_hs1Frame := None\<rparr>)"
    using assms peer_ok_core [of "p\<lparr>p_initiatorHS := None, p_hs1Frame := None\<rparr>" p] by simp
  show ?thesis
  proof (cases "r \<in> range Inr \<and> w \<in> range Inr")
    case True
    then obtain sess msg3 where v: "r = Inr sess" "w = Inr msg3" by auto
    let ?p = "p\<lparr>p_initiatorHS := Some i2\<rparr>"
    obtain q inst where q: "setSessionLocked now (case in_session i2 of None \<Rightarrow> sess | Some s \<Rightarrow> s)
        path ?p = (q, inst)" by force
    have "peer_ok key T ?p" using assms peer_ok_core [of ?p p] by simp
    from setSession_ok [OF this q] have o: "peer_ok key (seen T inst) q" "fresh_accepts T inst" by simp_all
    have "fresh_accepts T (inst @ emit (sendFrame q path (p_DirectEP q) f))
        \<and> peer_ok key (seen T (inst @ emit (sendFrame q path (p_DirectEP q) f)))
            (q\<lparr>p_hs3Frame := Some f, p_hs3Pending := True, p_lastHS3 := now\<rparr>)" for f
      by (rule ok_core_effects [OF o]) auto
    then show ?thesis
      by (auto simp: onHS2_def i r w v q Let_def split: option.splits)
  next
    case False
    then show ?thesis using fail
      by (cases r; cases w) (auto simp: onHS2_def i r w)
  qed
qed (use assms in \<open>simp add: onHS2_def\<close>)

lemma onHS3_ok:
  assumes "peer_ok key T p"
  shows "step_ok key T (Some (onHS3 hapi now msg path p))"
proof (cases "p_responder p")
  case (Some r)
  obtain x r1 where x: "ReadMessage3 hapi now r msg = (x, r1)" by force
  show ?thesis
  proof (cases x)
    case (Inl e)
    then show ?thesis using assms peer_ok_core [of "p\<lparr>p_responder := None\<rparr>" p]
      by (simp add: onHS3_def Some x)
  next
    case (Inr sess)
    obtain q inst where q: "setSessionLocked now sess path p = (q, inst)" by force
    show ?thesis
      using setSession_ok [OF assms q] peer_ok_core [of "clearHalfOpen q" q]
      by (simp add: onHS3_def Some x Inr q)
  qed
qed (use assms in \<open>simp add: onHS3_def\<close>)

lemma DecryptAt_static: "DecryptAt api s n x = (r, s') \<Longrightarrow> PeerStatic s' = PeerStatic s"
  by (auto simp: DecryptAt_def Let_def PeerStatic_def split: option.splits prod.splits if_splits)

text \<open>The gate of \<open>onData\<close>, through the contract of the replay window.\<close>

lemma onData_cases:
  assumes "peer_ok key T p"
  obtains (ignored) "onData api payload p = Some (p, [])"
  | (rejected) s s' e where "p_sess p = Some s" "fst (DecryptAt api s (get64 (take 8 payload)) (drop 8 payload)) = Inl e"
      "s' = snd (DecryptAt api s (get64 (take 8 payload)) (drop 8 payload))"
      "onData api payload p = Some (p\<lparr>p_sess := Some s'\<rparr>, [])"
  | (accepted) s s' n plain w where "p_sess p = Some s" "n = get64 (take 8 payload)"
      "DecryptAt api s n (drop 8 payload) = (Inr plain, s')" "unat n \<notin> T" "8 \<le> length payload"
      "tracks w (insert (unat n) T)" "\<not> p_closed p" "\<not> p_recvClosed p"
      "onData api payload p = Some (p\<lparr>p_sess := Some s', p_bytesRx := p_bytesRx p + of_nat (length plain),
           p_replay := w, p_hs3Pending := False,
           p_recv := (if plain \<noteq> [] \<and> length (p_recv p) < recvBuffer then p_recv p @ [plain] else p_recv p)\<rparr>,
         [Accepted n plain])"
proof (cases "p_closed p \<or> p_recvClosed p \<or> p_sess p = None \<or> length payload < 8")
  case True
  then show thesis using ignored by (auto simp: onData_def split: option.splits)
next
  case False
  then obtain s where s: "p_sess p = Some s" by auto
  let ?n = "get64 (take 8 payload)"
  have tr: "tracks (p_replay p) T" using assms s by (simp add: peer_ok_def)
  obtain b where b: "Check (p_replay p) ?n = Some b" using rw.check_total [OF tr] by blast
  obtain r s' where d: "DecryptAt api s ?n (drop 8 payload) = (r, s')" by force
  show thesis
  proof (cases b)
    case False
    then show thesis using ignored \<open>\<not> (p_closed p \<or> _ \<or> _ \<or> _)\<close> s b by (simp add: onData_def Let_def)
  next
    case True
    with b have c: "Check (p_replay p) ?n = Some True" by simp
    obtain w where w: "Commit (p_replay p) ?n = Some w" "tracks w (insert (unat ?n) T)"
      using rw.commit_tracks [OF tr c] by blast
    show thesis
    proof (cases r)
      case (Inl e)
      then show thesis using rejected [OF s] False c d s by (simp add: onData_def Let_def)
    next
      case (Inr plain)
      then show thesis
        using accepted [OF s refl _ rw.check_fresh [OF tr c] _ w(2)] False c d s w(1)
        by (simp add: onData_def Let_def)
    qed
  qed
qed

lemma onData_ok:
  assumes "peer_ok key T p"
  shows "step_ok key T (onData api payload p)"
  using assms
proof (cases rule: onData_cases [where api = api and payload = payload])
  case (rejected s s' e)
  then have "PeerStatic s' = PeerStatic s" using DecryptAt_static by (metis prod.collapse)
  then show ?thesis using rejected assms by (simp add: peer_ok_def)
next
  case (accepted s s' n plain w)
  then show ?thesis using DecryptAt_static [OF accepted(3)] assms by (auto simp: peer_ok_def)
qed (use assms in simp)

lemma Send_static: "Send api s b = (r, s') \<Longrightarrow> PeerStatic s' = PeerStatic s"
  by (auto simp: Send_def rekeySendTo_def PeerStatic_def Let_def split: option.splits prod.splits if_splits)

lemma sess_update_ok:
  "peer_ok key T p \<Longrightarrow> p_sess p = Some s \<Longrightarrow> PeerStatic s' = PeerStatic s \<Longrightarrow>
     peer_ok key T (p\<lparr>p_sess := Some s'\<rparr>)"
  by (simp add: peer_ok_def)

lemma SendPeer_ok:
  assumes "peer_ok key T p"
  shows "step_ok key T (map_option snd (SendPeer api now ok b p))"
proof (cases "p_sess p")
  case (Some s)
  obtain r s' where d: "Send api s b = (r, s')" by force
  have o: "peer_ok key T (p\<lparr>p_sess := Some s'\<rparr>)"
    by (rule sess_update_ok [OF assms Some Send_static [OF d]])
  have o2: "peer_ok key T (p\<lparr>p_sess := Some s', p_lastSent := now, p_bytesTx := n\<rparr>)" for n
    using o peer_ok_core [of "p\<lparr>p_sess := Some s', p_lastSent := now, p_bytesTx := n\<rparr>" "p\<lparr>p_sess := Some s'\<rparr>"]
    by simp
  show ?thesis
    using assms o o2
    by (auto simp: SendPeer_def encryptLocked_def Some d Let_def sendFrame_def
        split: sum.splits prod.splits option.splits if_splits)
qed (use assms in \<open>simp add: SendPeer_def encryptLocked_def\<close>)

lemma HandleFrame_ok:
  assumes "peer_ok key T p"
  shows "step_ok key T (HandleFrame hapi api relay rnd now src f p)"
  using onHS2_ok [OF assms] onHS3_ok [OF assms] onData_ok [OF assms] assms
    harmless_ok [OF assms onHS1_harmless]
  by (auto simp: HandleFrame_def handleFrameByPath_def split: sum.splits)

lemma forceRehandshake_ok: "peer_ok key T p \<Longrightarrow> peer_ok key T (forceRehandshake now p)"
  using tracks_default by (simp add: forceRehandshake_def resetHandshakeLocked_def peer_ok_def)

lemma peer_step_ok:
  assumes "peer_ok key T p"
  shows "step_ok key T (peer_step hapi api relay ev p)"
proof (cases ev)
  case (EvFrame src f rnd now)
  then show ?thesis using HandleFrame_ok [OF assms] by simp
next
  case (EvForce now)
  then show ?thesis using forceRehandshake_ok [OF assms] by simp
next
  case (EvPunch rnd now mode)
  then show ?thesis using harmless_ok [OF assms punch_harmless] by simp
next
  case (EvRetry rnd now)
  then show ?thesis using harmless_ok [OF assms retryDirect_harmless] by simp
next
  case (EvResendHS3 now)
  then show ?thesis using harmless_ok [OF assms resendHS3_harmless] by simp
next
  case (EvSend b now ok)
  then show ?thesis using SendPeer_ok [OF assms] by simp
next
  case EvReceive
  then show ?thesis using assms by (cases "p_sess p") (auto simp: peer_ok_def)
qed (use assms in \<open>simp_all add: peer_ok_core [OF core_ops(1)] peer_ok_core [OF core_ops(2)]
   peer_ok_core [OF core_ops(3)] peer_ok_core [OF core_ops(5)] peer_ok_core [OF core_ops(7)]
   peer_ok_core [OF core_ops(8)] peer_ok_core [OF core_ops(9)]\<close>)

lemma peer_run_ok:
  "peer_ok key T p \<Longrightarrow> step_ok key T (peer_run hapi api relay evs p)"
proof (induction evs arbitrary: p T)
  case (Cons ev evs)
  show ?case
  proof (cases "peer_step hapi api relay ev p")
    case (Some r)
    obtain q es where r: "r = (q, es)" by force
    have "fresh_accepts T es \<and> peer_ok key (seen T es) q"
      using peer_step_ok [OF Cons.prems, of hapi api relay ev] by (simp add: Some r)
    with Cons.IH [of "seen T es" q] show ?thesis
      by (auto simp: Some r step_ok_def fresh_append seen_append)
  qed simp
qed simp

lemma newPeer_ok: "peer_ok key {} (newPeer myID pid key ep kp)"
  using tracks_default by (simp add: newPeer_def peer_ok_def)

section \<open>No panic\<close>

text \<open>Encryption adds at most the authentication tag.\<close>

definition expansion_law :: "('c, 'k) cipher_api \<Rightarrow> bool" where
  "expansion_law api \<longleftrightarrow>
     (\<forall>p c ct c'. c_encrypt api p c = (Some ct, c') \<longrightarrow> length ct \<le> length p + aeadTag)"

lemma Send_length:
  assumes "expansion_law api" "Send api s b = (Inr (n, ct), s')"
  shows "length ct \<le> length b + aeadTag"
proof -
  obtain c1 c2 where "c_encrypt api b c1 = (Some ct, c2)"
    using assms(2) by (auto simp: Send_def Let_def split: option.splits prod.splits if_splits)
  then show ?thesis using assms(1) unfolding expansion_law_def by blast
qed

lemma newHS1_length: "msg_law hapi \<Longrightarrow> newHS1 hapi rnd p = Inr (hs, m) \<Longrightarrow> length m < 65536"
  using Message1_length unfolding newHS1_def by (fastforce split: sum.splits prod.splits)

lemma Frame_not_None: "length m < 65536 \<Longrightarrow> Frame t m \<noteq> None"
  by (simp add: maxPayloadLen_def)

lemma punch_total: assumes law: "msg_law hapi" shows "punch hapi rnd relay now mode p \<noteq> None"
  by (auto simp: punch_def Frame_None maxPayloadLen_def dest!: newHS1_length [OF law]
      split: option.splits sum.splits prod.splits)

lemma retryDirect_total: assumes law: "msg_law hapi" shows "retryDirect hapi rnd now p \<noteq> None"
  by (auto simp: retryDirect_def Frame_None maxPayloadLen_def dest!: newHS1_length [OF law]
      split: option.splits sum.splits prod.splits)

lemma acceptHS1_total: assumes law: "msg_law hapi" shows "acceptHS1 hapi rnd now msg path p \<noteq> None"
  by (auto simp: acceptHS1_def Frame_None maxPayloadLen_def dest!: Message2_length [OF law]
      split: option.splits sum.splits prod.splits)

lemma onHS1_total: assumes law: "msg_law hapi" shows "onHS1 hapi rnd now msg path p \<noteq> None"
  using acceptHS1_total [OF law] by (auto simp: onHS1_def Let_def split: option.splits prod.splits)

lemma onHS2_total: assumes law: "msg_law hapi" shows "onHS2 hapi now msg path p \<noteq> None"
  by (auto simp: onHS2_def Let_def Frame_None maxPayloadLen_def dest!: WriteMessage3_length [OF law]
      split: option.splits sum.splits prod.splits)

lemma onData_total: "peer_ok key T p \<Longrightarrow> onData api payload p \<noteq> None"
  by (erule onData_cases [where api = api and payload = payload]) simp_all

lemma MaxPlaintextLen_eq [simp]: "MaxPlaintextLen s = 65480"
  by (simp add: MaxPlaintextLen_def maxPlaintextLen_eq)

lemma encryptLocked_Inr:
  assumes "encryptLocked api now b p = Some (Inr (f, mode, dst), q)"
  obtains s n ct s' where "p_sess p = Some s" "Send api s b = (Inr (n, ct), s')"
    "Frame TypeData (put64 n @ ct) = Some f" "mode = p_path p" "dst = p_DirectEP p"
    "int (length b) \<le> 65480 - (if p_path p = PathRelay then int MaxHeaderLen else 0)"
    "q = p\<lparr>p_sess := Some s', p_lastSent := now, p_bytesTx := p_bytesTx p + of_nat (length b)\<rparr>"
  using assms by (auto simp: encryptLocked_def Let_def split: option.splits sum.splits prod.splits if_splits)

lemma SendPeer_total:
  assumes "expansion_law api"
  shows "SendPeer api now ok b p \<noteq> None"
proof -
  have "encryptLocked api now b p \<noteq> None"
  proof (cases "p_sess p")
    case (Some s)
    obtain r s' where r: "Send api s b = (r, s')" by force
    show ?thesis
    proof (cases "\<exists>n ct. r = Inr (n, ct)")
      case True
      then obtain n ct where n: "r = Inr (n, ct)" by auto
      have "length ct \<le> length b + 16" using Send_length [OF assms] r n by (simp add: aeadTag_def)
      then show ?thesis
        using Some r n
        by (auto simp: encryptLocked_def Let_def Frame_None maxPayloadLen_def split: option.splits)
    next
      case False
      then show ?thesis using Some r by (cases r) (auto simp: encryptLocked_def Let_def)
    qed
  qed (simp add: encryptLocked_def)
  then show ?thesis by (auto simp: SendPeer_def split: option.splits sum.splits)
qed

lemma peer_step_total:
  assumes "msg_law hapi" "expansion_law api" "peer_ok key T p"
  shows "peer_step hapi api relay ev p \<noteq> None"
proof (cases ev)
  case (EvFrame src f rnd now)
  then show ?thesis
    using onHS1_total [OF assms(1)] onHS2_total [OF assms(1)] onData_total [OF assms(3)]
    by (auto simp: HandleFrame_def handleFrameByPath_def split: sum.splits)
qed (use punch_total [OF assms(1)] retryDirect_total [OF assms(1)] SendPeer_total [OF assms(2)] in auto)

lemma peer_run_total:
  assumes "msg_law hapi" "expansion_law api"
  shows "peer_ok key T p \<Longrightarrow> peer_run hapi api relay evs p \<noteq> None"
proof (induction evs arbitrary: p T)
  case (Cons ev evs)
  obtain q es where q: "peer_step hapi api relay ev p = Some (q, es)"
    using peer_step_total [OF assms Cons.prems] by fastforce
  have "peer_ok key (seen T es) q"
    using peer_step_ok [OF Cons.prems, of hapi api relay ev] by (simp add: q)
  from Cons.IH [OF this] show ?case by (simp add: q)
qed simp

section \<open>The handshake budget\<close>

text \<open>Fields that no event touches, but for the budget, which only an HS1 frame draws from.\<close>

definition fixed :: "('h, 'c) peer \<Rightarrow> gostring \<times> Keypair option \<times> bool \<times> gotime \<times> int" where
  "fixed p = (p_ID p, p_myKp p, p_initiator p, p_hsBurst p)"

lemma fixed_ops [simp]:
  "fixed (startRun relay now p) = fixed p" "fixed (endRun p) = fixed p" "fixed (ClosePeer p) = fixed p"
  "fixed (clearHalfOpen p) = fixed p" "fixed (clearStale now p) = fixed p"
  "fixed (resetHandshakeLocked p) = fixed p" "fixed (switchMode relay now m p) = fixed p"
  "fixed (abandonRoaming now p) = fixed p" "fixed (SetDirectEP ep p) = fixed p"
  "fixed (forceRehandshake now p) = fixed p" "fixed (fst (resendHS3 now p)) = fixed p"
  "fixed (fst (setSessionLocked now s path p)) = fixed p"
  by (simp_all add: startRun_def endRun_def ClosePeer_def clearStale_def clearHalfOpen_def fixed_def
      resetHandshakeLocked_def switchMode_def abandonRoaming_def SetDirectEP_def forceRehandshake_def
      resendHS3_def setSessionLocked_def split: path.splits option.splits)

lemma fixed_punch: "punch hapi rnd relay now mode p = Some (q, e) \<Longrightarrow> fixed q = fixed p"
  by (auto simp: punch_def fixed_def split: option.splits sum.splits prod.splits if_splits)

lemma fixed_retryDirect: "retryDirect hapi rnd now p = Some (q, es) \<Longrightarrow> fixed q = fixed p"
  by (auto simp: retryDirect_def fixed_def split: option.splits sum.splits prod.splits)

lemma fixed_acceptHS1: "acceptHS1 hapi rnd now msg path p = Some (q, es) \<Longrightarrow> fixed q = fixed p"
  by (auto simp: acceptHS1_def fixed_def split: option.splits sum.splits prod.splits)

lemma fixed_setSession: "setSessionLocked now s path p = (q, es) \<Longrightarrow> fixed q = fixed p"
  using fixed_ops(12) by (metis fst_conv)

lemma fixed_onHS2: "onHS2 hapi now msg path p = Some (q, es) \<Longrightarrow> fixed q = fixed p"
  by (auto simp: onHS2_def Let_def fixed_def [of "_\<lparr>p_hs3Frame := _, p_hs3Pending := _, p_lastHS3 := _\<rparr>"]
      dest!: fixed_setSession split: option.splits sum.splits prod.splits)
    (auto simp: fixed_def)

lemma fixed_onHS3: "fixed (fst (onHS3 hapi now msg path p)) = fixed p"
  by (auto simp: onHS3_def Let_def dest!: fixed_setSession split: option.splits sum.splits prod.splits)
    (auto simp: fixed_def)

lemma fixed_onData: "onData api b p = Some (q, es) \<Longrightarrow> fixed q = fixed p"
  by (auto simp: onData_def Let_def fixed_def split: option.splits sum.splits prod.splits if_splits bool.splits)

lemma fixed_SendPeer: "SendPeer api now ok b p = Some (e, q, es) \<Longrightarrow> fixed q = fixed p"
  by (auto simp: SendPeer_def encryptLocked_def Let_def fixed_def
      split: option.splits sum.splits prod.splits if_splits)

definition is_hs1 :: "'r event \<Rightarrow> ('h, 'c) peer \<Rightarrow> gotime option" where
  "is_hs1 ev p = (case ev of
       EvFrame src f rnd now \<Rightarrow>
         (case Parse f of Inr (t, _) \<Rightarrow> if t = TypeHS1 \<and> \<not> p_initiator p then Some now else None
          | Inl _ \<Rightarrow> None)
     | _ \<Rightarrow> None)"

lemma hsBurst_other:
  assumes "peer_step hapi api relay ev p = Some (q, es)" "is_hs1 ev p = None"
  shows "fixed q = fixed p"
proof (cases ev)
  case (EvFrame src f rnd now)
  have hs3: "fixed q = fixed p" if "onHS3 hapi now msg path p = (q, es)" for msg path
    using fixed_onHS3 [of hapi now msg path p] by (simp add: that)
  show ?thesis
    using assms EvFrame
    by (auto simp: HandleFrame_def handleFrameByPath_def is_hs1_def dest!: fixed_onHS2 fixed_onData hs3
        split: sum.splits if_splits)
next
  case (EvPunch rnd now mode)
  then show ?thesis using assms(1) by (auto dest!: fixed_punch)
next
  case (EvRetry rnd now)
  then show ?thesis using assms(1) by (auto dest!: fixed_retryDirect)
next
  case (EvResendHS3 now)
  then show ?thesis using assms(1) fixed_ops(11) [of now p] by auto
next
  case (EvSend b now ok)
  then show ?thesis using assms(1) by (auto dest!: fixed_SendPeer)
next
  case EvReceive
  then show ?thesis using assms(1) by (auto simp: fixed_def)
qed (use assms(1) in auto)

lemma hs1_step:
  assumes "peer_step hapi api relay ev p = Some (q, es)" "is_hs1 ev p = Some now"
  shows "p_initiator q = p_initiator p \<and> p_hsBurst q = snd (hs1_draw 1 now (p_hsBurst p))"
    and "\<not> fst (hs1_draw 1 now (p_hsBurst p)) \<Longrightarrow> es = [] \<and> p_responder q = p_responder p"
    and "p_ID q = p_ID p \<and> p_myKp q = p_myKp p"
proof -
  obtain g b where gb: "hs1_draw 1 now (p_hsBurst p) = (g, b)"
    by (cases "hs1_draw 1 now (p_hsBurst p)")
  let ?p = "p\<lparr>p_hsBurst := b\<rparr>"
  obtain src f rnd payload where ev: "ev = EvFrame src f rnd now" "Parse f = Inr (TypeHS1, payload)"
      "\<not> p_initiator p"
    using assms(2) by (auto simp: is_hs1_def split: event.splits sum.splits if_splits)
  then obtain path where q: "onHS1 hapi rnd now payload path p = Some (q, es)"
    using assms(1) by (auto simp: HandleFrame_def handleFrameByPath_def frame_types)
  have "fixed q = fixed ?p"
    using q fixed_acceptHS1 [of hapi rnd now payload path ?p q es]
      fixed_acceptHS1 [of hapi rnd now payload path "clearHalfOpen ?p" q es]
    by (auto simp: onHS1_def gb Let_def split: option.splits if_splits)
  then show "p_initiator q = p_initiator p \<and> p_hsBurst q = snd (hs1_draw 1 now (p_hsBurst p))"
    "p_ID q = p_ID p \<and> p_myKp q = p_myKp p"
    by (simp_all add: fixed_def gb)
  assume "\<not> fst (hs1_draw 1 now (p_hsBurst p))"
  then show "es = [] \<and> p_responder q = p_responder p"
    using q by (auto simp: onHS1_def gb Let_def)
qed

text \<open>Who a peer is never changes.\<close>

lemma peer_step_ident:
  assumes "peer_step hapi api relay ev p = Some (q, es)"
  shows "p_ID q = p_ID p \<and> p_myKp q = p_myKp p \<and> p_initiator q = p_initiator p"
  using hsBurst_other [OF assms] hs1_step(1,3) [OF assms] by (cases "is_hs1 ev p") (auto simp: fixed_def)






section \<open>Properties\<close>

text \<open>C10: Only the registered peer. In every history of a peer, whatever arrives from the network
  and in whatever order, a session is only ever established with the static key the peer was
  created with.\<close>

theorem peer_session_authenticated:
  assumes "peer_run hapi api relay evs (newPeer myID pid key ep kp) = Some (q, es)"
  shows "RemoteStatic q \<in> {None, Some key} \<and> (p_established q \<longrightarrow> RemoteStatic q = Some key)"
proof -
  have "peer_ok key (seen {} es) q"
    using peer_run_ok [OF newPeer_ok, where hapi = hapi and api = api and relay = relay and evs = evs] assms by (simp add: step_ok_def)
  then show ?thesis by (auto simp: peer_ok_def RemoteStatic_def split: option.splits)
qed

text \<open>C11: No data frame is accepted twice. In every history, no nonce is accepted a second time
  under the same session.\<close>

theorem peer_accepts_no_replay:
  assumes "peer_run hapi api relay evs (newPeer myID pid key ep kp) = Some (q, es)"
  shows "fresh_accepts {} es"
  using peer_run_ok [OF newPeer_ok, where hapi = hapi and api = api and relay = relay and evs = evs] assms by (simp add: step_ok_def)

text \<open>C16: A peer never panics. Handshake messages that fit a frame and a cipher that adds at most
  its tag are all it takes: in every history every index is in range and every frame can be
  built, and the receive queue stays within its capacity.\<close>

theorem peer_never_panics:
  assumes "msg_law hapi" "expansion_law api"
  shows "\<exists>q es. peer_run hapi api relay evs (newPeer myID pid key ep kp) = Some (q, es)
     \<and> length (p_recv q) \<le> recvBuffer"
proof -
  obtain q es where q: "peer_run hapi api relay evs (newPeer myID pid key ep kp) = Some (q, es)"
    using peer_run_total [OF assms newPeer_ok] by fastforce
  then have "peer_ok key (seen {} es) q"
    using peer_run_ok [OF newPeer_ok, where hapi = hapi and api = api and relay = relay and evs = evs] by (simp add: step_ok_def)
  with q show ?thesis by (auto simp: peer_ok_def)
qed


text \<open>C21: Every datagram of data fits. The frame a peer sends for a payload it accepts is at most
  the largest UDP payload; on the relayed path it still is once the relay header is in front.\<close>

theorem data_datagrams_fit:
  assumes "expansion_law api" "encryptLocked api now b p = Some (Inr (f, mode, dst), q)"
  shows "length f \<le> maxUDPPayload
     \<and> (mode = PathRelay \<longrightarrow> (\<forall>src d pkt. WrapPacket src d f = Inr pkt \<longrightarrow> length pkt \<le> maxUDPPayload))"
  using assms(2)
proof (rule encryptLocked_Inr)
  fix s n ct s'
  assume s: "Send api s b = (Inr (n, ct), s')" "Frame TypeData (put64 n @ ct) = Some f" "mode = p_path p"
    "int (length b) \<le> 65480 - (if p_path p = PathRelay then int MaxHeaderLen else 0)"
  have "length ct \<le> length b + 16" using Send_length [OF assms(1) s(1)] by (simp add: aeadTag_def)
  moreover have "length f = 11 + length ct" using Frame_length [OF s(2)] by (simp add: HeaderLen_def)
  ultimately have f: "length f \<le> 27 + length b" by simp
  have "length pkt \<le> length f + MaxHeaderLen" if "WrapPacket src d f = Inr pkt" for src d pkt
    using that by (auto simp: WrapPacket_def validateName_def MaxHeaderLen_def split: option.splits if_splits)
  then show ?thesis using f s(3,4) by (fastforce simp: maxUDPPayload_def split: if_splits)
qed

section \<open>Witnesses\<close>

text \<open>
  An initiator at work with the concrete handshake and cipher: it punches, is answered, accepts
  a data frame and then sees the same frame again.
\<close>

definition demo_ep :: UDPAddr where
  "demo_ep = \<lparr>a_IP = Some [1, 2, 3, 4], a_Port = 9, a_Zone = []\<rparr>"

abbreviation demo_peer :: "(demo_hs, nat \<times> u64) peer" where
  "demo_peer \<equiv> newPeer [1] [2] (replicate 32 2) (Some demo_ep) (Some (demo_keypair 1))"

definition demo_data :: bytes where
  "demo_data = the (Frame TypeData (put64 0 @ demo_seal 8 0 [5]))"

definition demo_events :: "unit event list" where
  "demo_events =
     [EvStart 1000000000, EvPunch () 2000000000 PathDirect,
      EvFrame (Some demo_ep) (the (Frame TypeHS2 (replicate 32 2))) () 2100000000,
      EvFrame (Some demo_ep) demo_data () 2200000000, EvFrame (Some demo_ep) demo_data () 2300000000]"

lemma Parse_the_Frame: "length m \<le> maxPayloadLen \<Longrightarrow> Parse (the (Frame t m)) = Inr (t, m)"
  by (metis Frame_Some Parse_Frame option.sel)

definition demo_p1 :: "(demo_hs, nat \<times> u64) peer" where
  "demo_p1 = demo_peer\<lparr>p_mode := PathDirect, p_phaseStart := 1000000000\<rparr>"

definition demo_p2 :: "(demo_hs, nat \<times> u64) peer" where
  "demo_p2 = demo_p1\<lparr>p_initiatorHS := Some
       \<lparr>in_hs = Some \<lparr>d_init = True, d_step = 1, d_pub = replicate 32 1, d_peer = None\<rparr>,
        in_expected = Some (replicate 32 2), in_session = None, in_phase = phaseMessage1\<rparr>,
     p_hs1Frame := Some [1, 0, 0], p_lastHS1 := 2000000000\<rparr>"

definition demo_s3 :: "(nat \<times> u64) session" where
  "demo_s3 = blank_session\<lparr>s_send := Some (7, 0), s_recv := Some (8, 0), s_peerStatic := Some (replicate 32 2),
     s_channelBinding := Some [1, 2, 3], s_start := 2100000000\<rparr>"

definition demo_p3 :: "(demo_hs, nat \<times> u64) peer" where
  "demo_p3 = demo_p2\<lparr>p_initiatorHS := Some
       \<lparr>in_hs = Some \<lparr>d_init = True, d_step = 3, d_pub = replicate 32 1, d_peer = Some (replicate 32 2)\<rparr>,
        in_expected = Some (replicate 32 2), in_session = Some demo_s3, in_phase = phaseComplete\<rparr>,
     p_sess := Some demo_s3, p_established := True, p_path := PathDirect, p_mode := PathDirect,
     p_sessSince := 2100000000, p_lastSent := 2100000000,
     p_hs3Frame := Some (the (Frame TypeHS3 (replicate 32 1))), p_hs3Pending := True,
     p_lastHS3 := 2100000000\<rparr>"

definition demo_p4 :: "(demo_hs, nat \<times> u64) peer" where
  "demo_p4 = demo_p3\<lparr>p_sess := Some (demo_s3\<lparr>s_recv := Some (8, 1)\<rparr>), p_bytesRx := 1,
     p_replay := (newReplayWindow replayWindowSizeBits)\<lparr>rw_zeroSeen := True\<rparr>,
     p_hs3Pending := False, p_recv := [[5]]\<rparr>"

lemma demo_step2:
  "peer_step demo_hapi demo_api None (EvPunch () 2000000000 PathDirect) demo_p1
     = Some (demo_p2, [SendDirect demo_ep [1, 0, 0]])"
  by (simp add: punch_def demo_p1_def demo_p2_def newHS1_def newPeer_def NewInitiator_def static_ok_def
      demo_keypair_def KeySize_def demo_hapi_def Message1_def RoleIsInitiator_def time_sub_def
      HS1ResendInterval_def min_duration_def max_duration_def maxPayloadLen_def frame_types
      put16_def addressFor_def sendFrame_def)

lemma demo_step3:
  "peer_step demo_hapi demo_api None
       (EvFrame (Some demo_ep) (the (Frame TypeHS2 (replicate 32 2))) () 2100000000) demo_p2
     = Some (demo_p3, [Installed, SendDirect demo_ep (the (Frame TypeHS3 (replicate 32 1)))])"
proof -
  have "onHS2 demo_hapi 2100000000 (replicate 32 2) PathDirect demo_p2
      = Some (demo_p3, [Installed, SendDirect demo_ep (the (Frame TypeHS3 (replicate 32 1)))])"
    by (simp add: onHS2_def demo_p2_def demo_p3_def demo_p1_def demo_s3_def newPeer_def ReadMessage2_def
        WriteMessage3_def demo_hapi_def Let_def setSessionLocked_def PeerStatic_def blank_session_def
        sendFrame_def maxPayloadLen_def)
  moreover have "p_initiator demo_p2"
    by (simp add: demo_p2_def demo_p1_def newPeer_def RoleIsInitiator_def)
  moreover have "Parse (the (Frame TypeHS2 (replicate 32 2))) = Inr (TypeHS2, replicate 32 2)"
    by (rule Parse_the_Frame) (simp add: maxPayloadLen_def)
  ultimately show ?thesis by (simp add: HandleFrame_def handleFrameByPath_def frame_types del: Frame_Some)
qed

lemma demo_data_frame:
  "HandleFrame demo_hapi demo_api None () now (Some demo_ep) demo_data p
     = onData demo_api (put64 0 @ demo_seal 8 0 [5]) p"
proof -
  have "Parse demo_data = Inr (TypeData, put64 0 @ demo_seal 8 0 [5])"
    unfolding demo_data_def by (rule Parse_the_Frame) (simp add: maxPayloadLen_def demo_seal_def)
  then show ?thesis by (simp add: HandleFrame_def handleFrameByPath_def frame_types)
qed

lemma demo_step4: "onData demo_api (put64 0 @ demo_seal 8 0 [5]) demo_p3 = Some (demo_p4, [Accepted 0 [5]])"
  by (simp add: onData_def demo_p4_def demo_p3_def demo_p2_def demo_p1_def newPeer_def Let_def Check_def
      newReplayWindow_def DecryptAt_def demo_s3_def blank_session_def epochOf_def DefaultRekeyEvery_def
      demo_seal_def demo_api_def Commit_def recvBuffer_def del: get64.simps)

lemma demo_step5: "onData demo_api (put64 0 @ demo_seal 8 0 [5]) demo_p4 = Some (demo_p4, [])"
  by (simp add: onData_def demo_p4_def demo_p3_def demo_p2_def demo_p1_def newPeer_def Let_def Check_def
      newReplayWindow_def del: get64.simps)

lemma demo_peer_run:
  "peer_run demo_hapi demo_api None demo_events demo_peer = Some (demo_p4,
     [SendDirect demo_ep [1, 0, 0], Installed,
      SendDirect demo_ep (the (Frame TypeHS3 (replicate 32 1))), Accepted 0 [5]])"
proof -
  have start: "peer_step demo_hapi demo_api None (EvStart 1000000000) demo_peer = Some (demo_p1, [])"
    by (simp add: startRun_def demo_p1_def newPeer_def)
  have data: "peer_step demo_hapi demo_api None (EvFrame (Some demo_ep) demo_data () now) p
      = onData demo_api (put64 0 @ demo_seal 8 0 [5]) p" for now p
    by (simp add: demo_data_frame)
  show ?thesis
    unfolding demo_events_def
    by (simp add: start demo_step2 demo_step3 data demo_step4 demo_step5 del: peer_step.simps Frame_Some)
qed

theorem peer_session_authenticated_witness:
  "RemoteStatic demo_p4 = Some (replicate 32 2)"
  using peer_session_authenticated [OF demo_peer_run]
  by (simp add: demo_p4_def demo_p3_def)

theorem peer_accepts_no_replay_witness:
  "fresh_accepts {} [SendDirect demo_ep [1, 0, 0], Installed,
     SendDirect demo_ep (the (Frame TypeHS3 (replicate 32 1))), Accepted 0 [5]]"
  by (rule peer_accepts_no_replay [OF demo_peer_run])

lemma demo_expansion: "expansion_law demo_api"
  by (auto simp: expansion_law_def demo_api_def aeadTag_def)

lemma demo_msg_law: "msg_law demo_hapi"
  by (auto simp: msg_law_def demo_hapi_def)

theorem peer_never_panics_witness:
  "\<exists>q es. peer_run demo_hapi demo_api None demo_events demo_peer = Some (q, es)
     \<and> length (p_recv q) \<le> recvBuffer"
  by (rule peer_never_panics [OF demo_msg_law demo_expansion])


theorem data_datagrams_fit_witness:
  "\<exists>f q. encryptLocked demo_api 2500000000 [1, 2] demo_p4 = Some (Inr (f, PathDirect, Some demo_ep), q)
     \<and> length f \<le> maxUDPPayload"
proof -
  let ?s = "demo_s3\<lparr>s_recv := Some (8, 1)\<rparr>"
  have "rekeySendLoop demo_api 0 (7, 0) 0 = (True, (7, 0), 0)"
    by (simp add: rekeySendLoop.simps [of demo_api 0])
  then obtain s' where send: "Send demo_api ?s [1, 2] = (Inr (0, demo_seal 7 0 [1, 2]), s')"
    by (simp add: Send_def rekeySendTo_def Let_def demo_s3_def blank_session_def epochOf_def
        DefaultRekeyEvery_def MaxNonce_def) (simp add: demo_api_def demo_seal_def)
  have "p_sess demo_p4 = Some ?s" "p_path demo_p4 = PathDirect" "p_DirectEP demo_p4 = Some demo_ep"
    by (simp_all add: demo_p4_def demo_p3_def demo_p2_def demo_p1_def newPeer_def)
  then obtain f q where e: "encryptLocked demo_api 2500000000 [1, 2] demo_p4
      = Some (Inr (f, PathDirect, Some demo_ep), q)"
    using send by (simp add: encryptLocked_def Let_def maxPayloadLen_def demo_seal_def)
  with data_datagrams_fit [OF demo_expansion e] show ?thesis by blast
qed

end
