(* ===== verification/Peer_Link.thy ===== *)
theory Peer_Link
  imports Peer_Safety
begin

text \<open>
  Two peers at the ends of a path, direct or through the relay: the handshake over it, data
  through the session, the fallback to the relay and the way back to the direct path.
\<close>

section \<open>The tunnel\<close>

text \<open>
  How far a receiver may be behind: it catches up with 64 epochs of the default interval, so it has not
  missed 64 times that many messages in a row. \<open>c\<close> bounds what it missed up to the nonce \<open>n\<close>.
\<close>

definition max_lost :: nat where "max_lost = 64 * 1048576"

definition lag :: "('h, 'c) peer \<Rightarrow> u64 \<Rightarrow> nat \<Rightarrow> bool" where
  "lag b n c \<longleftrightarrow> (\<exists>r. p_sess b = Some r \<and> unat n \<le> (unat (s_recvEpoch r) + 1) * 1048576 + c)"

lemma lag_zero [simp]: "(\<exists>c<max_lost. lag b 0 c) \<longleftrightarrow> p_sess b \<noteq> None"
  by (auto simp: lag_def max_lost_def intro: exI [of _ 0])

lemma lag_recv [simp]: "lag (b\<lparr>p_recv := x\<rparr>) n c = lag b n c"
  by (simp add: lag_def)

text \<open>
  \<open>a\<close> can send the message with nonce \<open>n\<close> to \<open>b\<close>: the directions of their sessions hold the same
  root key, the sender is on the schedule of rekeyings, the receiver can catch up with it, and \<open>b\<close>
  has accepted only earlier nonces.
\<close>

definition linked ::
    "('c, 'k) cipher_api \<Rightarrow> ('k \<Rightarrow> 'k) \<Rightarrow> 'k \<Rightarrow> ('h, 'c) peer \<Rightarrow> ('h, 'c) peer \<Rightarrow> u64 \<Rightarrow> bool" where
  "linked api rk k0 a b n \<longleftrightarrow>
     (\<exists>s r T. p_sess a = Some s \<and> p_sess b = Some r \<and> send_keyed api rk k0 s \<and> recv_keyed api rk k0 r
        \<and> s_rekeyEvery s = DefaultRekeyEvery \<and> s_rekeyEvery r = DefaultRekeyEvery \<and> s_sendCount s = n
        \<and> on_schedule (s_sendEpoch s) n DefaultRekeyEvery \<and> s_recvEpoch r \<le> epochOf n DefaultRekeyEvery
        \<and> tracks (p_replay b) T \<and> (\<forall>t\<in>T. t < unat n))
     \<and> (\<exists>c<max_lost. lag b n c) \<and> \<not> p_closed b \<and> \<not> p_recvClosed b \<and> (p_path a = PathRelay \<or> p_DirectEP a \<noteq> None)"

fun carried :: "effect \<Rightarrow> bytes option" where
  "carried (SendDirect _ f) = Some f"
| "carried (SendRelay _ f) = Some f"
| "carried _ = None"

text \<open>A message sent at one end and its frame handled at the other.\<close>

definition transfer ::
    "('h, 'c, 'r) handshake_api \<Rightarrow> ('c, 'k) cipher_api \<Rightarrow> UDPAddr option \<Rightarrow> UDPAddr option \<Rightarrow> 'r \<Rightarrow> gotime
     \<Rightarrow> bytes \<Rightarrow> ('h, 'c) peer \<times> ('h, 'c) peer \<Rightarrow> (('h, 'c) peer \<times> ('h, 'c) peer) \<times> effect list" where
  "transfer hapi api relay src rnd now m ab =
     (case SendPeer api now True m (fst ab) of
        Some (None, a, [e]) \<Rightarrow>
          (case HandleFrame hapi api relay rnd now src (raw (carried e)) (snd ab) of
             Some (b, es) \<Rightarrow> ((a, b), es)
           | None \<Rightarrow> ((a, snd ab), []))
      | _ \<Rightarrow> (ab, []))"

fun transfers ::
    "('h, 'c, 'r) handshake_api \<Rightarrow> ('c, 'k) cipher_api \<Rightarrow> UDPAddr option \<Rightarrow> UDPAddr option \<Rightarrow> 'r \<Rightarrow> gotime
     \<Rightarrow> bytes list \<Rightarrow> ('h, 'c) peer \<times> ('h, 'c) peer \<Rightarrow> effect list" where
  "transfers hapi api relay src rnd now [] ab = []"
| "transfers hapi api relay src rnd now (m # ms) ab =
     (let (ab', es) = transfer hapi api relay src rnd now m ab
      in es @ transfers hapi api relay src rnd now ms ab')"

text \<open>The largest plaintext of a path.\<close>

definition fits :: "('h, 'c) peer \<Rightarrow> bytes \<Rightarrow> bool" where
  "fits a m \<longleftrightarrow> length m + (if p_path a = PathRelay then MaxHeaderLen else 0) \<le> maxPlaintextLen"

text \<open>How a frame leaves on a path.\<close>

definition wire :: "path \<Rightarrow> gostring \<Rightarrow> UDPAddr \<Rightarrow> bytes \<Rightarrow> effect" where
  "wire md pid addr f = (if md = PathRelay then SendRelay pid f else SendDirect addr f)"

text \<open>Sending leaves the receiving half of a session alone, receiving the sending half.\<close>

lemma Send_recv_half:
  "Send api s m = (r, s') \<Longrightarrow> s_recv s' = s_recv s \<and> s_recvEpoch s' = s_recvEpoch s \<and> s_rekeyEvery s' = s_rekeyEvery s"
  by (auto simp: Send_def rekeySendTo_def Let_def split: option.splits if_splits prod.splits)

lemma DecryptAt_send_half:
  "DecryptAt api s n ct = (r, s') \<Longrightarrow>
   s_send s' = s_send s \<and> s_sendEpoch s' = s_sendEpoch s \<and> s_sendCount s' = s_sendCount s \<and> s_rekeyEvery s' = s_rekeyEvery s"
  by (auto simp: DecryptAt_def Let_def split: option.splits if_splits prod.splits)

lemma epoch_unat [simp]: "unat (epochOf n DefaultRekeyEvery) = unat n div 1048576"
  by (simp add: epochOf_unat DefaultRekeyEvery_def)

lemma lag_reaches: "p_sess b = Some r \<Longrightarrow> lag b n c \<Longrightarrow> c < max_lost \<Longrightarrow>
    unat (epochOf n DefaultRekeyEvery) \<le> unat (s_recvEpoch r) + 64"
  by (auto simp: lag_def max_lost_def)

lemma linked_delivery:
  assumes laws: "cipher_laws api seal opn rk" and exp: "expansion_law api"
    and link: "linked api rk k0 a b n" and n: "n \<le> MaxNonce" and m: "fits a m"
  obtains a' b' f where
    "SendPeer api now True m a = Some (None, a', [wire (p_path a) (p_ID a) (the (p_DirectEP a)) f])"
    "\<And>relay rnd t src. HandleFrame hapi api relay rnd t src f b = Some (b', [Accepted n m])"
    "linked api rk k0 a' b' (n + 1)" "lag b' (n + 1) 0"
    "\<And>c. lag b n c \<Longrightarrow> lag b (n + 1) (c + 1) \<and> (c + 1 < max_lost \<longrightarrow> linked api rk k0 a' b (n + 1))"
    "\<And>k n'. linked api rk k b a n' \<Longrightarrow> linked api rk k b' a' n'"
    "p_path a' = p_path a" "p_DirectEP a' = p_DirectEP a" "p_ID a' = p_ID a" "p_recv a' = p_recv a"
    "p_path b' = p_path b" "p_DirectEP b' = p_DirectEP b" "p_ID b' = p_ID b"
    "p_recv b' = (if m \<noteq> [] \<and> length (p_recv b) < recvBuffer then p_recv b @ [m] else p_recv b)"
proof -
  let ?e = DefaultRekeyEvery
  obtain s r T c where st: "p_sess a = Some s" "p_sess b = Some r" "send_keyed api rk k0 s"
      "recv_keyed api rk k0 r" "s_rekeyEvery s = ?e" "s_rekeyEvery r = ?e" "s_sendCount s = n"
      "on_schedule (s_sendEpoch s) n ?e" "s_recvEpoch r \<le> epochOf n ?e"
      "tracks (p_replay b) T" "\<forall>t\<in>T. t < unat n" "lag b n c" "c < max_lost"
    and op: "\<not> p_closed b" "\<not> p_recvClosed b" "p_path a = PathRelay \<or> p_DirectEP a \<noteq> None"
    using link unfolding linked_def by blast
  let ?ct = "seal (epoch_key rk k0 ?e n) n m"
  obtain s' where s': "Send api s m = (Inr (n, ?ct), s')" "send_keyed api rk k0 s'"
    "s_sendCount s' = n + 1" "s_sendEpoch s' = epochOf n ?e" "s_rekeyEvery s' = ?e"
    using Send_spec [OF laws st(3), of m] on_schedule_next [OF st(8)] st(5,7) n by metis
  have "opn (epoch_key rk k0 (s_rekeyEvery r) n) n ?ct = Some m" unfolding st(6) by (rule cipher_lawsD(8) [OF laws n])
  then obtain r' where r': "DecryptAt api r n ?ct = (Inr m, r')" "recv_keyed api rk k0 r'"
    "s_recvEpoch r' = epochOf n ?e" "s_rekeyEvery r' = ?e"
    using DecryptAt_spec [OF laws st(4) n] st(6,9) lag_reaches [OF st(2,12,13)] by force
  have len: "length ?ct \<le> length m + 16" using Send_length [OF exp s'(1)] by (simp add: aeadTag_def)
  have small: "int (length m) \<le> 65480 - (if p_path a = PathRelay then int MaxHeaderLen else 0)"
    using m by (auto simp: fits_def maxPlaintextLen_eq)
  let ?w = "put64 n @ ?ct"
  have w: "length ?w \<le> maxPayloadLen" using len small by (simp add: maxPayloadLen_def split: if_splits)
  let ?a = "a\<lparr>p_sess := Some s', p_lastSent := now, p_bytesTx := p_bytesTx a + of_nat (length m)\<rparr>"
  have enc: "encryptLocked api now m a = Some (Inr (the (Frame TypeData ?w), p_path a, p_DirectEP a), ?a)"
    using small s'(1) w by (simp add: encryptLocked_def st(1) Let_def)
  let ?f = "the (Frame TypeData ?w)"
  have "sendFrame ?a (p_path a) (p_DirectEP a) ?f = Some (wire (p_path a) (p_ID a) (the (p_DirectEP a)) ?f)"
    using op(3) by (cases "p_path a = PathRelay"; cases "p_DirectEP a") (simp_all add: sendFrame_def wire_def)
  then have snd: "SendPeer api now True m a = Some (None, ?a, [wire (p_path a) (p_ID a) (the (p_DirectEP a)) ?f])"
    unfolding SendPeer_def enc by simp
  obtain w' where w': "Check (p_replay b) n = Some True" "Commit (p_replay b) n = Some w'"
      "tracks w' (insert (unat n) T)"
    using rw.newest_commits [OF st(10,11)] by blast
  let ?b = "b\<lparr>p_sess := Some r', p_bytesRx := p_bytesRx b + of_nat (length m), p_replay := w',
      p_hs3Pending := False,
      p_recv := (if m \<noteq> [] \<and> length (p_recv b) < recvBuffer then p_recv b @ [m] else p_recv b)\<rparr>"
  have "onData api ?w b = Some (?b, [Accepted n m])"
    using op(1,2) w'(1,2) r'(1) by (simp add: onData_def st(2) Let_def del: get64.simps)
  then have rcv: "HandleFrame hapi api relay rnd t src ?f b = Some (?b, [Accepted n m])" for relay rnd t src
    using Parse_the_Frame [OF w, of TypeData]
    by (simp add: HandleFrame_def handleFrameByPath_def frame_types del: Frame_Some)
  have answers: "linked api rk k ?b ?a n'" if "linked api rk k b a n'" for k n'
    using that Send_recv_half [OF s'(1)] DecryptAt_send_half [OF r'(1)] st(1,2)
    by (auto simp: linked_def send_keyed_def recv_keyed_def lag_def)
  have u: "unat (n + 1) = unat n + 1" using n by (intro unat_inc) (simp add: word_le_nat_alt)
  then have mono: "epochOf n ?e \<le> epochOf (n + 1) ?e" by (simp add: word_le_nat_alt div_le_mono)
  have lag0: "lag ?b (n + 1) 0" using u r'(3) by (simp add: lag_def) 
  have "linked api rk k0 ?a ?b (n + 1)"
  proof -
    have "\<forall>t\<in>insert (unat n) T. t < unat (n + 1)" using st(11) u by auto
    moreover have "\<exists>c<max_lost. lag ?b (n + 1) c" using lag0 by (intro exI [of _ 0]) (simp add: max_lost_def)
    ultimately show ?thesis
      unfolding linked_def using s' r' w'(3) op on_schedule_step [OF n, of ?e] mono by auto
  qed
  moreover have "lag b (n + 1) (d + 1) \<and> (d + 1 < max_lost \<longrightarrow> linked api rk k0 ?a b (n + 1))" if "lag b n d" for d
  proof -
    have l: "lag b (n + 1) (d + 1)" using that u by (auto simp: lag_def)
    have "\<forall>t\<in>T. t < unat (n + 1)" using st(11) u by auto
    then show ?thesis
      unfolding linked_def using l s' st(2,4,6,9,10) op on_schedule_step [OF n, of ?e] mono by auto
  qed
  ultimately show thesis using that [OF snd rcv _ lag0 _ answers] by simp
qed

lemma transfer_linked:
  assumes laws: "cipher_laws api seal opn rk" and exp: "expansion_law api"
    and link: "linked api rk k0 a b n" and n: "n \<le> MaxNonce" and m: "fits a m"
  obtains a' b' where "transfer hapi api relay src rnd now m (a, b) = ((a', b'), [Accepted n m])"
    "linked api rk k0 a' b' (n + 1)" "p_path a' = p_path a"
proof (rule linked_delivery [OF assms, where now = now and hapi = hapi])
  fix a' b' f
  assume d: "SendPeer api now True m a = Some (None, a', [wire (p_path a) (p_ID a) (the (p_DirectEP a)) f])"
    "\<And>relay rnd t src. HandleFrame hapi api relay rnd t src f b = Some (b', [Accepted n m])"
    "linked api rk k0 a' b' (n + 1)" "p_path a' = p_path a"
  have "carried (wire (p_path a) (p_ID a) (the (p_DirectEP a)) f) = Some f" by (simp add: wire_def)
  then have "transfer hapi api relay src rnd now m (a, b) = ((a', b'), [Accepted n m])"
    using d(1,2) by (simp add: transfer_def)
  then show thesis using that d(3,4) by blast
qed

lemma transfers_linked:
  assumes laws: "cipher_laws api seal opn rk" and exp: "expansion_law api"
  shows "linked api rk k0 a b n \<Longrightarrow> unat n + length ms \<le> 18446744073709551615 \<Longrightarrow>
    \<forall>m\<in>set ms. fits a m \<Longrightarrow>
    transfers hapi api relay src rnd now ms (a, b)
      = map (\<lambda>(i, m). Accepted (n + of_nat i) m) (enumerate 0 ms)"
proof (induction ms arbitrary: a b n)
  case (Cons m ms)
  have n: "n \<le> MaxNonce" using Cons.prems(2) by (simp add: word_le_nat_alt)
  obtain a' b' where t: "transfer hapi api relay src rnd now m (a, b) = ((a', b'), [Accepted n m])"
    "linked api rk k0 a' b' (n + 1)" "p_path a' = p_path a"
    by (rule transfer_linked [OF laws exp Cons.prems(1) n]) (use Cons.prems(3) in auto)
  have "unat (n + 1) = unat n + 1" using n by (intro unat_inc) (simp add: word_le_nat_alt)
  then have "transfers hapi api relay src rnd now ms (a', b')
      = map (\<lambda>(i, m). Accepted (n + 1 + of_nat i) m) (enumerate 0 ms)"
    using Cons.prems t(3) by (intro Cons.IH [OF t(2)]) (auto simp: fits_def)
  also have "\<dots> = map (\<lambda>(i, m). Accepted (n + of_nat i) m) (enumerate (Suc 0) ms)"
    by (simp add: enumerate_Suc_eq [of 0] comp_def case_prod_beta ac_simps)
  finally show ?case using t(1) by simp
qed simp

section \<open>The handshake\<close>

text \<open>
  What the Noise specification says of a run of pattern XX between the owners of two key pairs
  with the same prologue: the three messages go through, each end then knows the other's static
  key, and the two pairs of keys are the same. Creating a state never fails.
\<close>

definition xx_law ::
    "('h, 'c, 'r) handshake_api \<Rightarrow> ('c, 'k) cipher_api \<Rightarrow> bytes option \<Rightarrow> Keypair \<Rightarrow> Keypair \<Rightarrow> bool" where
  "xx_law hapi api pro ka kb \<longleftrightarrow> (\<forall>ra rb. \<exists>hi hr.
     h_new hapi True pro (raw (kp_Private ka)) (raw (kp_Public ka)) ra = Some hi
     \<and> h_new hapi False pro (raw (kp_Private kb)) (raw (kp_Public kb)) rb = Some hr
     \<and> (\<exists>m1 m2 m3 x y z v hi1 hi2 hi3 hr1 hr2 hr3 a b c d.
          h_write hapi hi = (Some (m1, x), hi1) \<and> h_read hapi m1 hr = (Some y, hr1)
          \<and> h_write hapi hr1 = (Some (m2, z), hr2) \<and> h_read hapi m2 hi1 = (Some v, hi2)
          \<and> h_peerStatic hapi hi2 = kp_Public kb
          \<and> h_write hapi hi2 = (Some (m3, Some a, Some b), hi3) \<and> h_peerStatic hapi hi3 = kp_Public kb
          \<and> h_read hapi m3 hr2 = (Some (Some c, Some d), hr3) \<and> h_peerStatic hapi hr3 = kp_Public ka
          \<and> c_key api a = c_key api c \<and> c_key api b = c_key api d))"

section \<open>Paths between the two ends\<close>

text \<open>The source a receiver sees.\<close>

definition seen :: "path \<Rightarrow> UDPAddr option \<Rightarrow> UDPAddr \<Rightarrow> UDPAddr option" where
  "seen md relay addr = (if md = PathRelay then relay else Some addr)"

text \<open>A path exists when the relay does, or when neither endpoint has the relay's text.\<close>

definition usable :: "path \<Rightarrow> UDPAddr option \<Rightarrow> UDPAddr \<Rightarrow> UDPAddr \<Rightarrow> bool" where
  "usable md relay ea eb \<longleftrightarrow>
     (if md = PathRelay then relay \<noteq> None
      else md = PathDirect \<and> UDPAddr_String (Some ea) \<noteq> UDPAddr_String relay
        \<and> UDPAddr_String (Some eb) \<noteq> UDPAddr_String relay)"

lemma HandleFrame_seen:
  assumes "usable md relay ea eb" "a = ea \<or> a = eb" "length m \<le> maxPayloadLen"
  shows "HandleFrame hapi api relay rnd now (seen md relay a) (the (Frame t m)) p
     = handleFrameByPath hapi api rnd now md t m p"
  using assms Parse_the_Frame [OF assms(3), of t]
  by (auto simp: HandleFrame_def usable_def seen_def simp del: Frame_Some split: if_splits)

text \<open>The largest message of a path.\<close>

definition room :: "path \<Rightarrow> nat" where
  "room md = maxPlaintextLen - (if md = PathRelay then MaxHeaderLen else 0)"

section \<open>The two ends\<close>

text \<open>A peer with the key pair \<open>mine\<close> that expects the owner of \<open>other\<close>; one before its handshake.\<close>

definition keyed :: "Keypair \<Rightarrow> Keypair \<Rightarrow> ('h, 'c) peer \<Rightarrow> bool" where
  "keyed mine other p \<longleftrightarrow> p_myKp p = Some mine \<and> p_peerStatic p = raw (kp_Public other)
     \<and> p_DirectEP p \<noteq> None \<and> \<not> p_closed p \<and> \<not> p_recvClosed p
     \<and> static_ok (Some mine) \<and> static_ok (Some other)"

definition ready :: "Keypair \<Rightarrow> Keypair \<Rightarrow> ('h, 'c) peer \<Rightarrow> bool" where
  "ready mine other p \<longleftrightarrow> keyed mine other p \<and> \<not> p_established p \<and> p_sess p = None
     \<and> p_hs1Frame p = None \<and> p_responder p = None"

lemma keyed_length: "keyed mine other p \<Longrightarrow> length (raw (kp_Public other)) = 32"
  by (auto simp: keyed_def static_ok_def KeySize_def)

text \<open>The machine of an initiator that has sent its first message.\<close>

abbreviation asked :: "Keypair \<Rightarrow> 'h \<Rightarrow> ('h, 'c) initiator" where
  "asked other hi \<equiv> \<lparr>in_hs = Some hi, in_expected = Some (raw (kp_Public other)), in_session = None,
     in_phase = phaseMessage1\<rparr>"

lemma newHS1_keyed:
  assumes "keyed ka kb a"
    and "h_new hapi True (Some Prologue) (raw (kp_Private ka)) (raw (kp_Public ka)) ra = Some hi"
    and "h_write hapi hi = (Some (m1, x), hi1)"
  shows "newHS1 hapi ra a = Inr (asked kb hi1, m1)"
  using assms by (cases x) (simp add: newHS1_def keyed_def NewInitiator_def static_ok_def Message1_def)

lemma tick_ready:
  assumes "ready ka kb a" "p_initiator a" "p_mode a = md" "md \<noteq> PathNone"
    and "time_sub now (p_lastHS1 a) \<ge> HS1ResendInterval" "time_sub now (p_phaseStart a) \<le> attemptFor md"
    and "newHS1 hapi ra a = Inr (i, m1)" "length m1 \<le> maxPayloadLen" "p_DirectEP a = Some eb"
  shows "tick hapi api ra relay now ok a = Some (a\<lparr>p_initiatorHS := Some i,
      p_hs1Frame := Frame TypeHS1 m1, p_lastHS1 := now\<rparr>, [wire md (p_ID a) eb (the (Frame TypeHS1 m1))])"
  using assms
  by (simp add: tick_def Let_def ready_def clearStale_def punch_def addressFor_def sendFrame_def wire_def emit_def)

lemma onHS1_open:
  assumes "keyed kb ka b" "p_responder b = None" "\<not> (p_established b \<and> p_path b \<noteq> PathRelay)"
    and "fst (hs1_draw 1 now (p_hsBurst b))"
    and "h_new hapi False (Some Prologue) (raw (kp_Private kb)) (raw (kp_Public kb)) rb = Some hr"
    and "h_read hapi m1 hr = (Some y, hr1)" "h_write hapi hr1 = (Some (m2, z), hr2)"
    and "length m2 \<le> maxPayloadLen" "p_DirectEP b = Some ea"
  shows "onHS1 hapi rb now m1 md b = Some (b\<lparr>p_hsBurst := snd (hs1_draw 1 now (p_hsBurst b)),
      p_responder := Some \<lparr>re_hs = Some hr2, re_session = None, re_phase = phaseMessage2\<rparr>,
      p_hs1Msg := Some m1, p_hs2Frame := Frame TypeHS2 m2, p_hs2SentAt := now, p_mode := md,
      p_phaseStart := now\<rparr>, [wire md (p_ID b) ea (the (Frame TypeHS2 m2))])"
proof -
  obtain bud where d: "hs1_draw 1 now (p_hsBurst b) = (True, bud)"
    using assms(4) by (cases "hs1_draw 1 now (p_hsBurst b)") auto
  have "NewResponder hapi rb (Some kb) (Some Prologue) =
      Inr \<lparr>re_hs = Some hr, re_session = None, re_phase = phaseStart\<rparr>"
    using assms(1,5) by (simp add: NewResponder_def keyed_def static_ok_def)
  then have "acceptHS1 hapi rb now m1 md (b\<lparr>p_hsBurst := bud\<rparr>) = Some (b\<lparr>p_hsBurst := bud,
      p_responder := Some \<lparr>re_hs = Some hr2, re_session = None, re_phase = phaseMessage2\<rparr>,
      p_hs1Msg := Some m1, p_hs2Frame := Frame TypeHS2 m2, p_hs2SentAt := now, p_mode := md,
      p_phaseStart := now\<rparr>, [wire md (p_ID b) ea (the (Frame TypeHS2 m2))])"
    using assms(1,2,6-9) by (cases y; cases z)
      (simp add: acceptHS1_def keyed_def ReadMessage1_def Message2_def sendFrame_def emit_def wire_def)
  then show ?thesis using assms(2,3) by (auto simp: onHS1_def d)
qed

text \<open>What both ends have after the handshake: a fresh session with the other's key, on that path.\<close>

definition up :: "path \<Rightarrow> bytes option \<Rightarrow> 'c \<Rightarrow> 'c \<Rightarrow> ('h, 'c) peer \<Rightarrow> bool" where
  "up md static sk rk p \<longleftrightarrow> (\<exists>s. p_sess p = Some s \<and> complete_session s \<and> s_send s = Some sk
     \<and> s_recv s = Some rk \<and> PeerStatic s = static)
   \<and> p_established p \<and> p_path p = md \<and> p_replay p = newReplayWindow replayWindowSizeBits
   \<and> \<not> p_closed p \<and> \<not> p_recvClosed p \<and> p_DirectEP p \<noteq> None"

definition rekeys :: "('h, 'c) peer \<Rightarrow> u64" where
  "rekeys p = p_rekeyCount p + (if p_sess p \<noteq> None then 1 else 0)"

lemma onHS2_asked:
  assumes "keyed ka kb a" "p_initiatorHS a = Some (asked kb hi1)"
    and "h_read hapi m2 hi1 = (Some v, hi2)" "h_peerStatic hapi hi2 = kp_Public kb"
    and "h_write hapi hi2 = (Some (m3, Some x, Some y), hi3)" "h_peerStatic hapi hi3 = kp_Public kb"
    and "length m3 \<le> maxPayloadLen" "p_DirectEP a = Some eb"
  shows "\<exists>a2. onHS2 hapi now m2 md a = Some (a2, [Installed, wire md (p_ID a) eb (the (Frame TypeHS3 m3))])
     \<and> up md (kp_Public kb) x y a2 \<and> p_rekeyCount a2 = rekeys a"
proof -
  have "ReadMessage2 hapi (asked kb hi1) m2 = (Inr blank_session,
      \<lparr>in_hs = Some hi2, in_expected = Some (raw (kp_Public kb)), in_session = Some blank_session,
       in_phase = phaseMessage2\<rparr>)"
    using assms(3,4) by (cases v) (simp add: ReadMessage2_def)
  moreover obtain i3 where "WriteMessage3 hapi now \<lparr>in_hs = Some hi2, in_expected = Some (raw (kp_Public kb)),
      in_session = Some blank_session, in_phase = phaseMessage2\<rparr> = (Inr m3, i3)"
    "in_session i3 = Some (blank_session\<lparr>s_send := Some x, s_recv := Some y,
       s_peerStatic := kp_Public kb, s_channelBinding := h_channelBinding hapi hi3, s_start := now\<rparr>)"
    using assms(5,6) by (simp add: WriteMessage3_def)
  ultimately show ?thesis
    using assms(1,7,8) keyed_length [OF assms(1)]
    by (simp add: onHS2_def assms(2) Let_def setSessionLocked_def PeerStatic_def up_def complete_filled
        sendFrame_def emit_def wire_def keyed_def rekeys_def)
qed

lemma onHS3_open:
  assumes "keyed kb ka b"
    and "p_responder b = Some \<lparr>re_hs = Some hr2, re_session = None, re_phase = phaseMessage2\<rparr>"
    and "h_read hapi m3 hr2 = (Some (Some x, Some y), hr3)" "h_peerStatic hapi hr3 = kp_Public ka"
  shows "\<exists>b2. onHS3 hapi now m3 md b = (b2, [Installed]) \<and> up md (kp_Public ka) y x b2
     \<and> p_rekeyCount b2 = rekeys b"
proof -
  obtain r3 where "ReadMessage3 hapi now \<lparr>re_hs = Some hr2, re_session = None, re_phase = phaseMessage2\<rparr> m3
     = (Inr (blank_session\<lparr>s_send := Some y, s_recv := Some x, s_peerStatic := kp_Public ka,
          s_channelBinding := h_channelBinding hapi hr3, s_start := now\<rparr>), r3)"
    using assms(3,4) by (simp add: ReadMessage3_def Let_def)
  then show ?thesis
    using assms(1) keyed_length [OF assms(1)]
    by (simp add: onHS3_def assms(2) Let_def setSessionLocked_def PeerStatic_def up_def complete_filled
        clearHalfOpen_def keyed_def rekeys_def)
qed

lemma up_linked:
  assumes "up md st x y a" "up md' st' x' y' b" "c_key api x = c_key api y'"
  shows "linked api rk (c_key api x) a b 0"
proof -
  obtain s r where "p_sess a = Some s" "complete_session s" "s_send s = Some x"
    "p_sess b = Some r" "complete_session r" "s_recv r = Some y'"
    "p_replay b = newReplayWindow replayWindowSizeBits"
    using assms(1,2) unfolding up_def by blast
  moreover have "send_keyed api rk (c_key api x) s" "recv_keyed api rk (c_key api x) r"
    using calculation assms(3)
    by (simp_all add: send_keyed_def recv_keyed_def complete_session_def fresh_session_def)
  ultimately show ?thesis
    using assms(1,2) tracks_default
    by (auto simp: linked_def up_def complete_session_def fresh_session_def on_schedule_def)
qed

lemma up_fits: "up md st x y a \<Longrightarrow> length m \<le> room md \<Longrightarrow> fits a m"
  by (auto simp: fits_def up_def room_def maxPlaintextLen_eq MaxHeaderLen_def MaxNameLen_def split: if_splits)

section \<open>The handshake completes\<close>

text \<open>
  The first message \<open>f1\<close> of \<open>a\<close> reaches \<open>b\<close> and each answer is handled by the other end: two
  more datagrams, then both ends are established on that path with each other's key and
  messages flow in both directions.
\<close>

definition completes ::
    "('h, 'c, 'r) handshake_api \<Rightarrow> ('c, 'k) cipher_api \<Rightarrow> UDPAddr option \<Rightarrow> path \<Rightarrow> 'r \<Rightarrow> 'r
     \<Rightarrow> gotime \<times> gotime \<times> gotime \<times> gotime \<Rightarrow> Keypair \<Rightarrow> Keypair \<Rightarrow> UDPAddr \<Rightarrow> UDPAddr
     \<Rightarrow> ('h, 'c) peer \<Rightarrow> bytes \<Rightarrow> ('h, 'c) peer \<Rightarrow> bool" where
  "completes hapi api relay md ra rb ts ka kb ea eb a f1 b \<longleftrightarrow> (case ts of (t2, t3, t4, t5) \<Rightarrow>
    \<exists>b1 f2 a2 f3 b2.
      HandleFrame hapi api relay rb t2 (seen md relay ea) f1 b = Some (b1, [wire md (p_ID b) ea f2])
    \<and> HandleFrame hapi api relay ra t3 (seen md relay eb) f2 a = Some (a2, [Installed, wire md (p_ID a) eb f3])
    \<and> HandleFrame hapi api relay rb t4 (seen md relay ea) f3 b1 = Some (b2, [Installed])
    \<and> p_established a2 \<and> p_established b2 \<and> p_path a2 = md \<and> p_path b2 = md
    \<and> RemoteStatic a2 = kp_Public kb \<and> RemoteStatic b2 = kp_Public ka
    \<and> p_rekeyCount a2 = rekeys a \<and> p_rekeyCount b2 = rekeys b
    \<and> (\<forall>ms. length ms \<le> 18446744073709551615 \<and> (\<forall>m\<in>set ms. length m \<le> room md) \<longrightarrow>
         transfers hapi api relay (seen md relay ea) ra t5 ms (a2, b2)
           = map (\<lambda>(i, m). Accepted (of_nat i) m) (enumerate 0 ms)
       \<and> transfers hapi api relay (seen md relay eb) ra t5 ms (b2, a2)
           = map (\<lambda>(i, m). Accepted (of_nat i) m) (enumerate 0 ms)))"

text \<open>One tick of \<open>a\<close> starts it.\<close>

definition connects ::
    "('h, 'c, 'r) handshake_api \<Rightarrow> ('c, 'k) cipher_api \<Rightarrow> UDPAddr option \<Rightarrow> path \<Rightarrow> 'r \<Rightarrow> 'r
     \<Rightarrow> gotime \<Rightarrow> gotime \<times> gotime \<times> gotime \<times> gotime \<Rightarrow> Keypair \<Rightarrow> Keypair \<Rightarrow> UDPAddr \<Rightarrow> UDPAddr
     \<Rightarrow> ('h, 'c) peer \<Rightarrow> ('h, 'c) peer \<Rightarrow> bool" where
  "connects hapi api relay md ra rb t1 ts ka kb ea eb a b \<longleftrightarrow> (\<exists>a1 f1.
      tick hapi api ra relay t1 True a = Some (a1, [wire md (p_ID a) eb f1])
    \<and> completes hapi api relay md ra rb ts ka kb ea eb a1 f1 b)"

text \<open>A message of a run of the pattern, made and read with the machines of the two ends.\<close>

lemma xx_completes:
  assumes laws: "cipher_laws api seal opn rk" "expansion_law api" "msg_law hapi"
      "xx_law hapi api (Some Prologue) ka kb"
    and b: "keyed kb ka b" "\<not> p_initiator b" "p_responder b = None"
      "\<not> (p_established b \<and> p_path b \<noteq> PathRelay)" "fst (hs1_draw 1 t2 (p_hsBurst b))"
      "p_DirectEP b = Some ea"
    and path: "usable md relay ea eb"
  obtains hi1 m1 where "\<And>a. keyed ka kb a \<Longrightarrow> newHS1 hapi ra a = Inr (asked kb hi1, m1)"
    "length m1 \<le> maxPayloadLen"
    "\<And>a. keyed ka kb a \<Longrightarrow> p_initiator a \<Longrightarrow> p_initiatorHS a = Some (asked kb hi1) \<Longrightarrow>
       p_DirectEP a = Some eb \<Longrightarrow>
       completes hapi api relay md ra rb (t2, t3, t4, t5) ka kb ea eb a (the (Frame TypeHS1 m1)) b"
proof -
  obtain hi hr m1 m2 m3 x y z v hi1 hi2 hi3 hr1 hr2 hr3 k1 k2 k3 k4 where
    h: "h_new hapi True (Some Prologue) (raw (kp_Private ka)) (raw (kp_Public ka)) ra = Some hi"
      "h_new hapi False (Some Prologue) (raw (kp_Private kb)) (raw (kp_Public kb)) rb = Some hr"
      "h_write hapi hi = (Some (m1, x), hi1)" "h_read hapi m1 hr = (Some y, hr1)"
      "h_write hapi hr1 = (Some (m2, z), hr2)" "h_read hapi m2 hi1 = (Some v, hi2)"
      "h_peerStatic hapi hi2 = kp_Public kb" "h_write hapi hi2 = (Some (m3, Some k1, Some k2), hi3)"
      "h_peerStatic hapi hi3 = kp_Public kb" "h_read hapi m3 hr2 = (Some (Some k3, Some k4), hr3)"
      "h_peerStatic hapi hr3 = kp_Public ka" "c_key api k1 = c_key api k3" "c_key api k2 = c_key api k4"
    using laws(4) [unfolded xx_law_def, THEN spec, THEN spec, of ra rb]
    by (elim exE conjE) (rule that; assumption)
  have m: "length m1 \<le> maxPayloadLen" "length m2 \<le> maxPayloadLen" "length m3 \<le> maxPayloadLen"
    using msg_lawD [OF laws(3)] h(3,5,8) by (cases x; cases z; fastforce simp: maxPayloadLen_def)+
  have flow: "transfers hapi api relay src ra t5 ms (p, q)
      = map (\<lambda>(i, m). Accepted (of_nat i) m) (enumerate 0 ms)"
    if "up md st k l p" "up md st' k' l' q" "c_key api k = c_key api l'"
      "length ms \<le> 18446744073709551615" "\<forall>m\<in>set ms. length m \<le> room md"
    for p q st st' k l k' l' src ms
    using transfers_linked [OF laws(1,2) up_linked [OF that(1-3)], of ms hapi relay src ra t5]
      that(4,5) up_fits [OF that(1)] by simp
  have "completes hapi api relay md ra rb (t2, t3, t4, t5) ka kb ea eb a (the (Frame TypeHS1 m1)) b"
    if a: "keyed ka kb a" "p_initiator a" "p_initiatorHS a = Some (asked kb hi1)" "p_DirectEP a = Some eb" for a
  proof -
    obtain b1 where b1: "onHS1 hapi rb t2 m1 md b = Some (b1, [wire md (p_ID b) ea (the (Frame TypeHS2 m2))])"
      "p_responder b1 = Some \<lparr>re_hs = Some hr2, re_session = None, re_phase = phaseMessage2\<rparr>"
      "p_initiator b1 = p_initiator b" "keyed kb ka b1" "rekeys b1 = rekeys b"
      using onHS1_open [OF b(1,3-5) h(2,4,5) m(2) b(6), of md] b(1) by (simp add: keyed_def rekeys_def del: Frame_Some)
    obtain a2 where a2: "onHS2 hapi t3 m2 md a = Some (a2, [Installed, wire md (p_ID a) eb (the (Frame TypeHS3 m3))])"
      "up md (kp_Public kb) k1 k2 a2" "p_rekeyCount a2 = rekeys a"
      using onHS2_asked [OF a(1,3) h(6-9) m(3) a(4), of t3 md] by blast
    obtain b2 where b2: "onHS3 hapi t4 m3 md b1 = (b2, [Installed])" "up md (kp_Public ka) k4 k3 b2"
      "p_rekeyCount b2 = rekeys b1"
      using onHS3_open [OF b1(4,2) h(10,11), of t4 md] by blast
    have steps: "HandleFrame hapi api relay rb t2 (seen md relay ea) (the (Frame TypeHS1 m1)) b
          = Some (b1, [wire md (p_ID b) ea (the (Frame TypeHS2 m2))])"
        "HandleFrame hapi api relay ra t3 (seen md relay eb) (the (Frame TypeHS2 m2)) a
          = Some (a2, [Installed, wire md (p_ID a) eb (the (Frame TypeHS3 m3))])"
        "HandleFrame hapi api relay rb t4 (seen md relay ea) (the (Frame TypeHS3 m3)) b1 = Some (b2, [Installed])"
      unfolding HandleFrame_seen [OF path disjI1 [OF refl] m(1)] HandleFrame_seen [OF path disjI2 [OF refl] m(2)]
        HandleFrame_seen [OF path disjI1 [OF refl] m(3)]
      using a(2) b(2) b1(1,3) a2(1) b2(1)
      by (simp_all add: handleFrameByPath_def frame_types del: Frame_Some)
    have "p_established a2" "p_established b2" "p_path a2 = md" "p_path b2 = md"
      "RemoteStatic a2 = kp_Public kb" "RemoteStatic b2 = kp_Public ka"
      using a2(2) b2(2) by (auto simp: up_def RemoteStatic_def)
    then show ?thesis
      unfolding completes_def prod.case
      using steps a2(3) b2(3) b1(5) flow [OF a2(2) b2(2) h(12)] flow [OF b2(2) a2(2) h(13) [symmetric]] by metis
  qed
  with newHS1_keyed [OF _ h(1,3)] m(1) show thesis using that by blast
qed

lemma startRun_ready:
  assumes "ready mine other p"
  shows "ready mine other (startRun relay now p)" "p_mode (startRun relay now p) = PathDirect"
    "p_phaseStart (startRun relay now p) = now" "p_initiator (startRun relay now p) = p_initiator p"
    "p_DirectEP (startRun relay now p) = p_DirectEP p" "p_lastHS1 (startRun relay now p) = p_lastHS1 p"
    "p_hsBurst (startRun relay now p) = p_hsBurst p"
  using assms by (auto simp: startRun_def ready_def keyed_def)

text \<open>A peer that has not started: one tick of the initiator and the path connect the two ends.\<close>

lemma pair_connects:
  assumes laws: "cipher_laws api seal opn rk" "expansion_law api" "msg_law hapi"
      "xx_law hapi api (Some Prologue) ka kb"
    and a: "ready ka kb a" "p_initiator a" "p_mode a = md" "p_DirectEP a = Some eb"
      "time_sub t1 (p_lastHS1 a) \<ge> HS1ResendInterval" "time_sub t1 (p_phaseStart a) \<le> attemptFor md"
    and b: "ready kb ka b" "\<not> p_initiator b" "fst (hs1_draw 1 t2 (p_hsBurst b))" "p_DirectEP b = Some ea"
    and path: "usable md relay ea eb"
  shows "connects hapi api relay md ra rb t1 (t2, t3, t4, t5) ka kb ea eb a b"
proof -
  have b': "keyed kb ka b" "p_responder b = None" "\<not> (p_established b \<and> p_path b \<noteq> PathRelay)"
    using b(1) by (auto simp: ready_def)
  obtain hi1 m1 where h: "\<And>a. keyed ka kb a \<Longrightarrow> newHS1 hapi ra a = Inr (asked kb hi1, m1)"
    "length m1 \<le> maxPayloadLen"
    "\<And>a. keyed ka kb a \<Longrightarrow> p_initiator a \<Longrightarrow> p_initiatorHS a = Some (asked kb hi1) \<Longrightarrow>
       p_DirectEP a = Some eb \<Longrightarrow>
       completes hapi api relay md ra rb (t2, t3, t4, t5) ka kb ea eb a (the (Frame TypeHS1 m1)) b"
    using xx_completes [OF laws b'(1) b(2) b'(2,3) b(3,4) path] by metis
  have k: "keyed ka kb a" using a(1) by (simp add: ready_def)
  have "md \<noteq> PathNone" using path by (auto simp: usable_def split: if_splits)
  note t = tick_ready [OF a(1-3) this a(5,6) h(1) [OF k] h(2) a(4), of api relay True]
  show ?thesis
    unfolding connects_def by (intro exI conjI, rule t, rule h(3)) (use k a(2,4) in \<open>simp_all add: keyed_def\<close>)
qed

section \<open>Falling back to the relay\<close>

text \<open>
  An initiator whose direct attempt has lasted \<open>DirectAttempt\<close> without an answer: the next tick
  turns it to the relay with its handshake reset, so that it is ready again.
\<close>

lemma tick_falls_back:
  assumes "keyed ka kb a" "p_initiator a" "\<not> p_established a" "p_sess a = None" "p_mode a = PathDirect"
    and "relay \<noteq> None" "time_sub now (p_phaseStart a) > DirectAttempt"
    and "newHS1 hapi ra (clearStale now a) = Inr (i, m1)" "length m1 \<le> maxPayloadLen"
  shows "\<exists>a' e. tick hapi api ra relay now True a = Some (a', [e]) \<and> ready ka kb a' \<and> p_initiator a'
     \<and> p_mode a' = PathRelay \<and> p_phaseStart a' = now \<and> p_DirectEP a' = p_DirectEP a
     \<and> p_lastHS1 a' \<in> {p_lastHS1 a, now}"
proof -
  let ?c = "clearStale now a"
  have c: "p_initiator ?c" "\<not> p_established ?c" "p_mode ?c = PathDirect" "p_lastHS1 ?c = p_lastHS1 a"
    "p_DirectEP ?c = p_DirectEP a" "keyed ka kb ?c" "p_sess ?c = None"
    using assms(1-5) by (auto simp: clearStale_def clearHalfOpen_def keyed_def)
  obtain ep where ep: "p_DirectEP a = Some ep" using assms(1) by (auto simp: keyed_def)
  have "\<exists>p e. punch hapi ra relay now PathDirect ?c = Some (p, Some e) \<and> keyed ka kb p \<and> p_initiator p
      \<and> \<not> p_established p \<and> p_sess p = None \<and> p_DirectEP p = p_DirectEP a \<and> p_lastHS1 p \<in> {p_lastHS1 a, now}"
    using c assms(8,9) ep
    by (auto simp: punch_def addressFor_def sendFrame_def keyed_def maxPayloadLen_def split: option.splits)
  then obtain p e where p: "punch hapi ra relay now PathDirect ?c = Some (p, Some e)" "keyed ka kb p"
    "p_initiator p" "\<not> p_established p" "p_sess p = None" "p_DirectEP p = p_DirectEP a"
    "p_lastHS1 p \<in> {p_lastHS1 a, now}" by blast
  have "tick hapi api ra relay now True a = Some (switchMode relay now PathDirect p, [e])"
    using assms(3,5,7) p(1) by (simp add: tick_def Let_def attemptFor_def emit_def)
  moreover have "ready ka kb (switchMode relay now PathDirect p)"
    using p(2,4,5) assms(6) by (auto simp: switchMode_def resetHandshakeLocked_def ready_def keyed_def)
  ultimately show ?thesis
    using p(3,6,7) assms(6) by (auto simp: switchMode_def resetHandshakeLocked_def)
qed

lemma relay_fallback_connects:
  assumes laws: "cipher_laws api seal opn rk" "expansion_law api" "msg_law hapi"
      "xx_law hapi api (Some Prologue) ka kb"
    and a: "keyed ka kb a" "p_initiator a" "\<not> p_established a" "p_sess a = None" "p_mode a = PathDirect"
      "p_DirectEP a = Some eb" "time_sub t0 (p_phaseStart a) > DirectAttempt" "p_lastHS1 a \<le> t0"
    and later: "t0 + HS1ResendInterval \<le> t1" "t1 \<le> t0 + RelayAttempt"
    and b: "ready kb ka b" "\<not> p_initiator b" "fst (hs1_draw 1 t2 (p_hsBurst b))" "p_DirectEP b = Some ea"
    and relay: "relay \<noteq> None"
  shows "\<exists>a0 e. tick hapi api ra relay t0 True a = Some (a0, [e]) \<and> p_mode a0 = PathRelay
     \<and> connects hapi api relay PathRelay ra rb t1 (t2, t3, t4, t5) ka kb ea eb a0 b"
proof -
  have path: "usable PathRelay relay ea eb" using relay by (simp add: usable_def)
  have b': "keyed kb ka b" "p_responder b = None" "\<not> (p_established b \<and> p_path b \<noteq> PathRelay)"
    using b(1) by (auto simp: ready_def)
  obtain hi1 m1 where h: "\<And>a. keyed ka kb a \<Longrightarrow> newHS1 hapi ra a = Inr (asked kb hi1, m1)" "length m1 \<le> maxPayloadLen"
    using xx_completes [OF laws b'(1) b(2) b'(2,3) b(3,4) path] by metis
  have "keyed ka kb (clearStale t0 a)" using a(1) by (simp add: clearStale_def clearHalfOpen_def keyed_def)
  note n = h(1) [OF this]
  obtain a0 e where a0: "tick hapi api ra relay t0 True a = Some (a0, [e])" "ready ka kb a0" "p_initiator a0"
    "p_mode a0 = PathRelay" "p_phaseStart a0 = t0" "p_DirectEP a0 = Some eb" "p_lastHS1 a0 \<le> t0"
    using tick_falls_back [OF a(1-5) relay a(7) n h(2), of api] a(6,8) by fastforce
  have "time_sub t1 (p_lastHS1 a0) \<ge> HS1ResendInterval" "time_sub t1 (p_phaseStart a0) \<le> attemptFor PathRelay"
    using later a0(5,7) by (simp_all add: attemptFor_def disco_timing time_sub_def max_duration_def min_duration_def)
  then have "connects hapi api relay PathRelay ra rb t1 (t2, t3, t4, t5) ka kb ea eb a0 b"
    by (intro pair_connects [OF laws a0(2-4,6) _ _ b path])
  with a0(1,4) show ?thesis by blast
qed

section \<open>Back to the direct path\<close>

text \<open>
  An initiator established through the relay starts a handshake on the direct path every ten
  seconds; the session it has stays in use.
\<close>

lemma tick_retries_direct:
  assumes "p_established a" "p_path a = PathRelay" "p_mode a = PathRelay" "p_initiator a" "p_DirectEP a = Some eb"
    and "\<not> p_hs3Pending a" "time_sub now (p_sessSince a) \<le> sessionMaxAge"
    and "time_sub now (p_lastHS1 a) > ReestablishInterval" "time_sub now (p_lastSent a) \<le> KeepaliveInterval"
    and "newHS1 hapi ra (clearStale now a) = Inr (i, m1)" "length m1 \<le> maxPayloadLen"
  shows "\<exists>a'. tick hapi api ra relay now ok a = Some (a', [SendDirect eb (the (Frame TypeHS1 m1))])
     \<and> p_initiatorHS a' = Some i \<and> p_sess a' = p_sess a \<and> p_established a' \<and> p_path a' = PathRelay
     \<and> p_initiator a' \<and> p_DirectEP a' = Some eb \<and> p_myKp a' = p_myKp a \<and> p_peerStatic a' = p_peerStatic a
     \<and> p_closed a' = p_closed a \<and> p_recvClosed a' = p_recvClosed a \<and> p_rekeyCount a' = p_rekeyCount a"
  using assms
  by (simp add: tick_def Let_def retryDirect_def keepalive_def emit_def clearStale_def clearHalfOpen_def)

end
