(* ===== verification/Peer_Pair.thy ===== *)
theory Peer_Pair
  imports Peer_Link
begin

text \<open>
  The properties of two peers at the ends of a path: that they find each other, on the direct
  path and through the relay, and what can keep them apart.
\<close>

section \<open>A pair that stays apart\<close>

text \<open>
  The two ends \<open>a\<close> and \<open>b\<close> of a pair, and the datagrams \<open>a\<close> has sent. The network delivers to
  \<open>b\<close> any of them, in any order and any number of times, and anything at all to \<open>a\<close>.
\<close>

datatype 'r pair_action =
    TickA 'r gotime bool
  | SendA bytes gotime bool
  | ToA "UDPAddr option" bytes 'r gotime
  | OwnB "'r event"                          \<comment> \<open>anything but an incoming frame\<close>
  | ToB nat "UDPAddr option" 'r gotime

definition frames_of :: "effect list \<Rightarrow> bytes list" where
  "frames_of es = List.map_filter carried es"

fun pair_step ::
    "('h, 'c, 'r) handshake_api \<Rightarrow> ('c, 'k) cipher_api \<Rightarrow> UDPAddr option \<Rightarrow> 'r pair_action
     \<Rightarrow> ('h, 'c) peer \<times> ('h, 'c) peer \<times> bytes list \<Rightarrow> (('h, 'c) peer \<times> ('h, 'c) peer \<times> bytes list) option" where
  "pair_step hapi api relay (TickA rnd now ok) (a, b, w) =
     map_option (\<lambda>(a, es). (a, b, w @ frames_of es)) (tick hapi api rnd relay now ok a)"
| "pair_step hapi api relay (SendA m now ok) (a, b, w) =
     map_option (\<lambda>(_, a, es). (a, b, w @ frames_of es)) (SendPeer api now ok m a)"
| "pair_step hapi api relay (ToA src f rnd now) (a, b, w) =
     map_option (\<lambda>(a, es). (a, b, w @ frames_of es)) (HandleFrame hapi api relay rnd now src f a)"
| "pair_step hapi api relay (OwnB ev) (a, b, w) =
     (case ev of EvFrame _ _ _ _ \<Rightarrow> Some (a, b, w)
      | _ \<Rightarrow> map_option (\<lambda>(b, es). (a, b, w)) (peer_step hapi api relay ev b))"
| "pair_step hapi api relay (ToB i src rnd now) (a, b, w) =
     (if i < length w
      then map_option (\<lambda>(b, es). (a, b, w)) (HandleFrame hapi api relay rnd now src (w ! i) b)
      else Some (a, b, w))"

fun pair_run ::
    "('h, 'c, 'r) handshake_api \<Rightarrow> ('c, 'k) cipher_api \<Rightarrow> UDPAddr option \<Rightarrow> 'r pair_action list
     \<Rightarrow> ('h, 'c) peer \<times> ('h, 'c) peer \<times> bytes list \<Rightarrow> (('h, 'c) peer \<times> ('h, 'c) peer \<times> bytes list) option" where
  "pair_run hapi api relay [] s = Some s"
| "pair_run hapi api relay (x # xs) s =
     (case pair_step hapi api relay x s of None \<Rightarrow> None | Some s' \<Rightarrow> pair_run hapi api relay xs s')"

text \<open>
  One end thinks it is done: established on the direct path since \<open>t0\<close>, its handshake machine
  finished, at most an HS3 frame to repeat. The other end has no session and waits for no HS3.
\<close>

definition settled :: "gotime \<Rightarrow> ('h, 'c) peer \<Rightarrow> bool" where
  "settled t0 a \<longleftrightarrow> p_established a \<and> p_path a = PathDirect \<and> p_sessSince a = t0
     \<and> (p_initiator a \<or> p_responder a = None)
     \<and> (\<forall>i. p_initiatorHS a = Some i \<longrightarrow> in_phase i = phaseComplete)
     \<and> (\<forall>f. p_hs3Frame a = Some f \<longrightarrow> (\<exists>m. Frame TypeHS3 m = Some f))"

definition unserved :: "('h, 'c) peer \<Rightarrow> bool" where
  "unserved b \<longleftrightarrow> (p_initiator b \<or> p_responder b = None) \<and> p_sess b = None \<and> \<not> p_established b"

definition late_frame :: "bytes \<Rightarrow> bool" where
  "late_frame f \<longleftrightarrow> (\<exists>t m. Parse f = Inr (t, m) \<and> t \<in> {TypeHS3, TypeData})"

lemma late_Frame: "Frame t m = Some f \<Longrightarrow> t \<in> {TypeHS3, TypeData} \<Longrightarrow> late_frame f"
  using Parse_Frame unfolding late_frame_def by blast

lemma frames_of_simps [simp]: "frames_of [] = []" "frames_of (es @ fs) = frames_of es @ frames_of fs"
  "frames_of (SendDirect a f # es) = f # frames_of es" "frames_of (SendRelay n f # es) = f # frames_of es"
  "frames_of (Accepted k m # es) = frames_of es" "frames_of (Installed # es) = frames_of es"
  by (simp_all add: frames_of_def List.map_filter_def)

lemma frames_sendFrame: "f' \<in> set (frames_of (emit (sendFrame p mode d f))) \<Longrightarrow> f' = f"
  by (auto simp: emit_def sendFrame_def split: option.splits if_splits)

lemma settled_SendPeer:
  assumes "settled t0 a" "SendPeer api now ok m a = Some (e, a', es)"
  shows "settled t0 a' \<and> (\<forall>f\<in>set (frames_of es). late_frame f)"
proof -
  obtain r a1 where enc: "encryptLocked api now m a = Some (r, a1)"
    using assms(2) by (auto simp: SendPeer_def split: option.splits)
  have a1: "settled t0 a1"
    using enc assms(1) by (auto simp: encryptLocked_def Let_def settled_def
        split: option.splits sum.splits prod.splits if_splits)
  have r: "late_frame f" if "r = Inr (f, mode, dst)" for f mode dst
    using enc late_Frame unfolding that by (elim encryptLocked_Inr) blast
  show ?thesis
  proof (cases r)
    case (Inr x)
    obtain f mode dst where x: "x = (f, mode, dst)" by (cases x)
    show ?thesis
      using assms(2) enc Inr x a1 r
      by (auto simp: SendPeer_def sendFrame_def split: option.splits if_splits)
  qed (use assms(2) enc a1 in \<open>simp add: SendPeer_def\<close>)
qed

lemma settled_resendHS3:
  assumes "settled t0 a" "resendHS3 now a = (a', es)"
  shows "settled t0 a' \<and> (\<forall>f\<in>set (frames_of es). late_frame f)"
  using assms late_Frame
  by (auto simp: resendHS3_def settled_def split: option.splits if_splits dest!: frames_sendFrame)

lemma settled_clearStale: "settled t0 a \<Longrightarrow> settled t0 (clearStale now a)"
  by (simp add: settled_def clearStale_def clearHalfOpen_def)

lemma settled_tick:
  assumes "settled t0 a" "now \<le> t0 + sessionMaxAge" "tick hapi api rnd relay now ok a = Some (a', es)"
  shows "settled t0 a' \<and> (\<forall>f\<in>set (frames_of es). late_frame f)"
proof -
  have young: "\<not> time_sub now (p_sessSince a) > sessionMaxAge"
    using assms(1,2) by (simp add: settled_def time_sub_gt sessionMaxAge_def max_duration_def)
  have est: "p_established a" "p_path a = PathDirect" using assms(1) by (simp_all add: settled_def)
  obtain p2 es2 where p2: "(if p_hs3Pending a \<and> time_sub now (p_lastHS3 a) > HS1ResendInterval
      then resendHS3 now (clearStale now a) else (clearStale now a, [])) = (p2, es2)"
    by (cases "(if p_hs3Pending a \<and> time_sub now (p_lastHS3 a) > HS1ResendInterval
      then resendHS3 now (clearStale now a) else (clearStale now a, []))")
  have s2: "settled t0 p2 \<and> (\<forall>f\<in>set (frames_of es2). late_frame f)"
    using p2 settled_clearStale [OF assms(1), of now] settled_resendHS3
    by (fastforce split: if_splits)
  obtain es4 where k: "keepalive api now ok (p_lastSent a) p2 = Some (a', es4)" "es = es2 @ es4"
    using assms(3) young est p2 by (auto simp: tick_def Let_def split: option.splits prod.splits)
  have "settled t0 a' \<and> (\<forall>f\<in>set (frames_of es4). late_frame f)"
    using k(1) s2 settled_SendPeer [of t0 p2 api now ok "[]" _ a' es4]
    by (auto simp: keepalive_def split: option.splits if_splits)
  then show ?thesis using s2 k(2) by auto
qed

lemma settled_HandleFrame:
  assumes "settled t0 a" "HandleFrame hapi api relay rnd now src f a = Some (a', es)"
  shows "settled t0 a' \<and> frames_of es = []"
proof -
  have hs2: "settled t0 a' \<and> frames_of es = []"
    if "onHS2 hapi now msg path a = Some (a', es)" for msg path
  proof (cases "p_initiatorHS a")
    case (Some i)
    then have "in_phase i = phaseComplete" using assms(1) by (simp add: settled_def)
    then obtain e i' where "ReadMessage2 hapi i msg = (Inl e, i')"
      by (cases "in_hs i") (simp_all add: ReadMessage2_def)
    then show ?thesis using that assms(1) Some by (auto simp: onHS2_def settled_def)
  qed (use that assms(1) in \<open>auto simp: onHS2_def\<close>)
  have data: "settled t0 a' \<and> frames_of es = []" if "onData api msg a = Some (a', es)" for msg
    using that assms(1)
    by (auto simp: onData_def settled_def Let_def split: option.splits sum.splits prod.splits bool.splits if_splits)
  have hs1: "settled t0 a' \<and> frames_of es = []" if "onHS1 hapi rnd now msg path a = Some (a', es)" for msg path
    using that assms(1) by (auto simp: onHS1_def settled_def Let_def split: prod.splits if_splits)
  have hs3: "settled t0 a' \<and> frames_of es = []"
    if "onHS3 hapi now msg path a = (a', es)" "\<not> p_initiator a" for msg path
    using that assms(1) by (auto simp: onHS3_def settled_def)
  show ?thesis
    using assms hs1 hs2 hs3 data
    by (auto simp: HandleFrame_def handleFrameByPath_def split: sum.splits if_splits)
qed

lemma unserved_HandleFrame:
  assumes "unserved b" "late_frame f" "HandleFrame hapi api relay rnd now src f b = Some (b', es)"
  shows "unserved b'"
  using assms
  by (auto simp: late_frame_def HandleFrame_def handleFrameByPath_def frame_types unserved_def
      onHS3_def onData_def split: if_splits)

lemma unserved_own:
  assumes "unserved b" "peer_step hapi api relay ev b = Some (b', es)" "\<And>s f r t. ev \<noteq> EvFrame s f r t"
  shows "unserved b'"
  using assms
  by (cases ev)
    (auto simp: unserved_def startRun_def endRun_def clearStale_def clearHalfOpen_def forceRehandshake_def
      resetHandshakeLocked_def switchMode_def abandonRoaming_def resendHS3_def SetDirectEP_def
      ClosePeer_def punch_def retryDirect_def SendPeer_def encryptLocked_def
      split: if_splits option.splits sum.splits prod.splits path.splits)

lemma own_step:
  "(\<nexists>s f r t. ev = EvFrame s f r t) \<Longrightarrow> pair_step hapi api relay (OwnB ev) (a, b, w)
     = map_option (\<lambda>(b, es). (a, b, w)) (peer_step hapi api relay ev b)"
  by (cases ev) auto

lemma pair_step_apart:
  assumes "pair_step hapi api relay x (a, b, w) = Some (a', b', w')"
    and "settled t0 a" "unserved b" "\<forall>f\<in>set w. late_frame f"
    and "\<And>rnd now ok. x = TickA rnd now ok \<Longrightarrow> now \<le> t0 + sessionMaxAge"
  shows "settled t0 a' \<and> unserved b' \<and> (\<forall>f\<in>set w'. late_frame f)"
proof (cases x)
  case (TickA rnd now ok)
  then obtain es where "tick hapi api rnd relay now ok a = Some (a', es)" "b' = b" "w' = w @ frames_of es"
    using assms(1) by auto
  then show ?thesis using settled_tick [OF assms(2) assms(5) [OF TickA]] assms(3,4) by fastforce
next
  case (SendA m now ok)
  then obtain e es where "SendPeer api now ok m a = Some (e, a', es)" "b' = b" "w' = w @ frames_of es"
    using assms(1) by auto
  then show ?thesis using settled_SendPeer [OF assms(2)] assms(3,4) by fastforce
next
  case (ToA src f rnd now)
  then obtain es where "HandleFrame hapi api relay rnd now src f a = Some (a', es)" "b' = b"
      "w' = w @ frames_of es"
    using assms(1) by auto
  then show ?thesis using settled_HandleFrame [OF assms(2)] assms(3,4) by fastforce
next
  case (OwnB ev)
  show ?thesis
  proof (cases "\<exists>s f r t. ev = EvFrame s f r t")
    case True
    then show ?thesis using assms OwnB by auto
  next
    case False
    then have "map_option (\<lambda>(b, es). (a, b, w)) (peer_step hapi api relay ev b) = Some (a', b', w')"
      using assms(1) OwnB own_step by metis
    then obtain es where "peer_step hapi api relay ev b = Some (b', es)" "a' = a" "w' = w" by auto
    then show ?thesis using unserved_own [OF assms(3)] assms(2,4) False by blast
  qed
next
  case (ToB i src rnd now)
  show ?thesis
  proof (cases "i < length w")
    case True
    then have "late_frame (w ! i)" using assms(4) by simp
    then show ?thesis using ToB True assms unserved_HandleFrame [OF assms(3) \<open>late_frame (w ! i)\<close>] by auto
  qed (use assms ToB in auto)
qed

lemma pair_run_apart:
  "pair_run hapi api relay xs (a, b, w) = Some (a', b', w') \<Longrightarrow> settled t0 a \<Longrightarrow> unserved b \<Longrightarrow>
   \<forall>f\<in>set w. late_frame f \<Longrightarrow>
   \<forall>rnd now ok. TickA rnd now ok \<in> set xs \<longrightarrow> now \<le> t0 + sessionMaxAge \<Longrightarrow>
   settled t0 a' \<and> unserved b'"
proof (induction xs arbitrary: a b w)
  case (Cons x xs)
  obtain a1 b1 w1 where st: "pair_step hapi api relay x (a, b, w) = Some (a1, b1, w1)"
    "pair_run hapi api relay xs (a1, b1, w1) = Some (a', b', w')"
    using Cons.prems(1) by (auto split: option.splits)
  have "settled t0 a1 \<and> unserved b1 \<and> (\<forall>f\<in>set w1. late_frame f)"
    by (rule pair_step_apart [OF st(1) Cons.prems(2-4)]) (use Cons.prems(5) in auto)
  moreover have "\<forall>rnd now ok. TickA rnd now ok \<in> set xs \<longrightarrow> now \<le> t0 + sessionMaxAge"
    using Cons.prems(5) by simp
  ultimately show ?case using Cons.IH [OF st(2)] by blast
qed simp

section \<open>Properties\<close>

text \<open>C5: A handshake over a path that delivers succeeds, and the tunnel works, on the direct path
  as through the relay. When the initiator ticks and each datagram is handled by the other end,
  three datagrams later both ends are established on that path, each with the other's
  registered static key; any sequence of messages sent in either direction and delivered in
  order is then accepted unchanged, with nonces counting from zero and through every rekeying.\<close>

theorem peers_establish_and_talk:
  assumes laws: "cipher_laws api seal opn rk" "expansion_law api" "msg_law hapi"
      "xx_law hapi api (Some Prologue) ka kb"
    and a: "ready ka kb a" "p_initiator a" "p_mode a = md" "p_DirectEP a = Some eb"
      "time_sub t1 (p_lastHS1 a) \<ge> HS1ResendInterval" "time_sub t1 (p_phaseStart a) \<le> attemptFor md"
    and b: "ready kb ka b" "\<not> p_initiator b" "fst (hs1_draw 1 t2 (p_hsBurst b))" "p_DirectEP b = Some ea"
    and path: "usable md relay ea eb"
  shows "\<exists>a1 f1 b1 f2 a2 f3 b2.
      tick hapi api ra relay t1 True a = Some (a1, [wire md (p_ID a) eb f1])
    \<and> HandleFrame hapi api relay rb t2 (seen md relay ea) f1 b = Some (b1, [wire md (p_ID b) ea f2])
    \<and> HandleFrame hapi api relay ra t3 (seen md relay eb) f2 a1 = Some (a2, [Installed, wire md (p_ID a1) eb f3])
    \<and> HandleFrame hapi api relay rb t4 (seen md relay ea) f3 b1 = Some (b2, [Installed])
    \<and> p_established a2 \<and> p_established b2 \<and> p_path a2 = md \<and> p_path b2 = md
    \<and> RemoteStatic a2 = kp_Public kb \<and> RemoteStatic b2 = kp_Public ka
    \<and> (\<forall>ms. length ms \<le> 18446744073709551615 \<and> (\<forall>m\<in>set ms. length m \<le> room md) \<longrightarrow>
         transfers hapi api relay (seen md relay ea) ra t5 ms (a2, b2)
           = map (\<lambda>(i, m). Accepted (of_nat i) m) (enumerate 0 ms)
       \<and> transfers hapi api relay (seen md relay eb) ra t5 ms (b2, a2)
           = map (\<lambda>(i, m). Accepted (of_nat i) m) (enumerate 0 ms))"
  using pair_connects [OF assms, of ra rb t3 t4 t5] unfolding connects_def completes_def prod.case by blast

text \<open>C3: When the direct path is dead the relay takes over. The initiator's direct attempt goes
  unanswered for \<open>DirectAttempt\<close>; the tick after that turns it to the relay, whatever handshake
  it had begun, and a tick between half a second and three seconds later starts a handshake
  through the relay that establishes both ends there and carries data in both directions.\<close>

theorem relay_takes_over:
  assumes laws: "cipher_laws api seal opn rk" "expansion_law api" "msg_law hapi"
      "xx_law hapi api (Some Prologue) ka kb"
    and a: "keyed ka kb a" "p_initiator a" "\<not> p_established a" "p_sess a = None" "p_mode a = PathDirect"
      "p_DirectEP a = Some eb" "time_sub t0 (p_phaseStart a) > DirectAttempt" "p_lastHS1 a \<le> t0"
    and later: "t0 + HS1ResendInterval \<le> t1" "t1 \<le> t0 + RelayAttempt"
    and b: "ready kb ka b" "\<not> p_initiator b" "fst (hs1_draw 1 t2 (p_hsBurst b))" "p_DirectEP b = Some ea"
    and relay: "relay \<noteq> None"
  shows "\<exists>a0 e. tick hapi api ra relay t0 True a = Some (a0, [e]) \<and> p_mode a0 = PathRelay
     \<and> connects hapi api relay PathRelay ra rb t1 (t2, t3, t4, t5) ka kb ea eb a0 b"
  by (rule relay_fallback_connects [OF assms])

text \<open>C4: A relayed pair finds its way back to the direct path. Ten seconds after its last handshake
  the initiator of a pair established through the relay starts one on the direct path, while
  its session stays in use; when the direct path delivers, both ends move to it with a new
  session, each counts one rotation, and data flows there in both directions.\<close>

theorem relayed_pair_roams_to_direct:
  assumes laws: "cipher_laws api seal opn rk" "expansion_law api" "msg_law hapi"
      "xx_law hapi api (Some Prologue) ka kb"
    and a: "keyed ka kb a" "p_initiator a" "p_established a" "p_sess a \<noteq> None" "p_path a = PathRelay"
      "p_mode a = PathRelay" "\<not> p_hs3Pending a" "p_DirectEP a = Some eb"
    and times: "time_sub t1 (p_lastHS1 a) > ReestablishInterval" "time_sub t1 (p_sessSince a) \<le> sessionMaxAge"
      "time_sub t1 (p_lastSent a) \<le> KeepaliveInterval"
    and b: "keyed kb ka b" "\<not> p_initiator b" "p_established b" "p_sess b \<noteq> None" "p_path b = PathRelay"
      "p_responder b = None" "fst (hs1_draw 1 t2 (p_hsBurst b))" "p_DirectEP b = Some ea"
    and path: "usable PathDirect relay ea eb"
  shows "\<exists>a1 f1. tick hapi api ra relay t1 ok a = Some (a1, [SendDirect eb f1])
     \<and> p_established a1 \<and> p_sess a1 = p_sess a \<and> p_path a1 = PathRelay
     \<and> completes hapi api relay PathDirect ra rb (t2, t3, t4, t5) ka kb ea eb a1 f1 b
     \<and> rekeys a1 = p_rekeyCount a + 1 \<and> rekeys b = p_rekeyCount b + 1"
proof -
  have old: "\<not> (p_established b \<and> p_path b \<noteq> PathRelay)" using b(5) by simp
  obtain hi1 m1 where h: "\<And>a. keyed ka kb a \<Longrightarrow> newHS1 hapi ra a = Inr (asked kb hi1, m1)"
    "length m1 \<le> maxPayloadLen"
    "\<And>a. keyed ka kb a \<Longrightarrow> p_initiator a \<Longrightarrow> p_initiatorHS a = Some (asked kb hi1) \<Longrightarrow>
       p_DirectEP a = Some eb \<Longrightarrow>
       completes hapi api relay PathDirect ra rb (t2, t3, t4, t5) ka kb ea eb a (the (Frame TypeHS1 m1)) b"
    using xx_completes [OF laws b(1,2,6) old b(7,8) path] by metis
  have "keyed ka kb (clearStale t1 a)" using a(1) by (simp add: clearStale_def clearHalfOpen_def keyed_def)
  note n = h(1) [OF this]
  obtain a1 where a1: "tick hapi api ra relay t1 ok a = Some (a1, [SendDirect eb (the (Frame TypeHS1 m1))])"
    "p_initiatorHS a1 = Some (asked kb hi1)" "p_sess a1 = p_sess a" "p_established a1" "p_path a1 = PathRelay"
    "p_initiator a1" "p_DirectEP a1 = Some eb" "p_myKp a1 = p_myKp a" "p_peerStatic a1 = p_peerStatic a"
    "p_closed a1 = p_closed a" "p_recvClosed a1 = p_recvClosed a" "p_rekeyCount a1 = p_rekeyCount a"
    using tick_retries_direct [OF a(3,5,6,2,8,7) times(2,1,3) n h(2), of api relay ok] by blast
  have "keyed ka kb a1" using a(1) a1(7-11) by (simp add: keyed_def)
  with h(3) a1 a(4) b(4) show ?thesis by (auto simp: rekeys_def)
qed

text \<open>C38: One forged datagram can keep a pair apart for a day. While the responder waits for HS3, a
  datagram with an HS3 frame that does not authenticate makes it drop its handshake; it sends
  nothing. The genuine HS3 finds nothing then, however often the initiator repeats it: the
  initiator is established and starts no handshake before the session is 24 hours old. In
  every schedule of ticks, sends and deliveries until then the responder is not established.\<close>

theorem forged_hs3_strands_pair:
  assumes "p_responder b = Some r" "\<not> p_initiator b" "p_sess b = None" "\<not> p_established b"
    and "ReadMessage3 hapi now r junk = (Inl e, r')" "length junk \<le> maxPayloadLen"
    and "settled t0 a"
    and "pair_run hapi api relay xs (a, b1, []) = Some (a', b', w)"
    and "\<forall>rnd t ok. TickA rnd t ok \<in> set xs \<longrightarrow> t \<le> t0 + sessionMaxAge"
    and "HandleFrame hapi api relay rnd now src (the (Frame TypeHS3 junk)) b = Some (b1, es)"
  shows "es = [] \<and> p_established a' \<and> \<not> p_established b'"
proof -
  have "b1 = b\<lparr>p_responder := None\<rparr> \<and> es = []"
    using assms(10) Parse_the_Frame [OF assms(6), of TypeHS3] assms(1,2,5)
    by (simp add: HandleFrame_def handleFrameByPath_def frame_types onHS3_def del: Frame_Some)
  then have "unserved b1" "es = []" using assms(2-4) by (simp_all add: unserved_def)
  then show ?thesis
    using pair_run_apart [OF assms(8,7)] assms(9) by (auto simp: settled_def unserved_def)
qed

text \<open>C37: A restarted end is locked out. When one end of a pair is established on the direct path and
  the other starts again, whatever its role, it gets no session: the established end starts no
  handshake and refuses every HS1 while its session is younger than 24 hours. In every
  schedule of ticks, sends, incoming frames and deliveries until then the established end stays
  established and the restarted one is not.\<close>

theorem restarted_peer_locked_out:
  assumes "settled t0 a"
    and "pair_run hapi api relay xs (a, newPeer myID pid st ep kp, []) = Some (a', b', w)"
    and "\<forall>rnd t ok. TickA rnd t ok \<in> set xs \<longrightarrow> t \<le> t0 + sessionMaxAge"
  shows "p_established a' \<and> \<not> p_established b' \<and> p_sess b' = None"
proof -
  have "unserved (newPeer myID pid st ep kp)" by (simp add: unserved_def newPeer_def)
  then show ?thesis using pair_run_apart [OF assms(2,1)] assms(3) by (auto simp: settled_def unserved_def)
qed

text \<open>The counter of rotations misses the rotations by age: when a session is dropped for its
  age and the next handshake installs a new one, \<open>p_rekeyCount\<close> is what it was before.\<close>

theorem age_rotation_not_counted:
  assumes "p_established p" "time_sub now (p_sessSince p) > sessionMaxAge"
    and "raw (PeerStatic s) = p_peerStatic p" "length (p_peerStatic p) = 32"
  shows "\<exists>p1 p2. tick hapi api rnd relay now ok p = Some (p1, [])
     \<and> setSessionLocked later s path p1 = (p2, [Installed])
     \<and> p_established p2 \<and> p_sess p2 = Some s \<and> p_rekeyCount p2 = p_rekeyCount p"
  using assms
  by (simp add: tick_def Let_def forceRehandshake_def resetHandshakeLocked_def clearStale_def
      clearHalfOpen_def setSessionLocked_def)

section \<open>Witnesses\<close>

lemma demo_xx_law: "xx_law demo_hapi demo_api pro (demo_keypair 1) (demo_keypair 2)"
  unfolding xx_law_def by (simp add: demo_hapi_def demo_api_def demo_keypair_def)

abbreviation demo_b :: "(demo_hs, nat \<times> u64) peer" where
  "demo_b \<equiv> newPeer [2] [1] (replicate 32 1) (Some demo_ep) (Some (demo_keypair 2))"

lemma demo_ep_text: "UDPAddr_String (Some demo_ep) \<noteq> UDPAddr_String None"
  by (simp add: UDPAddr_String_def demo_ep_def IP_String_def ip4_string_def join_def JoinHostPort_def Let_def To4_def Itoa_def dec.simps)

lemma demo_keyed:
  "keyed (demo_keypair 1) (demo_keypair 2) demo_peer" "keyed (demo_keypair 2) (demo_keypair 1) demo_b"
  "ready (demo_keypair 1) (demo_keypair 2) demo_peer" "ready (demo_keypair 2) (demo_keypair 1) demo_b"
  "p_initiator demo_peer" "\<not> p_initiator demo_b" "p_DirectEP demo_peer = Some demo_ep" "p_DirectEP demo_b = Some demo_ep"
  by (simp_all add: ready_def keyed_def newPeer_def static_ok_def demo_keypair_def KeySize_def RoleIsInitiator_def)

lemma demo_draw: "fst (hs1_draw 1 now (p_hsBurst demo_b))"
  by (simp add: newPeer_def hs1_draw_def hs1MaxPerSec_def)

lemma demo_direct: "usable PathDirect None demo_ep demo_ep"
  using demo_ep_text by (simp add: usable_def)

lemmas demo_times = disco_timing attemptFor_def time_sub_def max_duration_def min_duration_def sessionMaxAge_def

theorem peers_establish_and_talk_witness:
  "\<exists>a2 b2. p_established a2 \<and> p_established b2
     \<and> transfers demo_hapi demo_api None (Some demo_ep) () 7 [[1], [2, 3]] (a2, b2)
         = [Accepted 0 [1], Accepted 1 [2, 3]]"
proof -
  let ?a = "startRun None 0 demo_peer"
  have a: "ready (demo_keypair 1) (demo_keypair 2) ?a" "p_initiator ?a" "p_mode ?a = PathDirect" "p_DirectEP ?a = Some demo_ep"
    "time_sub 2000000000 (p_lastHS1 ?a) \<ge> HS1ResendInterval"
    "time_sub 2000000000 (p_phaseStart ?a) \<le> attemptFor PathDirect"
    using demo_keyed(3,5,7) by (simp_all add: startRun_def ready_def keyed_def newPeer_def demo_times)
  obtain a2 b2 where e: "p_established a2 \<and> p_established b2
    \<and> (\<forall>ms. length ms \<le> 18446744073709551615 \<and> (\<forall>m\<in>set ms. length m \<le> room PathDirect) \<longrightarrow>
         transfers demo_hapi demo_api None (seen PathDirect None demo_ep) () 7 ms (a2, b2)
           = map (\<lambda>(i, m). Accepted (of_nat i) m) (enumerate 0 ms))"
    using peers_establish_and_talk [OF demo_laws demo_expansion demo_msg_law demo_xx_law a demo_keyed(4,6) demo_draw
        demo_keyed(8) demo_direct, where ra = "()" and rb = "()" and ?t2.0 = 2 and ?t3.0 = 3 and ?t4.0 = 4 and ?t5.0 = 7]
    by (elim exE conjE) (rule that, blast)
  then have "transfers demo_hapi demo_api None (Some demo_ep) () 7 [[1], [2, 3]] (a2, b2)
      = map (\<lambda>(i, m). Accepted (of_nat i) m) (enumerate 0 [[1], [2, 3]])"
    by (simp add: room_def seen_def maxPlaintextLen_eq del: transfers.simps)
  then show ?thesis using e by (auto simp del: transfers.simps)
qed

theorem relay_takes_over_witness:
  "\<exists>a0 e. tick demo_hapi demo_api () (Some demo_ep) 4000000000 True (startRun (Some demo_ep) 0 demo_peer) = Some (a0, [e])
     \<and> p_mode a0 = PathRelay
     \<and> connects demo_hapi demo_api (Some demo_ep) PathRelay () () 5000000000 (2, 3, 4, 5)
         (demo_keypair 1) (demo_keypair 2) demo_ep demo_ep a0 demo_b"
proof -
  let ?a = "startRun (Some demo_ep) 0 demo_peer"
  have a: "keyed (demo_keypair 1) (demo_keypair 2) ?a" "p_initiator ?a" "\<not> p_established ?a" "p_sess ?a = None"
    "p_mode ?a = PathDirect" "p_DirectEP ?a = Some demo_ep" "time_sub 4000000000 (p_phaseStart ?a) > DirectAttempt"
    "p_lastHS1 ?a \<le> 4000000000"
    using demo_keyed(1,5,7) by (simp_all add: startRun_def keyed_def newPeer_def demo_times)
  show ?thesis
    by (rule relay_takes_over [OF demo_laws demo_expansion demo_msg_law demo_xx_law a _ _ demo_keyed(4,6) demo_draw demo_keyed(8)])
      (simp_all add: demo_times)
qed

text \<open>Both ends of a pair that has a session through the relay.\<close>

definition relayed :: "(demo_hs, nat \<times> u64) peer \<Rightarrow> (demo_hs, nat \<times> u64) peer" where
  "relayed p = p\<lparr>p_established := True, p_sess := Some demo_s3, p_path := PathRelay, p_mode := PathRelay,
     p_lastSent := 10000000000\<rparr>"

theorem relayed_pair_roams_to_direct_witness:
  "\<exists>a1 f1. tick demo_hapi demo_api () None 11000000000 True (relayed demo_peer) = Some (a1, [SendDirect demo_ep f1])
     \<and> completes demo_hapi demo_api None PathDirect () () (2, 3, 4, 5) (demo_keypair 1) (demo_keypair 2)
         demo_ep demo_ep a1 f1 (relayed demo_b)"
proof -
  have k: "keyed k k' (relayed p) \<longleftrightarrow> keyed k k' p" "p_initiator (relayed p) \<longleftrightarrow> p_initiator p"
    "p_established (relayed p)" "p_sess (relayed p) \<noteq> None" "p_path (relayed p) = PathRelay"
    "p_mode (relayed p) = PathRelay" "p_DirectEP (relayed p) = p_DirectEP p" "p_hsBurst (relayed p) = p_hsBurst p" for k k' p
    by (simp_all add: relayed_def keyed_def)
  have a: "keyed (demo_keypair 1) (demo_keypair 2) (relayed demo_peer)" "p_initiator (relayed demo_peer)"
    "p_DirectEP (relayed demo_peer) = Some demo_ep"
    "\<not> p_hs3Pending (relayed demo_peer)" "time_sub 11000000000 (p_lastHS1 (relayed demo_peer)) > ReestablishInterval"
    "time_sub 11000000000 (p_sessSince (relayed demo_peer)) \<le> sessionMaxAge"
    "time_sub 11000000000 (p_lastSent (relayed demo_peer)) \<le> KeepaliveInterval"
    using demo_keyed(1,5,7) by (simp_all add: k) (simp_all add: relayed_def newPeer_def demo_times)
  have b: "keyed (demo_keypair 2) (demo_keypair 1) (relayed demo_b)" "\<not> p_initiator (relayed demo_b)"
    "p_responder (relayed demo_b) = None" "fst (hs1_draw 1 2 (p_hsBurst (relayed demo_b)))"
    "p_DirectEP (relayed demo_b) = Some demo_ep"
    using demo_keyed(2,6,8) demo_draw by (simp_all add: k) (simp add: relayed_def newPeer_def)
  show ?thesis
    using relayed_pair_roams_to_direct [OF demo_laws demo_expansion demo_msg_law demo_xx_law a(1,2) k(3-6) a(4,3,5-7)
        b(1,2) k(3-5) b(3-5) demo_direct] by blast
qed

abbreviation deaf_hapi :: "(demo_hs, nat \<times> u64, unit) handshake_api" where
  "deaf_hapi \<equiv> demo_hapi\<lparr>h_read := \<lambda>m h. (None, h)\<rparr>"

definition demo_waiting :: "(demo_hs, nat \<times> u64) peer" where
  "demo_waiting = demo_b\<lparr>p_responder := Some
     \<lparr>re_hs = Some \<lparr>d_init = False, d_step = 2, d_pub = [], d_peer = None\<rparr>, re_session = None,
      re_phase = phaseMessage2\<rparr>\<rparr>"

lemma demo_settled: "settled 2100000000 demo_p3"
proof -
  have "\<exists>m. Frame TypeHS3 m = Some (the (Frame TypeHS3 (replicate 32 1)))"
    by (intro exI [of _ "replicate 32 1"]) (simp add: maxPayloadLen_def)
  then show ?thesis
    by (simp add: settled_def demo_p3_def demo_p2_def demo_p1_def newPeer_def RoleIsInitiator_def)
qed

theorem forged_hs3_strands_pair_witness:
  "\<exists>a' b' f. pair_run deaf_hapi demo_api None [TickA () 3000000000 True, ToB 0 (Some demo_ep) () 3100000000]
      (demo_p3, demo_waiting\<lparr>p_responder := None\<rparr>, []) = Some (a', b', [f])
     \<and> p_established a' \<and> \<not> p_established b'"
proof -
  let ?b = "demo_waiting\<lparr>p_responder := None\<rparr>" and ?f = "the (Frame TypeHS3 (replicate 32 1))"
  let ?a = "demo_p3\<lparr>p_lastHS3 := 3000000000\<rparr>"
  have b: "\<not> p_initiator demo_waiting" "p_sess demo_waiting = None" "\<not> p_established demo_waiting"
    "p_responder ?b = None" "\<not> p_initiator ?b"
    by (simp_all add: demo_waiting_def newPeer_def RoleIsInitiator_def)
  have rd: "ReadMessage3 deaf_hapi 5 (the (p_responder demo_waiting)) [9] = (Inl ReadFailed, the (p_responder demo_waiting))"
    "p_responder demo_waiting = Some (the (p_responder demo_waiting))"
    by (simp_all add: ReadMessage3_def demo_waiting_def)
  have P: "Parse (the (Frame TypeHS3 [9])) = Inr (TypeHS3, [9])" "Parse ?f = Inr (TypeHS3, replicate 32 1)"
    by (rule Parse_the_Frame; simp add: maxPayloadLen_def)+
  have junk: "HandleFrame deaf_hapi demo_api None () 5 (Some demo_ep) (the (Frame TypeHS3 [9])) demo_waiting
      = Some (?b, [])"
  proof -
    have "handleFrameByPath deaf_hapi demo_api () 5 PathDirect TypeHS3 [9] demo_waiting = Some (?b, [])"
      using rd b by (cases "p_responder demo_waiting") (simp_all add: handleFrameByPath_def frame_types onHS3_def)
    then show ?thesis by (simp add: HandleFrame_def P del: Frame_Some)
  qed
  have "tick deaf_hapi demo_api () None 3000000000 True demo_p3 = Some (?a, [SendDirect demo_ep ?f])"
    by (simp add: tick_def Let_def demo_p3_def demo_p2_def demo_p1_def newPeer_def clearStale_def
        resendHS3_def sendFrame_def keepalive_def time_sub_def sessionMaxAge_def max_duration_def
        min_duration_def disco_timing del: Frame_Some)
  moreover have "HandleFrame deaf_hapi demo_api None () 3100000000 (Some demo_ep) ?f ?b = Some (?b, [])"
  proof -
    have "handleFrameByPath deaf_hapi demo_api () 3100000000 PathDirect TypeHS3 (replicate 32 1) ?b = Some (?b, [])"
      using b by (simp add: handleFrameByPath_def frame_types onHS3_def)
    then show ?thesis by (simp add: HandleFrame_def P del: Frame_Some)
  qed
  ultimately have run: "pair_run deaf_hapi demo_api None
      [TickA () 3000000000 True, ToB 0 (Some demo_ep) () 3100000000] (demo_p3, ?b, []) = Some (?a, ?b, [?f])"
    by (simp del: Frame_Some)
  show ?thesis
    using forged_hs3_strands_pair [OF rd(2) b(1-3) rd(1) _ demo_settled run _ junk] run
    by (auto simp: maxPayloadLen_def sessionMaxAge_def simp del: pair_run.simps)
qed

text \<open>The established end repeats its HS3, the restarted one, here the responder, ignores it.\<close>

theorem restarted_peer_locked_out_witness:
  "\<exists>a' b' w. pair_run demo_hapi demo_api None [TickA () 3000000000 True, OwnB (EvPunch () 3000000000 PathDirect)]
       (demo_p3, demo_b, []) = Some (a', b', w)
     \<and> p_established a' \<and> \<not> p_established b'"
proof -
  let ?xs = "[TickA () 3000000000 True, OwnB (EvPunch () 3000000000 PathDirect)]"
  obtain f where "Frame TypeProbe [] = Some f" by (simp add: maxPayloadLen_def)
  then have "pair_run demo_hapi demo_api None ?xs (demo_p3, demo_b, []) \<noteq> None"
    by (simp add: tick_def Let_def demo_p3_def demo_p2_def demo_p1_def newPeer_def clearStale_def
        resendHS3_def sendFrame_def keepalive_def time_sub_def sessionMaxAge_def max_duration_def
        min_duration_def disco_timing punch_def RoleIsInitiator_def switchMode_def del: Frame_Some)
  then obtain a' b' w where run: "pair_run demo_hapi demo_api None ?xs (demo_p3, demo_b, []) = Some (a', b', w)"
    by (cases "pair_run demo_hapi demo_api None ?xs (demo_p3, demo_b, [])") auto
  show ?thesis
    using restarted_peer_locked_out [OF demo_settled run] run by (auto simp: sessionMaxAge_def simp del: pair_run.simps)
qed

theorem age_rotation_not_counted_witness:
  "\<exists>p1 p2. tick demo_hapi demo_api () None 90000000000000 True demo_p3 = Some (p1, [])
     \<and> setSessionLocked 90000100000000 demo_s3 PathDirect p1 = (p2, [Installed])
     \<and> p_rekeyCount p2 = p_rekeyCount demo_p3"
proof -
  have "\<exists>p1 p2. tick demo_hapi demo_api () None 90000000000000 True demo_p3 = Some (p1, [])
     \<and> setSessionLocked 90000100000000 demo_s3 PathDirect p1 = (p2, [Installed])
     \<and> p_established p2 \<and> p_sess p2 = Some demo_s3 \<and> p_rekeyCount p2 = p_rekeyCount demo_p3"
    by (rule age_rotation_not_counted)
      (simp_all add: demo_p3_def demo_p2_def demo_p1_def newPeer_def demo_s3_def PeerStatic_def time_sub_def
        sessionMaxAge_def max_duration_def min_duration_def)
  then show ?thesis by blast
qed

end
