(* ===== verification/Tun.thy ===== *)
theory Tun
  imports Netaddr
begin

text \<open>
  The tunnel side: the packet router of \<^verbatim>\<open>internal/tun/router.go\<close>, the in-memory device of
  \<^verbatim>\<open>internal/tun/fake.go\<close> and the bridge of \<^verbatim>\<open>internal/agent/tunbridge.go\<close> between a device and
  the peer sessions. A sink, in the code an interface with one method \<^verbatim>\<open>Send\<close>, is a name of type
  \<open>'s\<close>; what sending does to the world is an argument of the functions that send. The devices of
  the operating systems are not modelled.
\<close>

section \<open>Addresses\<close>

text \<open>\<^verbatim>\<open>netip.Addr\<close>: the zero value, an IPv4 address and an IPv6 address with its zone.\<close>

datatype netip = NoAddr | V4 bytes | V6 bytes gostring

fun Is4 :: "netip \<Rightarrow> bool" where
  "Is4 (V4 _) = True"
| "Is4 _ = False"

text \<open>\<^verbatim>\<open>netip.ParseAddr\<close>: IPv4 literals; \<open>other\<close> answers every other string.\<close>

definition ParseAddr :: "(gostring \<Rightarrow> netip option) \<Rightarrow> gostring \<Rightarrow> netip option" where
  "ParseAddr other s = (case parse_ip4 s of Some ip \<Rightarrow> Some (V4 ip) | None \<Rightarrow> other s)"

section \<open>The router\<close>

record 's router =
  r_routes :: "netip \<Rightarrow> 's option"
  r_PktsIn :: u64
  r_PktsRouted :: u64
  r_PktsDropped :: u64

definition NewRouter :: "'s router" where
  "NewRouter = \<lparr>r_routes = (\<lambda>_. None), r_PktsIn = 0, r_PktsRouted = 0, r_PktsDropped = 0\<rparr>"

definition SetRoute :: "netip \<Rightarrow> 's option \<Rightarrow> 's router \<Rightarrow> 's router" where
  "SetRoute dst s r =
     (if \<not> Is4 dst then r
      else (case s of
              None \<Rightarrow> r\<lparr>r_routes := (r_routes r)(dst := None)\<rparr>
            | Some x \<Rightarrow> r\<lparr>r_routes := (r_routes r)(dst := Some x)\<rparr>))"

definition HasRoute :: "netip \<Rightarrow> 's router \<Rightarrow> bool" where
  "HasRoute dst r \<longleftrightarrow> r_routes r dst \<noteq> None"

definition parseIPv4 :: "bytes \<Rightarrow> (netip \<times> netip) option" where
  "parseIPv4 pkt =
     (if length pkt < 20 \<or> drop_bit 4 (pkt ! 0) \<noteq> 4 then None
      else let ihl = unat (pkt ! 0 AND 0x0F) * 4
        in if ihl < 20 \<or> length pkt < ihl then None
           else let total = unat (get16 (pkt ! 2) (pkt ! 3))
             in if total < ihl \<or> length pkt < total then None
                else Some (V4 [pkt ! 12, pkt ! 13, pkt ! 14, pkt ! 15],
                           V4 [pkt ! 16, pkt ! 17, pkt ! 18, pkt ! 19]))"

text \<open>\<open>send s pkt w\<close> is the sink's \<^verbatim>\<open>Send\<close>: whether it returns no error, and the world after it.\<close>

definition RoutePacket ::
    "('s \<Rightarrow> bytes \<Rightarrow> 'w \<Rightarrow> bool \<times> 'w) \<Rightarrow> bytes \<Rightarrow> 's router \<Rightarrow> 'w \<Rightarrow> bool \<times> 's router \<times> 'w" where
  "RoutePacket send pkt r w =
     (case parseIPv4 pkt of
        None \<Rightarrow> (False, r\<lparr>r_PktsDropped := r_PktsDropped r + 1\<rparr>, w)
      | Some (_, dst) \<Rightarrow>
          (case r_routes r dst of
             None \<Rightarrow> (False, r\<lparr>r_PktsIn := r_PktsIn r + 1, r_PktsDropped := r_PktsDropped r + 1\<rparr>, w)
           | Some s \<Rightarrow>
               (case send s pkt w of
                  (False, w) \<Rightarrow>
                    (False, r\<lparr>r_PktsIn := r_PktsIn r + 1, r_PktsDropped := r_PktsDropped r + 1\<rparr>, w)
                | (True, w) \<Rightarrow>
                    (True, r\<lparr>r_PktsIn := r_PktsIn r + 1, r_PktsRouted := r_PktsRouted r + 1\<rparr>, w))))"

section \<open>The in-memory device\<close>

definition defaultMTU :: int where "defaultMTU = 1500"

record buffer_device =
  d_mtu :: int
  d_buf :: "bytes list"
  d_closed :: bool

definition NewBufferDevice :: "int \<Rightarrow> buffer_device" where
  "NewBufferDevice mtu = \<lparr>d_mtu = (if mtu \<le> 0 then defaultMTU else mtu), d_buf = [], d_closed = False\<rparr>"

definition CloseDevice :: "buffer_device \<Rightarrow> buffer_device" where
  "CloseDevice d = d\<lparr>d_closed := True\<rparr>"

text \<open>\<^verbatim>\<open>Read\<close> into a buffer of \<open>n\<close> bytes; \<open>None\<close> while it waits, \<open>Inl ()\<close> for \<^verbatim>\<open>io.EOF\<close>.\<close>

definition ReadDevice :: "nat \<Rightarrow> buffer_device \<Rightarrow> ((unit + bytes) \<times> buffer_device) option" where
  "ReadDevice n d = (case d_buf d of
       [] \<Rightarrow> if d_closed d then Some (Inl (), d) else None
     | p # ps \<Rightarrow> Some (Inr (take n p), d\<lparr>d_buf := ps\<rparr>))"

definition WriteDevice :: "bytes \<Rightarrow> buffer_device \<Rightarrow> bool \<times> buffer_device" where
  "WriteDevice p d = (if d_closed d then (False, d) else (True, d\<lparr>d_buf := d_buf d @ [p]\<rparr>))"

section \<open>The bridge\<close>

record 's bridge =
  b_mtu :: int
  b_router :: "'s router"
  b_ipByPeer :: "gostring \<Rightarrow> netip option"

datatype bridge_error = OpenTun | BadTunIP | BadTunPeer gostring gostring

text \<open>
  \<open>tunPeers\<close> lists the configured map in the order the loop meets it. \<open>opened\<close> is the answer of
  the operating system: the device's MTU. The flag says whether the device was closed again.
\<close>

fun peer_addresses ::
    "(gostring \<Rightarrow> netip option) \<Rightarrow> (gostring \<times> gostring) list \<Rightarrow> (gostring \<Rightarrow> netip option)
     \<Rightarrow> bridge_error + (gostring \<Rightarrow> netip option)" where
  "peer_addresses other [] m = Inr m"
| "peer_addresses other ((pid, ip) # rest) m =
     (case ParseAddr other ip of
        None \<Rightarrow> Inl (BadTunPeer pid ip)
      | Some a \<Rightarrow> peer_addresses other rest (m(pid := Some a)))"

definition newTunBridge ::
    "(gostring \<Rightarrow> netip option) \<Rightarrow> int option \<Rightarrow> gostring \<Rightarrow> gostring \<Rightarrow> (gostring \<times> gostring) list
     \<Rightarrow> (bridge_error + 's bridge option) \<times> bool" where
  "newTunBridge other opened tunName tunIP tunPeers =
     (if tunName = [] then (Inr None, False)
      else (case opened of
        None \<Rightarrow> (Inl OpenTun, False)
      | Some mtu \<Rightarrow>
          if tunIP \<noteq> [] \<and> ParseAddr other tunIP = None then (Inl BadTunIP, True)
          else (case peer_addresses other tunPeers (\<lambda>_. None) of
                  Inl e \<Rightarrow> (Inl e, True)
                | Inr m \<Rightarrow> (Inr (Some \<lparr>b_mtu = mtu, b_router = NewRouter, b_ipByPeer = m\<rparr>), False))))"

text \<open>A peer without an overlay address reads as the zero address.\<close>

definition setPeerSink :: "gostring \<Rightarrow> 's option \<Rightarrow> 's bridge \<Rightarrow> 's bridge" where
  "setPeerSink pid s b =
     b\<lparr>b_router := SetRoute (case b_ipByPeer b pid of None \<Rightarrow> NoAddr | Some a \<Rightarrow> a) s (b_router b)\<rparr>"

text \<open>
  \<open>run\<close>: what each \<^verbatim>\<open>Read\<close> of the device returns is given; the loop ends with the first error,
  silently when the context was cancelled.
\<close>

fun bridge_loop ::
    "('s \<Rightarrow> bytes \<Rightarrow> 'w \<Rightarrow> bool \<times> 'w) \<Rightarrow> bool \<Rightarrow> (unit + bytes) list \<Rightarrow> 's bridge \<Rightarrow> 'w
     \<Rightarrow> bool option \<times> 's bridge \<times> 'w" where
  "bridge_loop send cancelled [] b w = (None, b, w)"
| "bridge_loop send cancelled (Inl e # reads) b w = (Some cancelled, b, w)"
| "bridge_loop send cancelled (Inr pkt # reads) b w =
     (if pkt = [] then bridge_loop send cancelled reads b w
      else let (_, r, w) = RoutePacket send pkt (b_router b) w
           in bridge_loop send cancelled reads (b\<lparr>b_router := r\<rparr>) w)"

datatype inbound_error = ExceedsMTU | WriteFailed

text \<open>\<open>inbound\<close>: what is written to the device and the error; \<open>ok\<close> is the outcome of the write.\<close>

definition inbound :: "bool \<Rightarrow> bytes \<Rightarrow> 's bridge \<Rightarrow> inbound_error option \<times> bytes option" where
  "inbound ok payload b =
     (if int (length payload) > b_mtu b then (Some ExceedsMTU, None)
      else if \<not> ok then (Some WriteFailed, Some payload) else (None, Some payload))"

section \<open>Where a packet goes\<close>

definition owner :: "'s router \<Rightarrow> bytes \<Rightarrow> 's option" where
  "owner r pkt = (case parseIPv4 pkt of None \<Rightarrow> None | Some (_, dst) \<Rightarrow> r_routes r dst)"

lemma RoutePacket_routes [simp]: "r_routes (fst (snd (RoutePacket send pkt r w))) = r_routes r"
  by (auto simp: RoutePacket_def split: option.splits prod.splits bool.splits)

lemma RoutePacket_world: "snd (snd (RoutePacket send pkt r w))
    = (case owner r pkt of None \<Rightarrow> w | Some s \<Rightarrow> snd (send s pkt w))"
  by (auto simp: RoutePacket_def owner_def split: option.splits prod.splits bool.splits)

lemma owner_cong: "r_routes r = r_routes r' \<Longrightarrow> owner r = owner r'"
  by (rule ext) (simp add: owner_def split: option.splits)

context packet_sink
begin

text \<open>Routing a packet touches the part of the world of at most one sink, its owner.\<close>

lemma route_local:
  assumes "owner r pkt \<noteq> Some s"
  shows "view s (snd (snd (RoutePacket send pkt r w))) = view s w"
proof (cases "owner r pkt")
  case (Some s')
  then show ?thesis using assms send_local [of s' s] by (simp add: RoutePacket_world)
qed (simp add: RoutePacket_world)

lemma bridge_loop_local:
  "\<forall>pkt. Inr pkt \<in> set reads \<longrightarrow> owner (b_router b) pkt \<noteq> Some s \<Longrightarrow>
   view s (snd (snd (bridge_loop send c reads b w))) = view s w"
proof (induction reads arbitrary: b w)
  case (Cons x reads)
  show ?case
  proof (cases x)
    case (Inr pkt)
    obtain ok r w' where R: "RoutePacket send pkt (b_router b) w = (ok, r, w')"
      by (cases "RoutePacket send pkt (b_router b) w")
    have "owner r = owner (b_router b)"
      using RoutePacket_routes [of send pkt "b_router b" w] by (intro owner_cong) (simp add: R)
    moreover have "view s w' = view s w"
      using route_local [of "b_router b" pkt s w] Cons.prems Inr by (simp add: R)
    ultimately show ?thesis using Cons.IH [of b w] Cons.IH [of "b\<lparr>b_router := r\<rparr>" w'] Cons.prems Inr R by auto
  qed simp
qed simp

end

section \<open>Histories of a router\<close>

datatype 's router_op = SetOp netip "'s option" | RouteOp bytes

fun router_run ::
    "('s \<Rightarrow> bytes \<Rightarrow> 'w \<Rightarrow> bool \<times> 'w) \<Rightarrow> 's router_op list \<Rightarrow> 's router \<Rightarrow> 'w \<Rightarrow> 's router \<times> 'w" where
  "router_run send [] r w = (r, w)"
| "router_run send (SetOp dst s # ops) r w = router_run send ops (SetRoute dst s r) w"
| "router_run send (RouteOp pkt # ops) r w =
     (let (_, r, w) = RoutePacket send pkt r w in router_run send ops r w)"

definition malformed :: "'s router_op list \<Rightarrow> nat" where
  "malformed ops = length (filter (\<lambda>x. case x of RouteOp p \<Rightarrow> parseIPv4 p = None | _ \<Rightarrow> False) ops)"

definition offered :: "'s router_op list \<Rightarrow> nat" where
  "offered ops = length (filter (\<lambda>x. case x of RouteOp p \<Rightarrow> parseIPv4 p \<noteq> None | _ \<Rightarrow> False) ops)"

lemma packet_counts [simp]:
  "offered [] = 0" "malformed [] = 0"
  "offered (SetOp dst s # ops) = offered ops" "malformed (SetOp dst s # ops) = malformed ops"
  "offered (RouteOp p # ops) = (if parseIPv4 p = None then offered ops else Suc (offered ops))"
  "malformed (RouteOp p # ops) = (if parseIPv4 p = None then Suc (malformed ops) else malformed ops)"
  by (simp_all add: offered_def malformed_def del: not_None_eq)

lemma SetRoute_counters [simp]:
  "r_PktsIn (SetRoute dst s r) = r_PktsIn r" "r_PktsRouted (SetRoute dst s r) = r_PktsRouted r"
  "r_PktsDropped (SetRoute dst s r) = r_PktsDropped r"
  by (simp_all add: SetRoute_def split: option.splits)

lemma RoutePacket_counts:
  assumes "RoutePacket send pkt r w = (ok, r', w')"
  shows "r_PktsIn r' = r_PktsIn r + (if parseIPv4 pkt = None then 0 else 1)"
    and "r_PktsRouted r' + r_PktsDropped r' = r_PktsRouted r + r_PktsDropped r + 1"
    and "r_PktsRouted r' = r_PktsRouted r + (if ok then 1 else 0)"
  using assms by (auto simp: RoutePacket_def split: option.splits prod.splits bool.splits)

lemma router_run_counts:
  "r_PktsIn (fst (router_run send ops r w)) = r_PktsIn r + of_nat (offered ops)
   \<and> r_PktsRouted (fst (router_run send ops r w)) + r_PktsDropped (fst (router_run send ops r w))
     = (r_PktsRouted r + r_PktsDropped r) + of_nat (offered ops) + of_nat (malformed ops)"
proof (induction ops arbitrary: r w)
  case (Cons x ops)
  show ?case
  proof (cases x)
    case (SetOp dst s)
    then show ?thesis using Cons by simp
  next
    case (RouteOp pkt)
    obtain ok r1 w1 where R: "RoutePacket send pkt r w = (ok, r1, w1)" by (cases "RoutePacket send pkt r w")
    show ?thesis
      using Cons.IH [of r1 w1] RoutePacket_counts(1,2) [OF R] RouteOp R
      by (simp split del: if_split) (simp add: ac_simps)
  qed
qed simp

text \<open>The router's books balance. After any sequence of route changes and packets, whatever
  the sinks answer, the packets it counts as offered are the well-formed ones, and those plus
  the malformed ones are the packets it routed plus the packets it dropped; all counters are
  64 bits wide and wrap together.\<close>

theorem router_accounting:
  "r_PktsIn (fst (router_run send ops NewRouter w)) = of_nat (offered ops)
   \<and> of_nat (offered ops) + of_nat (malformed ops)
     = r_PktsRouted (fst (router_run send ops NewRouter w)) + r_PktsDropped (fst (router_run send ops NewRouter w))"
  using router_run_counts [of send ops NewRouter w] by (simp add: NewRouter_def)

text \<open>What is handed to the sinks by a bridge that reads \<open>pkts\<close>, with the log as the world.\<close>

definition handed :: "('s \<Rightarrow> bytes \<Rightarrow> bool) \<Rightarrow> bytes list \<Rightarrow> 's bridge \<Rightarrow> ('s \<times> bytes) list" where
  "handed ok pkts b = snd (snd (bridge_loop (\<lambda>s m w. (ok s m, w @ [(s, m)])) False (map Inr pkts) b []))"

lemma bridge_loop_log:
  "snd (snd (bridge_loop (\<lambda>s m w. (ok s m, w @ [(s, m)])) c (map Inr pkts) b w))
     = w @ List.map_filter (\<lambda>p. map_option (\<lambda>s. (s, p)) (owner (b_router b) p)) pkts"
proof (induction pkts arbitrary: b w)
  case (Cons p pkts)
  let ?send = "\<lambda>s m w. (ok s m, w @ [(s, m)])"
  obtain k r w1 where R: "RoutePacket ?send p (b_router b) w = (k, r, w1)"
    by (cases "RoutePacket ?send p (b_router b) w")
  have o: "owner r = owner (b_router b)"
    using RoutePacket_routes [of ?send p "b_router b" w] by (intro owner_cong) (simp add: R)
  have w1: "w1 = (case owner (b_router b) p of None \<Rightarrow> w | Some s \<Rightarrow> w @ [(s, p)])"
    using RoutePacket_world [of ?send p "b_router b" w] by (simp add: R split: option.splits)
  show ?case
  proof (cases "p = []")
    case True
    then show ?thesis using Cons [of b w] by (simp add: owner_def parseIPv4_def List.map_filter_simps)
  next
    case False
    then show ?thesis
      using Cons [of "b\<lparr>b_router := r\<rparr>" w1] R
      by (cases "owner (b_router b) p") (simp_all add: List.map_filter_simps o w1)
  qed
qed (simp add: List.map_filter_simps)

text \<open>Overlay traffic goes to the owner of its destination only. What the bridge hands to the
  sinks is, in order, exactly the packets read from the device that are well-formed IPv4 and
  have a route, each to the sink of its own destination address; packets without a route,
  malformed ones and empty reads are dropped, and a failing sink stops nothing.\<close>

theorem bridge_routes_by_destination:
  "handed ok pkts b = List.map_filter (\<lambda>p. map_option (\<lambda>s. (s, p)) (owner (b_router b) p)) pkts"
  unfolding handed_def using bridge_loop_log [of ok False pkts b "[]"] by simp

section \<open>The header of a packet\<close>

lemma header_nibbles: "m div 16 = 4 \<Longrightarrow> m = 64 + m mod 16" "n < 16 \<Longrightarrow> (64 + n) mod 16 = n" for m n :: nat
  using div_mult_mod_eq [of m 16] mod_mult_self2 [of n 16 4] by (simp_all add: add.commute)

lemma version_byte: "drop_bit 4 b = 4 \<longleftrightarrow> (\<exists>n<16. b = 64 + of_nat n)" for b :: byte
proof
  assume h: "drop_bit 4 b = 4"
  have "unat (drop_bit 4 b) = unat b div 16" by (simp only: unat_drop_bit_eq) (simp add: drop_bit_eq_div)
  then have d: "unat b div 16 = 4" using h by simp
  have "b = of_nat (unat b)" by simp
  also have "unat b = 64 + unat b mod 16" by (rule header_nibbles(1) [OF d])
  finally show "\<exists>n<16. b = 64 + of_nat n" by (intro exI [of _ "unat b mod 16"]) simp
next
  assume "\<exists>n<16. b = 64 + of_nat n"
  then obtain n where n: "n < 16" "b = 64 + of_nat n" by blast
  then have u: "unat b = 64 + n" by (simp add: unat_word_ariths unat_of_nat)
  have "unat (drop_bit 4 b) = unat (4 :: byte)"
    using n(1) by (simp only: unat_drop_bit_eq) (simp add: drop_bit_eq_div u)
  then show "drop_bit 4 b = 4" by (simp only: word_unat_eq_iff)
qed

lemma low_nibble: "unat (b AND 0x0F) = unat b mod 16" for b :: byte
proof -
  have "b AND 0x0F = take_bit 4 b" by (simp add: take_bit_eq_mask mask_numeral)
  then have "unat (b AND 0x0F) = take_bit 4 (unat b)" by (simp only: unsigned_take_bit_eq)
  then show ?thesis by (simp add: take_bit_eq_mod)
qed

lemma twenty_bytes:
  assumes "20 \<le> length pkt"
  obtains b0 b1 b2 b3 mid s d rest where
    "pkt = [b0, b1, b2, b3] @ mid @ s @ d @ rest" "length mid = 8" "length s = 4" "length d = 4"
proof
  show "pkt = [pkt ! 0, pkt ! 1, pkt ! 2, pkt ! 3] @ take 8 (drop 4 pkt) @ take 4 (drop 12 pkt)
      @ take 4 (drop 16 pkt) @ drop 20 pkt"
  proof -
    have "pkt = take 4 pkt @ take 8 (drop 4 pkt) @ take 4 (drop 8 (drop 4 pkt))
        @ take 4 (drop 4 (drop 8 (drop 4 pkt))) @ drop 4 (drop 4 (drop 8 (drop 4 pkt)))"
      by (simp only: append_take_drop_id)
    moreover have "take 4 pkt = [pkt ! 0, pkt ! 1, pkt ! 2, pkt ! 3]"
      using assms by (intro nth_equalityI) (auto simp: less_Suc_eq numeral_eq_Suc)
    ultimately show ?thesis by simp
  qed
qed (use assms in simp_all)

lemma four_bytes: "length s = 4 \<Longrightarrow> [s ! 0, s ! 1, s ! 2, s ! 3] = s"
  by (intro nth_equalityI) (auto simp: less_Suc_eq numeral_eq_Suc)

lemma parseIPv4_shape:
  assumes "length mid = 8" "length s = 4" "length d = 4"
  shows "parseIPv4 ([b0, b1, b2, b3] @ mid @ s @ d @ rest) =
     (if (\<exists>n<16. b0 = 64 + of_nat n) \<and> 20 \<le> 4 * (unat b0 mod 16)
         \<and> 4 * (unat b0 mod 16) \<le> unat (get16 b2 b3) \<and> unat (get16 b2 b3) \<le> 20 + length rest
      then Some (V4 s, V4 d) else None)"
proof -
  let ?p = "[b0, b1, b2, b3] @ mid @ s @ d @ rest"
  have "?p ! 12 = s ! 0" "?p ! 13 = s ! 1" "?p ! 14 = s ! 2" "?p ! 15 = s ! 3"
    "?p ! 16 = d ! 0" "?p ! 17 = d ! 1" "?p ! 18 = d ! 2" "?p ! 19 = d ! 3"
    using assms by (simp_all add: nth_append nth_Cons')
  moreover have "length ?p = 20 + length rest" using assms by simp
  ultimately show ?thesis
    using four_bytes [OF assms(2)] four_bytes [OF assms(3)]
    by (auto simp: parseIPv4_def Let_def low_nibble simp flip: version_byte)
qed

text \<open>The router accepts exactly the complete IPv4 datagrams. A packet is accepted, with source
  \<open>s\<close> and destination \<open>d\<close>, precisely when it is an IPv4 header of 5 to 15 words with those
  addresses, its total length covers the header and the packet is at least that long; so no
  index of the parser is out of range and IPv6, truncated and short packets are all rejected.\<close>

theorem ipv4_accepts_exactly:
  "parseIPv4 pkt = Some (V4 s, V4 d) \<longleftrightarrow>
     (\<exists>ihl tos hi lo mid rest. ihl \<in> {5..15} \<and> length mid = 8 \<and> length s = 4 \<and> length d = 4
       \<and> pkt = [64 + of_nat ihl, tos, hi, lo] @ mid @ s @ d @ rest
       \<and> 4 * ihl \<le> unat (get16 hi lo) \<and> unat (get16 hi lo) \<le> length pkt)"
proof
  assume h: "parseIPv4 pkt = Some (V4 s, V4 d)"
  then have "20 \<le> length pkt" by (auto simp: parseIPv4_def split: if_splits)
  then obtain b0 b1 b2 b3 mid s' d' rest where p: "pkt = [b0, b1, b2, b3] @ mid @ s' @ d' @ rest"
    "length mid = 8" "length s' = 4" "length d' = 4" by (rule twenty_bytes)
  obtain n where n: "n < 16" "b0 = 64 + of_nat n" "20 \<le> 4 * (unat b0 mod 16)"
    "4 * (unat b0 mod 16) \<le> unat (get16 b2 b3)" "unat (get16 b2 b3) \<le> 20 + length rest" "s' = s" "d' = d"
    using h parseIPv4_shape [OF p(2-4), of b0 b1 b2 b3 rest] p(1) by (auto split: if_splits)
  have "unat b0 = 64 + n" using n(1,2) by (simp add: unat_word_ariths unat_of_nat)
  then have "unat b0 mod 16 = n" using header_nibbles(2) [OF n(1)] by (simp only:)
  then show "\<exists>ihl tos hi lo mid rest. ihl \<in> {5..15} \<and> length mid = 8 \<and> length s = 4 \<and> length d = 4
       \<and> pkt = [64 + of_nat ihl, tos, hi, lo] @ mid @ s @ d @ rest
       \<and> 4 * ihl \<le> unat (get16 hi lo) \<and> unat (get16 hi lo) \<le> length pkt"
    using n p by (intro exI [of _ n] exI [of _ b1] exI [of _ b2] exI [of _ b3] exI [of _ mid] exI [of _ rest]) simp
next
  assume "\<exists>ihl tos hi lo mid rest. ihl \<in> {5..15} \<and> length mid = 8 \<and> length s = 4 \<and> length d = 4
       \<and> pkt = [64 + of_nat ihl, tos, hi, lo] @ mid @ s @ d @ rest
       \<and> 4 * ihl \<le> unat (get16 hi lo) \<and> unat (get16 hi lo) \<le> length pkt"
  then obtain ihl tos hi lo mid rest where e: "ihl \<in> {5..15}" "length mid = 8" "length s = 4" "length d = 4"
    "pkt = [64 + of_nat ihl, tos, hi, lo] @ mid @ s @ d @ rest"
    "4 * ihl \<le> unat (get16 hi lo)" "unat (get16 hi lo) \<le> length pkt"
    by (elim exE conjE) (rule that; assumption)
  have "unat (64 + of_nat ihl :: byte) = 64 + ihl" using e(1) by (simp add: unat_word_ariths unat_of_nat)
  then have "unat (64 + of_nat ihl :: byte) mod 16 = ihl" using e(1) header_nibbles(2) [of ihl] by (simp only: atLeastAtMost_iff) auto
  moreover have "\<exists>n<16. 64 + of_nat ihl = (64 + of_nat n :: byte)" using e(1) by (intro exI [of _ ihl]) simp
  ultimately show "parseIPv4 pkt = Some (V4 s, V4 d)"
    using parseIPv4_shape [OF e(2-4), of "64 + of_nat ihl" tos hi lo rest] e(1,5-7) by (simp add: e(2-4))
qed

section \<open>The device is a queue\<close>

interpretation bd: packet_queue WriteDevice ReadDevice d_buf d_closed
  by unfold_locales (auto simp: WriteDevice_def ReadDevice_def)

end
