(* ===== verification/Devices.thy ===== *)
theory Devices
  imports Tun
begin

text \<open>
  The tunnel devices of the operating systems, \<^verbatim>\<open>internal/tun/tun_linux.go\<close>,
  \<^verbatim>\<open>tun_darwin.go\<close> and \<^verbatim>\<open>tun_other.go\<close>: the names they try, the request to the Linux kernel and
  the header that macOS puts before every packet. Device files are arguments: \<open>opens\<close> says
  which paths open, \<open>ioctl\<close> what the \<^verbatim>\<open>TUNSETIFF\<close> call makes of a request.
\<close>

datatype tun_error = OpenFailed | NameTooLong | IoctlFailed | UnsupportedPlatform

text \<open>An open device: its interface name and its MTU.\<close>

record os_device =
  od_name :: gostring
  od_mtu :: int

definition device_mtu :: "int \<Rightarrow> int" where
  "device_mtu mtu = (if mtu \<le> 0 then defaultMTU else mtu)"

section \<open>Linux\<close>

definition IFNAMSIZ :: nat where "IFNAMSIZ = 16"
definition tunPath :: gostring where "tunPath = lit ''/dev/net/tun''"
definition iffTun :: "16 word" where "iffTun = 0x0001"
definition iffNoPI :: "16 word" where "iffNoPI = 0x1000"

text \<open>
  The request of 40 bytes: the name, cut to leave room for a zero, and the flags in the byte
  order of the machine, here little-endian.
\<close>

definition ifreqTun :: "gostring \<Rightarrow> tun_error + bytes" where
  "ifreqTun name =
     (if length name \<ge> IFNAMSIZ then Inl NameTooLong
      else let flags = iffTun OR iffNoPI;
               name = take (IFNAMSIZ - 1) name
           in Inr (name @ replicate (IFNAMSIZ - length name) 0
                   @ [ucast flags, ucast (drop_bit 8 flags)] @ replicate 22 0))"

definition ifrName :: "bytes \<Rightarrow> gostring" where
  "ifrName ifr = takeWhile (\<lambda>b. b \<noteq> 0) (take (IFNAMSIZ - 1) ifr)"

definition openDevice_linux :: "bool \<Rightarrow> (bytes \<Rightarrow> bytes option) \<Rightarrow> gostring \<Rightarrow> int \<Rightarrow> tun_error + os_device" where
  "openDevice_linux opened ioctl name mtu =
     (let mtu = device_mtu mtu; name = (if name = [] then lit ''meshlink%d'' else name)
      in if \<not> opened then Inl OpenFailed
         else (case ifreqTun name of
                 Inl e \<Rightarrow> Inl e
               | Inr ifr \<Rightarrow>
                   (case ioctl ifr of
                      None \<Rightarrow> Inl IoctlFailed
                    | Some ifr \<Rightarrow> Inr \<lparr>od_name = ifrName ifr, od_mtu = mtu\<rparr>)))"

section \<open>macOS\<close>

definition utunHeaderLen :: nat where "utunHeaderLen = 4"

definition devPrefix :: gostring where "devPrefix = lit ''/dev/''"

definition HasPrefix :: "gostring \<Rightarrow> gostring \<Rightarrow> bool" where
  "HasPrefix s p \<longleftrightarrow> take (length p) s = p"

definition TrimPrefix :: "gostring \<Rightarrow> gostring \<Rightarrow> gostring" where
  "TrimPrefix s p = (if HasPrefix s p then drop (length p) s else s)"

definition candidates :: "gostring \<Rightarrow> gostring list" where
  "candidates name =
     (if name = [] then map (\<lambda>i. lit ''/dev/utun'' @ Itoa (int i)) [0..<16]
      else if HasPrefix name devPrefix then [name] else [devPrefix @ name])"

fun open_first :: "(gostring \<Rightarrow> bool) \<Rightarrow> gostring list \<Rightarrow> gostring option" where
  "open_first opens [] = None"
| "open_first opens (path # paths) = (if opens path then Some path else open_first opens paths)"

definition openDevice_darwin :: "(gostring \<Rightarrow> bool) \<Rightarrow> gostring \<Rightarrow> int \<Rightarrow> tun_error + os_device" where
  "openDevice_darwin opens name mtu =
     (case open_first opens (candidates name) of
        None \<Rightarrow> Inl OpenFailed
      | Some path \<Rightarrow> Inr \<lparr>od_name = TrimPrefix path devPrefix, od_mtu = device_mtu mtu\<rparr>)"

text \<open>
  \<open>Read\<close> into a buffer of \<open>n\<close> bytes: the device file, read with room for the header, gives an
  error or the start of a packet with its header. \<open>Write\<close>: what goes to the device file.
\<close>

datatype utun_error = ReadError | UnexpectedEOF

definition utunRead :: "nat \<Rightarrow> unit + bytes \<Rightarrow> utun_error + bytes" where
  "utunRead n r =
     (case r of
        Inl e \<Rightarrow> Inl ReadError
      | Inr packet \<Rightarrow>
          let buf = take (n + utunHeaderLen) packet
          in if length buf < utunHeaderLen then Inl UnexpectedEOF
             else Inr (take n (drop utunHeaderLen buf)))"

definition utunWrite :: "bytes \<Rightarrow> bytes" where
  "utunWrite p = replicate utunHeaderLen 0 @ p"

section \<open>Other systems\<close>

definition openDevice_other :: "gostring \<Rightarrow> int \<Rightarrow> tun_error + os_device" where
  "openDevice_other name mtu = Inl UnsupportedPlatform"

section \<open>Names and packets come back\<close>

lemma ifrName_ifreqTun:
  assumes "ifreqTun name = Inr ifr" "0 \<notin> set name"
  shows "ifrName ifr = name \<and> length ifr = 40"
proof -
  have l: "length name < 16" using assms(1) by (simp add: ifreqTun_def IFNAMSIZ_def split: if_splits)
  then obtain x y where "ifr = name @ replicate (16 - length name) 0 @ [x, y] @ replicate 22 0"
    using assms(1) by (auto simp: ifreqTun_def IFNAMSIZ_def Let_def)
  moreover have "\<forall>x\<in>set name. x \<noteq> 0" using assms(2) by auto
  then have "takeWhile (\<lambda>b. b \<noteq> 0) name = name" by simp
  ultimately show ?thesis
    using l assms(2) by (auto simp: ifrName_def IFNAMSIZ_def take_append takeWhile_append2)
qed

lemma utun_roundtrip: "utunRead n (Inr (utunWrite p)) = Inr (take n p)"
  by (simp add: utunRead_def utunWrite_def utunHeaderLen_def Let_def)

lemma open_first_sound: "open_first opens paths = Some path \<Longrightarrow> path \<in> set paths \<and> opens path"
  by (induction paths) (auto split: if_splits)

end
