(* ===== verification/Agent.thy ===== *)
theory Agent
  imports Peer Tun Natbox Stun Coordinator "HOL-Library.Signed_Division"
begin

text \<open>
  The client, \<^verbatim>\<open>internal/agent/agent.go\<close>, \<^verbatim>\<open>status.go\<close> and the parts of \<^verbatim>\<open>tunbridge.go\<close> that
  touch it: the peer table and what a peer list does to it, the datagram demultiplexer and the
  transport it gives its peers, discovery of the public endpoint, registration, the control
  messages it receives, liveness pings and the snapshot of its state. Sockets, dialling, the
  clock and the random transaction id are arguments; the goroutine of a peer is in \<^verbatim>\<open>Peer\<close>.
\<close>

section \<open>State\<close>

text \<open>
  The peers are a Go map; a loop over it visits the entries in the order of the list, which
  stands for any order. A control connection and a waiting ping are numbers. \<open>ag_query\<close> is the
  channel of one query result. A sink of the bridge is the name of a peer.
\<close>

record ('h, 'c) agent =
  ag_Name :: gostring
  ag_Coordinator :: gostring
  ag_kp :: "Keypair option"
  ag_door :: "UDPAddr option"
  ag_relay :: "UDPAddr option"
  ag_pub :: "UDPAddr option"
  ag_ctrl :: "nat option"
  ag_ctrlConn :: "nat option"
  ag_ctrlCancel :: "nat option"
  ag_peers :: "(gostring, ('h, 'c) peer) gomap"
  ag_peerCancel :: "(gostring, unit) gomap"
  ag_bridge :: "gostring bridge option"
  ag_pingOut :: "(u64, nat) gomap"
  ag_lastRTT :: "(gostring, duration) gomap"
  ag_rttHist :: "(gostring, duration list) gomap"
  ag_query :: "Message option"

text \<open>What the agent does besides changing its state.\<close>

datatype agent_effect =
    WriteUDP UDPAddr bytes
  | WriteCtrl nat bytes
  | CloseCtrl nat
  | CancelCtrl nat
  | StartPeer gostring
  | CancelPeer gostring
  | PeerClosed gostring
  | WriteTun bytes
  | WakePing nat gotime
  | CloseSocket
  | CloseTun

datatype agent_error =
    KeyError key_error
  | BindFailed
  | DoorUnresolved
  | RelayUnresolved
  | WrapFailed nat_error
  | RelayNotConfigured
  | RelayWrapFailed relay_error
  | BadCoordinatorKey key_error
  | DialFailed
  | ControlHandshakeFailed
  | ControlWriteFailed

section \<open>Construction\<close>

text \<open>\<open>keys\<close> is what \<^verbatim>\<open>LoadOrCreateKeyfile\<close> returns, \<open>bound\<close> whether the socket could be bound.\<close>

definition newAgent ::
    "(gostring \<Rightarrow> UDPAddr option) \<Rightarrow> gostring \<Rightarrow> gostring \<Rightarrow> gostring \<Rightarrow> gostring \<Rightarrow> key_error + Keypair
     \<Rightarrow> bool \<Rightarrow> agent_error + ('h, 'c) agent" where
  "newAgent resolver name coordinator natDoor relayAddr keys bound =
     (case keys of
        Inl e \<Rightarrow> Inl (KeyError e)
      | Inr kp \<Rightarrow>
          if \<not> bound then Inl BindFailed
          else if natDoor \<noteq> [] \<and> ResolveUDPAddr resolver natDoor = None then Inl DoorUnresolved
          else if relayAddr \<noteq> [] \<and> ResolveUDPAddr resolver relayAddr = None then Inl RelayUnresolved
          else Inr \<lparr>ag_Name = name, ag_Coordinator = coordinator, ag_kp = Some kp,
                    ag_door = (if natDoor \<noteq> [] then ResolveUDPAddr resolver natDoor else None),
                    ag_relay = (if relayAddr \<noteq> [] then ResolveUDPAddr resolver relayAddr else None),
                    ag_pub = None, ag_ctrl = None, ag_ctrlConn = None, ag_ctrlCancel = None,
                    ag_peers = [], ag_peerCancel = [], ag_bridge = None, ag_pingOut = [],
                    ag_lastRTT = [], ag_rttHist = [], ag_query = None\<rparr>)"

section \<open>The transport\<close>

text \<open>\<open>sendDatagram\<close>: the datagram that reaches the socket and where it goes.\<close>

definition sendDatagram ::
    "('h, 'c) agent \<Rightarrow> UDPAddr \<Rightarrow> bytes \<Rightarrow> agent_error + UDPAddr \<times> bytes" where
  "sendDatagram g dst pkt =
     (case ag_door g of
        None \<Rightarrow> Inr (dst, pkt)
      | Some door \<Rightarrow>
          (case WrapOutbound (ag_Name g) (Some dst) pkt of
             Inl e \<Rightarrow> Inl (WrapFailed e)
           | Inr wrapped \<Rightarrow> Inr (door, wrapped)))"

definition SendDirect_agent ::
    "('h, 'c) agent \<Rightarrow> UDPAddr \<Rightarrow> bytes \<Rightarrow> agent_error + UDPAddr \<times> bytes" where
  "SendDirect_agent g dst frame = sendDatagram g dst frame"

definition SendRelay_agent ::
    "('h, 'c) agent \<Rightarrow> gostring \<Rightarrow> bytes \<Rightarrow> agent_error + UDPAddr \<times> bytes" where
  "SendRelay_agent g peerID frame =
     (case ag_relay g of
        None \<Rightarrow> Inl RelayNotConfigured
      | Some relay \<Rightarrow>
          (case WrapPacket (ag_Name g) peerID frame of
             Inl e \<Rightarrow> Inl (RelayWrapFailed e)
           | Inr pkt \<Rightarrow> sendDatagram g relay pkt))"

text \<open>The datagrams a peer's effects become.\<close>

definition transmit :: "('h, 'c) agent \<Rightarrow> effect \<Rightarrow> agent_effect list" where
  "transmit g e =
     (case (case e of
              SendDirect dst frame \<Rightarrow> SendDirect_agent g dst frame
            | SendRelay pid frame \<Rightarrow> SendRelay_agent g pid frame
            | _ \<Rightarrow> Inl RelayNotConfigured) of
        Inl _ \<Rightarrow> []
      | Inr (dst, pkt) \<Rightarrow> [WriteUDP dst pkt])"

definition transmits :: "('h, 'c) agent \<Rightarrow> effect list \<Rightarrow> agent_effect list" where
  "transmits g es = concat (map (transmit g) es)"

section \<open>Discovery of the public endpoint\<close>

definition txidMatches :: "bytes \<Rightarrow> bytes \<Rightarrow> bool" where
  "txidMatches b txid = list_all (\<lambda>i. b ! i = txid ! i) [0..<length txid]"

text \<open>
  The receive loop over the deliveries of the data socket, \<open>Inl ()\<close> a read error; when they end
  the deadline fires.
\<close>

fun await_endpoint ::
    "(gostring \<Rightarrow> UDPAddr option) \<Rightarrow> bool \<Rightarrow> bytes \<Rightarrow> (unit + bytes) list \<Rightarrow> stun_error + UDPAddr" where
  "await_endpoint resolver door txid [] = Inl ReadTimeout"
| "await_endpoint resolver door txid (Inl _ # ds) = Inl ReadFailed"
| "await_endpoint resolver door txid (Inr pkt # ds) =
     (case (if door then map_sum id snd (UnwrapInbound resolver pkt) else Inr pkt) of
        Inl _ \<Rightarrow> await_endpoint resolver door txid ds
      | Inr buf \<Rightarrow>
          if length buf < 20 \<or> buf ! 0 \<noteq> 1 \<or> buf ! 1 \<noteq> 1 then await_endpoint resolver door txid ds
          else if \<not> txidMatches (take 12 (drop 8 buf)) txid then await_endpoint resolver door txid ds
          else DecodeXORMappedAddress buf)"

text \<open>What it sends first, and the result; \<open>None\<close> when the server's name or the wrapping fails.\<close>

definition resolvePublicEndpoint ::
    "(gostring \<Rightarrow> UDPAddr option) \<Rightarrow> gostring \<Rightarrow> bytes \<Rightarrow> (unit + bytes) list \<Rightarrow> ('h, 'c) agent
     \<Rightarrow> agent_effect list \<times> UDPAddr option" where
  "resolvePublicEndpoint resolver stunAddr txid deliveries g =
     (case ResolveUDPAddr resolver stunAddr of
        None \<Rightarrow> ([], None)
      | Some dst \<Rightarrow>
          (case sendDatagram g dst (EncodeBindingRequest txid) of
             Inl _ \<Rightarrow> ([], None)
           | Inr (to, pkt) \<Rightarrow>
               ([WriteUDP to pkt],
                case await_endpoint resolver (ag_door g \<noteq> None) txid deliveries of
                  Inl _ \<Rightarrow> None | Inr a \<Rightarrow> Some a)))"

section \<open>Registration\<close>

definition publicEndpoints :: "('h, 'c) agent \<Rightarrow> gostring list" where
  "publicEndpoints g = [UDPAddr_String (ag_pub g)]
     @ (if ag_relay g \<noteq> None then [UDPAddr_String (ag_relay g)] else [])"

definition registerMessage :: "('h, 'c) agent \<Rightarrow> Message" where
  "registerMessage g = blank_message\<lparr>m_Type := TypeRegister, m_ID := ag_Name g,
     m_PubKey := PublicHex (ag_kp g), m_Endpoints := Some (publicEndpoints g)\<rparr>"

text \<open>
  \<open>register\<close>: the old connection is closed, a new one, number \<open>conn\<close>, is dialled and
  authenticated, and the registration is written to it. \<open>dialled\<close>, \<open>secured\<close> and \<open>written\<close> are
  the outcomes of dialling, of \<^verbatim>\<open>control.Initiate\<close> and of \<^verbatim>\<open>WriteMsg\<close>.
\<close>

definition register ::
    "gostring \<Rightarrow> nat \<Rightarrow> bool \<Rightarrow> bool \<Rightarrow> bool \<Rightarrow> ('h, 'c) agent
     \<Rightarrow> agent_error option \<times> ('h, 'c) agent \<times> agent_effect list" where
  "register coordKey conn dialled secured written g =
     (case ParsePublicKeyHex coordKey of
        Inl e \<Rightarrow> (Some (BadCoordinatorKey e), g, [])
      | Inr coordPub \<Rightarrow>
          let closing = (case ag_ctrl g of
                None \<Rightarrow> []
              | Some c \<Rightarrow> [CloseCtrl c]
                  @ (case ag_ctrlCancel g of None \<Rightarrow> [] | Some k \<Rightarrow> [CancelCtrl k]))
          in if \<not> dialled then (Some DialFailed, g, closing)
             else if \<not> secured
             then (Some ControlHandshakeFailed, g\<lparr>ag_ctrl := None, ag_ctrlCancel := None\<rparr>,
                   closing @ [CloseCtrl conn])
             else let g = g\<lparr>ag_ctrl := Some conn, ag_ctrlConn := Some conn, ag_ctrlCancel := Some conn\<rparr>
                  in (if written then None else Some ControlWriteFailed, g,
                      closing @ [WriteCtrl conn (EncodeLine (registerMessage g))]))"

section \<open>Peer lists\<close>

text \<open>The endpoint of an entry: its first one, when it resolves.\<close>

definition infoEndpoint :: "(gostring \<Rightarrow> UDPAddr option) \<Rightarrow> PeerInfo \<Rightarrow> UDPAddr option" where
  "infoEndpoint resolver info =
     (case endpoints_of (pi_Endpoints info) of [] \<Rightarrow> None | e # _ \<Rightarrow> ResolveUDPAddr resolver e)"

text \<open>One turn of the first loop of \<open>applyPeers\<close>.\<close>

definition applyInfo ::
    "(gostring \<Rightarrow> UDPAddr option) \<Rightarrow> PeerInfo \<Rightarrow> ('h, 'c) agent \<Rightarrow> ('h, 'c) agent \<times> agent_effect list" where
  "applyInfo resolver info g =
     (if pi_ID info = ag_Name g then (g, [])
      else let directEP = infoEndpoint resolver info in
        (case map_of (ag_peers g) (pi_ID info) of
           Some existing \<Rightarrow>
             (if directEP \<noteq> None
              then g\<lparr>ag_peers := AList.update (pi_ID info) (SetDirectEP directEP existing) (ag_peers g)\<rparr>
              else g, [])
         | None \<Rightarrow>
             (case ParsePublicKeyHex (pi_PubKey info) of
                Inl e \<Rightarrow> (g, [])
              | Inr pub \<Rightarrow>
                  let np = newPeer (ag_Name g) (pi_ID info) pub directEP (ag_kp g) in
                  (g\<lparr>ag_peers := AList.update (pi_ID info) np (ag_peers g),
                     ag_peerCancel := AList.update (pi_ID info) () (ag_peerCancel g),
                     ag_bridge := map_option (setPeerSink (pi_ID info) (Some (pi_ID info))) (ag_bridge g)\<rparr>,
                   [StartPeer (pi_ID info)]))))"

text \<open>One turn of the second loop, for a peer that the list does not name.\<close>

definition prunePeer :: "gostring \<Rightarrow> ('h, 'c) agent \<Rightarrow> ('h, 'c) agent \<times> agent_effect list" where
  "prunePeer pid g =
     (g\<lparr>ag_bridge := map_option (setPeerSink pid None) (ag_bridge g),
        ag_peerCancel := AList.delete pid (ag_peerCancel g),
        ag_peers := AList.delete pid (ag_peers g)\<rparr>,
      (case map_of (ag_peerCancel g) pid of None \<Rightarrow> [] | Some _ \<Rightarrow> [CancelPeer pid]) @ [PeerClosed pid])"

definition applyPeers ::
    "(gostring \<Rightarrow> UDPAddr option) \<Rightarrow> PeerInfo list \<Rightarrow> ('h, 'c) agent \<Rightarrow> ('h, 'c) agent \<times> agent_effect list" where
  "applyPeers resolver infos g =
     (let seen = filter (\<lambda>i. i \<noteq> ag_Name g) (map pi_ID infos);
          (g, es) = steps (applyInfo resolver) infos g;
          (g, es') = steps prunePeer (filter (\<lambda>i. i \<notin> set seen) (map fst (ag_peers g))) g
      in (g, es @ es'))"

text \<open>One turn of \<open>ctrlReaderLoop\<close>; a query result that nobody has room for is dropped.\<close>

definition ctrlMessage ::
    "(bytes \<Rightarrow> Message option) \<Rightarrow> (gostring \<Rightarrow> UDPAddr option) \<Rightarrow> bytes \<Rightarrow> ('h, 'c) agent
     \<Rightarrow> ('h, 'c) agent \<times> agent_effect list" where
  "ctrlMessage unmarshal resolver plain g =
     (case DecodeLine unmarshal plain of
        Inl e \<Rightarrow> (g, [])
      | Inr msg \<Rightarrow>
          if m_Type msg = TypePeerList then applyPeers resolver (m_Peers msg) g
          else if m_Type msg = TypeQueryResult
          then (g\<lparr>ag_query := (case ag_query g of None \<Rightarrow> Some msg | Some q \<Rightarrow> Some q)\<rparr>, [])
          else (g, []))"

section \<open>Receiving\<close>

text \<open>The peer a datagram is for, and the frame it carries.\<close>

definition matchPeer :: "('h, 'c) agent \<Rightarrow> UDPAddr \<Rightarrow> bytes \<Rightarrow> (gostring \<times> bytes) option" where
  "matchPeer g extSrc frame =
     (if ag_relay g \<noteq> None \<and> UDPAddr_String (Some extSrc) = UDPAddr_String (ag_relay g)
      then (case ParsePacket frame of
              Inl e \<Rightarrow> None
            | Inr (rid, _, payload) \<Rightarrow>
                if map_of (ag_peers g) rid \<noteq> None then Some (rid, payload) else None)
      else (case find (\<lambda>(_, p). DirectEndpoint p \<noteq> None
                  \<and> UDPAddr_String (Some extSrc) = UDPAddr_String (DirectEndpoint p)) (ag_peers g) of
              None \<Rightarrow> None
            | Some (pid, _) \<Rightarrow> Some (pid, frame)))"

definition openEnvelope ::
    "(gostring \<Rightarrow> UDPAddr option) \<Rightarrow> ('h, 'c) agent \<Rightarrow> UDPAddr \<Rightarrow> bytes \<Rightarrow> (UDPAddr \<times> bytes) option" where
  "openEnvelope resolver g src pkt =
     (if ag_door g = None then Some (src, pkt)
      else (case UnwrapInbound resolver pkt of Inl _ \<Rightarrow> None | Inr x \<Rightarrow> Some x))"

text \<open>One turn of \<open>receiveLoop\<close>; \<open>None\<close> is a panic of the peer's handler.\<close>

definition receiveDatagram ::
    "('h, 'c, 'r) handshake_api \<Rightarrow> ('c, 'k) cipher_api \<Rightarrow> (gostring \<Rightarrow> UDPAddr option) \<Rightarrow> 'r \<Rightarrow> gotime
     \<Rightarrow> UDPAddr \<Rightarrow> bytes \<Rightarrow> ('h, 'c) agent \<Rightarrow> (('h, 'c) agent \<times> agent_effect list) option" where
  "receiveDatagram hapi api resolver rnd now src pkt g =
     (case openEnvelope resolver g src pkt of
        None \<Rightarrow> Some (g, [])
      | Some (extSrc, frame) \<Rightarrow>
          (case matchPeer g extSrc frame of
             None \<Rightarrow> Some (g, [])
           | Some (pid, payload) \<Rightarrow>
               (case map_of (ag_peers g) pid of
                  None \<Rightarrow> Some (g, [])
                | Some p \<Rightarrow>
                    (case HandleFrame hapi api (ag_relay g) rnd now (Some extSrc) payload p of
                       None \<Rightarrow> None
                     | Some (p', es) \<Rightarrow>
                         Some (g\<lparr>ag_peers := AList.update pid p' (ag_peers g)\<rparr>, transmits g es)))))"

section \<open>Payloads and pings\<close>

record ping_msg =
  pm_Cmd :: gostring
  pm_S :: u64
  pm_Ts :: int

definition json_ping :: "ping_msg \<Rightarrow> bytes" where
  "json_ping m = json_object [(''cmd'', json_string (pm_Cmd m)), (''s'', Itoa (uint (pm_S m))),
     (''ts'', Itoa (pm_Ts m))]"

definition decodePingMsg :: "(bytes \<Rightarrow> ping_msg option) \<Rightarrow> bytes \<Rightarrow> ping_msg option" where
  "decodePingMsg unmarshal payload =
     (case unmarshal payload of
        None \<Rightarrow> None
      | Some m \<Rightarrow> if pm_Cmd m \<noteq> lit ''ping'' \<and> pm_Cmd m \<noteq> lit ''pong'' then None else Some m)"

text \<open>\<open>SendJSON\<close> through a peer, with what its agent puts on the wire; \<open>None\<close> is a panic.\<close>

definition SendJSON ::
    "('c, 'k) cipher_api \<Rightarrow> gotime \<Rightarrow> bool \<Rightarrow> ping_msg \<Rightarrow> ('h, 'c) peer
     \<Rightarrow> (send_error option \<times> ('h, 'c) peer \<times> effect list) option" where
  "SendJSON api now ok m p = SendPeer api now ok (json_ping m) p"

text \<open>The answer to a ping goes back through the peer \<open>p\<close> it came from; a pong wakes its waiter.\<close>

definition dispatchPing ::
    "('c, 'k) cipher_api \<Rightarrow> gotime \<Rightarrow> bool \<Rightarrow> ping_msg \<Rightarrow> ('h, 'c) agent \<Rightarrow> ('h, 'c) peer
     \<Rightarrow> (('h, 'c) agent \<times> ('h, 'c) peer \<times> agent_effect list) option" where
  "dispatchPing api now ok m g p =
     (if pm_Cmd m = lit ''ping'' then
        (case SendJSON api now ok (m\<lparr>pm_Cmd := lit ''pong''\<rparr>) p of
           None \<Rightarrow> None
         | Some (_, p, es) \<Rightarrow> Some (g, p, transmits g es))
      else if pm_Cmd m = lit ''pong'' then
        Some (g\<lparr>ag_pingOut := AList.delete (pm_S m) (ag_pingOut g)\<rparr>, p,
              (case map_of (ag_pingOut g) (pm_S m) of None \<Rightarrow> [] | Some ch \<Rightarrow> [WakePing ch now]))
      else Some (g, p, []))"

text \<open>\<open>handlePeerPayload\<close>; \<open>tun_ok\<close> is the outcome of a write to the device.\<close>

definition handlePeerPayload ::
    "(bytes \<Rightarrow> ping_msg option) \<Rightarrow> ('c, 'k) cipher_api \<Rightarrow> gotime \<Rightarrow> bool \<Rightarrow> bool \<Rightarrow> bytes
     \<Rightarrow> ('h, 'c) agent \<Rightarrow> ('h, 'c) peer \<Rightarrow> (('h, 'c) agent \<times> ('h, 'c) peer \<times> agent_effect list) option" where
  "handlePeerPayload unmarshal api now ok tun_ok payload g p =
     (if payload = [] then Some (g, p, [])
      else (case ag_bridge g of
              Some b \<Rightarrow>
                (case (if hd payload = 123 then decodePingMsg unmarshal payload else None) of
                   Some m \<Rightarrow> dispatchPing api now ok m g p
                 | None \<Rightarrow> Some (g, p, case snd (inbound tun_ok payload b) of
                                         None \<Rightarrow> [] | Some pkt \<Rightarrow> [WriteTun pkt]))
            | None \<Rightarrow>
                (case decodePingMsg unmarshal payload of
                   None \<Rightarrow> Some (g, p, [])
                 | Some m \<Rightarrow> dispatchPing api now ok m g p)))"

text \<open>
  A ping in steps: it is sent, then its waiter is entered in the table, and when it ends its
  entry is dropped.
\<close>

definition registerPing :: "u64 \<Rightarrow> nat \<Rightarrow> ('h, 'c) agent \<Rightarrow> ('h, 'c) agent" where
  "registerPing seq ch g = g\<lparr>ag_pingOut := AList.update seq ch (ag_pingOut g)\<rparr>"

definition dropPing :: "u64 \<Rightarrow> ('h, 'c) agent \<Rightarrow> ('h, 'c) agent" where
  "dropPing seq g = g\<lparr>ag_pingOut := AList.delete seq (ag_pingOut g)\<rparr>"

section \<open>Status\<close>

definition rttHistoryDepth :: nat where "rttHistoryDepth = 5"

definition recordRTT :: "gostring \<Rightarrow> duration \<Rightarrow> ('h, 'c) agent \<Rightarrow> ('h, 'c) agent" where
  "recordRTT peerID rtt g =
     (let hist = rtt # (case map_of (ag_rttHist g) peerID of None \<Rightarrow> [] | Some h \<Rightarrow> h)
      in g\<lparr>ag_lastRTT := AList.update peerID rtt (ag_lastRTT g),
           ag_rttHist := AList.update peerID
             (if length hist > rttHistoryDepth then take rttHistoryDepth hist else hist)
             (ag_rttHist g)\<rparr>)"

record PeerStatus =
  ps_ID :: gostring
  ps_Established :: bool
  ps_Path :: gostring
  ps_LastRTT :: duration
  ps_RTTHistory :: "duration list"
  ps_RekeyCount :: u64
  ps_SessionAge :: duration
  ps_BytesSent :: u64
  ps_BytesRecv :: u64
  ps_DirectEP :: gostring

record CoordinatorStatus =
  cs_Count :: int
  cs_Total :: int
  cs_Up :: int

record status =
  st_Name :: gostring
  st_PubKey :: gostring
  st_PublicEP :: gostring
  st_Relay :: gostring
  st_Coordinator :: gostring
  st_Registry :: CoordinatorStatus
  st_Peers :: "PeerStatus list"

definition peerStatus :: "gotime \<Rightarrow> ('h, 'c) agent \<Rightarrow> gostring \<Rightarrow> ('h, 'c) peer \<Rightarrow> PeerStatus" where
  "peerStatus now g pid p =
     \<lparr>ps_ID = p_ID p, ps_Established = p_established p, ps_Path = Path_String (p_path p),
      ps_LastRTT = (case map_of (ag_lastRTT g) pid of None \<Rightarrow> 0 | Some d \<Rightarrow> d),
      ps_RTTHistory = (case map_of (ag_rttHist g) pid of None \<Rightarrow> [] | Some h \<Rightarrow> h),
      ps_RekeyCount = p_rekeyCount p, ps_SessionAge = SessionAge now p,
      ps_BytesSent = p_bytesTx p, ps_BytesRecv = p_bytesRx p,
      ps_DirectEP = (case DirectEndpoint p of None \<Rightarrow> [] | Some ep \<Rightarrow> UDPAddr_String (Some ep))\<rparr>"

text \<open>\<open>Status\<close>, with no peer list applied while it runs.\<close>

definition Status :: "gotime \<Rightarrow> ('h, 'c) agent \<Rightarrow> status" where
  "Status now g =
     \<lparr>st_Name = ag_Name g, st_PubKey = PublicHex (ag_kp g),
      st_PublicEP = (if ag_pub g \<noteq> None then UDPAddr_String (ag_pub g) else []),
      st_Relay = (if ag_relay g \<noteq> None then UDPAddr_String (ag_relay g) else []),
      st_Coordinator = ag_Coordinator g, st_Registry = \<lparr>cs_Count = 0, cs_Total = 0, cs_Up = 0\<rparr>,
      st_Peers = List.map_filter (\<lambda>pid. map_option (peerStatus now g pid) (map_of (ag_peers g) pid))
        (sort (map fst (ag_peers g)))\<rparr>"

text \<open>
  \<open>QueryCoordinator\<close> up to its wait, which takes what \<open>ag_query\<close> holds: the channel is drained and
  the query is written. \<open>None\<close> without a control connection.
\<close>

definition startQuery :: "('h, 'c) agent \<Rightarrow> (('h, 'c) agent \<times> agent_effect list) option" where
  "startQuery g = (case ag_ctrlConn g of
       None \<Rightarrow> None
     | Some c \<Rightarrow> Some (g\<lparr>ag_query := None\<rparr>,
         [WriteCtrl c (EncodeLine (blank_message\<lparr>m_Type := TypeQuery\<rparr>))]))"

section \<open>The tunnel bridge and the end\<close>

definition attachBridge :: "gostring bridge \<Rightarrow> ('h, 'c) agent \<Rightarrow> ('h, 'c) agent" where
  "attachBridge b g = g\<lparr>ag_bridge := Some (fold (\<lambda>pid. setPeerSink pid (Some pid)) (map fst (ag_peers g)) b)\<rparr>"

text \<open>
  A peer as the sink of the router: \<open>Send\<close> of the peer, the datagrams on the wire added to the
  log; the flag is set when the peer panics.
\<close>

type_synonym ('h, 'c) tunnel_world = "('h, 'c) agent \<times> agent_effect list \<times> bool"

definition sinkSend ::
    "('c, 'k) cipher_api \<Rightarrow> gotime \<Rightarrow> bool \<Rightarrow> gostring \<Rightarrow> bytes \<Rightarrow> ('h, 'c) tunnel_world
     \<Rightarrow> bool \<times> ('h, 'c) tunnel_world" where
  "sinkSend api now ok pid pkt w =
     (case w of (g, out, panicked) \<Rightarrow>
        (case map_of (ag_peers g) pid of
           None \<Rightarrow> (False, w)
         | Some p \<Rightarrow>
             (case SendPeer api now ok pkt p of
                None \<Rightarrow> (False, (g, out, True))
              | Some (e, p, es) \<Rightarrow>
                  (e = None, (g\<lparr>ag_peers := AList.update pid p (ag_peers g)\<rparr>,
                              out @ transmits g es, panicked)))))"

text \<open>Sending through one peer leaves the others as they are.\<close>

definition peer_view :: "gostring \<Rightarrow> ('h, 'c) tunnel_world \<Rightarrow> ('h, 'c) peer option" where
  "peer_view pid w = map_of (ag_peers (fst w)) pid"

interpretation peers: packet_sink "sinkSend api now ok" peer_view for api now ok
  by unfold_locales (auto simp: sinkSend_def peer_view_def split: option.splits prod.splits)

text \<open>\<open>Close\<close>, the body that runs once.\<close>

definition CloseAgent :: "('h, 'c) agent \<Rightarrow> ('h, 'c) agent \<times> agent_effect list" where
  "CloseAgent g =
     (g\<lparr>ag_peerCancel := [], ag_peers := map (\<lambda>(i, p). (i, ClosePeer p)) (ag_peers g)\<rparr>,
      [CloseSocket]
      @ (case ag_ctrlCancel g of None \<Rightarrow> [] | Some k \<Rightarrow> [CancelCtrl k])
      @ (case ag_ctrl g of None \<Rightarrow> [] | Some c \<Rightarrow> [CloseCtrl c])
      @ (if ag_bridge g \<noteq> None then [CloseTun] else [])
      @ map CancelPeer (map fst (ag_peerCancel g)) @ map PeerClosed (map fst (ag_peers g)))"

end
