(* ===== verification/Agent_Safety.thy ===== *)
theory Agent_Safety
  imports Agent Peer_Safety
begin

text \<open>
  What an agent guarantees in every history of peer lists, datagrams, steps of its peers'
  goroutines, payloads and tunnel packets: its table holds exactly the peers of the last list,
  sessions only have announced keys, and the tunnel's routes follow the table.
\<close>

section \<open>Histories\<close>

datatype 'r agent_event =
    AgList "PeerInfo list"
  | AgDatagram UDPAddr bytes 'r gotime
  | AgPeer gostring "'r event"                  \<comment> \<open>a step of that peer's goroutine\<close>
  | AgPayload gostring gotime bool bool         \<comment> \<open>its message loop takes a payload\<close>
  | AgTun bytes gotime bool                     \<comment> \<open>a packet from the device\<close>
  | AgAttach "gostring bridge"

definition put_peer :: "gostring \<Rightarrow> ('h, 'c) peer \<Rightarrow> ('h, 'c) agent \<Rightarrow> ('h, 'c) agent" where
  "put_peer pid p g = g\<lparr>ag_peers := AList.update pid p (ag_peers g)\<rparr>"

definition tunnelPacket ::
    "('c, 'k) cipher_api \<Rightarrow> gotime \<Rightarrow> bool \<Rightarrow> bytes \<Rightarrow> ('h, 'c) agent
     \<Rightarrow> (('h, 'c) agent \<times> agent_effect list) option" where
  "tunnelPacket api now ok pkt g =
     (case ag_bridge g of
        None \<Rightarrow> Some (g, [])
      | Some b \<Rightarrow>
          (case RoutePacket (sinkSend api now ok) pkt (b_router b) (g, [], False) of
             (_, r, g', es, panicked) \<Rightarrow>
               if panicked then None else Some (g'\<lparr>ag_bridge := Some (b\<lparr>b_router := r\<rparr>)\<rparr>, es)))"

fun agent_step ::
    "('h, 'c, 'r) handshake_api \<Rightarrow> ('c, 'k) cipher_api \<Rightarrow> (gostring \<Rightarrow> UDPAddr option)
     \<Rightarrow> (bytes \<Rightarrow> ping_msg option) \<Rightarrow> 'r agent_event \<Rightarrow> ('h, 'c) agent
     \<Rightarrow> (('h, 'c) agent \<times> agent_effect list) option" where
  "agent_step hapi api resolver unmarshal (AgList infos) g = Some (applyPeers resolver infos g)"
| "agent_step hapi api resolver unmarshal (AgDatagram src pkt rnd now) g =
     receiveDatagram hapi api resolver rnd now src pkt g"
| "agent_step hapi api resolver unmarshal (AgPeer pid ev) g =
     (case map_of (ag_peers g) pid of
        None \<Rightarrow> Some (g, [])
      | Some p \<Rightarrow> map_option (\<lambda>(p, es). (put_peer pid p g, transmits g es))
          (peer_step hapi api (ag_relay g) ev p))"
| "agent_step hapi api resolver unmarshal (AgPayload pid now ok tun_ok) g =
     (case map_of (ag_peers g) pid of
        None \<Rightarrow> Some (g, [])
      | Some p \<Rightarrow>
          (case p_recv p of
             [] \<Rightarrow> Some (g, [])
           | m # ms \<Rightarrow> map_option (\<lambda>(g, p, es). (put_peer pid p g, es))
               (handlePeerPayload unmarshal api now ok tun_ok m g (p\<lparr>p_recv := ms\<rparr>))))"
| "agent_step hapi api resolver unmarshal (AgTun pkt now ok) g = tunnelPacket api now ok pkt g"
| "agent_step hapi api resolver unmarshal (AgAttach b) g = Some (attachBridge (b\<lparr>b_router := NewRouter\<rparr>) g, [])"

fun agent_run ::
    "('h, 'c, 'r) handshake_api \<Rightarrow> ('c, 'k) cipher_api \<Rightarrow> (gostring \<Rightarrow> UDPAddr option)
     \<Rightarrow> (bytes \<Rightarrow> ping_msg option) \<Rightarrow> 'r agent_event list \<Rightarrow> ('h, 'c) agent
     \<Rightarrow> (('h, 'c) agent \<times> agent_effect list) option" where
  "agent_run hapi api resolver unmarshal [] g = Some (g, [])"
| "agent_run hapi api resolver unmarshal (ev # evs) g =
     (case agent_step hapi api resolver unmarshal ev g of
        None \<Rightarrow> None
      | Some (g', es) \<Rightarrow>
          map_option (\<lambda>(g'', es'). (g'', es @ es')) (agent_run hapi api resolver unmarshal evs g'))"

section \<open>What a peer list does\<close>

lemma put_peer_fields [simp]:
  "ag_peers (put_peer pid p g) = AList.update pid p (ag_peers g)" "ag_bridge (put_peer pid p g) = ag_bridge g"
  "ag_Name (put_peer pid p g) = ag_Name g" "ag_kp (put_peer pid p g) = ag_kp g"
  "ag_relay (put_peer pid p g) = ag_relay g" "ag_door (put_peer pid p g) = ag_door g"
  by (simp_all add: put_peer_def)

text \<open>The entry that a list element leaves in the table.\<close>

definition entry_after ::
    "(gostring \<Rightarrow> UDPAddr option) \<Rightarrow> gostring \<Rightarrow> Keypair option \<Rightarrow> PeerInfo
     \<Rightarrow> ('h, 'c) peer option \<Rightarrow> ('h, 'c) peer option" where
  "entry_after resolver name kp info old =
     (case old of
        Some p \<Rightarrow> Some (if infoEndpoint resolver info \<noteq> None
                        then SetDirectEP (infoEndpoint resolver info) p else p)
      | None \<Rightarrow> (case ParsePublicKeyHex (pi_PubKey info) of
                   Inl e \<Rightarrow> None
                 | Inr pub \<Rightarrow> Some (newPeer name (pi_ID info) pub (infoEndpoint resolver info) kp)))"

lemma applyInfo_lookup:
  "map_of (ag_peers (fst (applyInfo resolver info g))) i =
     (if pi_ID info = i \<and> i \<noteq> ag_Name g
      then entry_after resolver (ag_Name g) (ag_kp g) info (map_of (ag_peers g) i)
      else map_of (ag_peers g) i)"
  by (auto simp: applyInfo_def entry_after_def Let_def split: option.splits sum.splits)

lemma applyInfo_fields [simp]:
  "ag_Name (fst (applyInfo resolver info g)) = ag_Name g" "ag_kp (fst (applyInfo resolver info g)) = ag_kp g"
  "ag_relay (fst (applyInfo resolver info g)) = ag_relay g" "ag_door (fst (applyInfo resolver info g)) = ag_door g"
  by (auto simp: applyInfo_def Let_def split: option.splits sum.splits)

lemma prunePeer_fields [simp]:
  "ag_Name (fst (prunePeer pid g)) = ag_Name g" "ag_kp (fst (prunePeer pid g)) = ag_kp g"
  "ag_relay (fst (prunePeer pid g)) = ag_relay g" "ag_door (fst (prunePeer pid g)) = ag_door g"
  "ag_peers (fst (prunePeer pid g)) = AList.delete pid (ag_peers g)"
  by (simp_all add: prunePeer_def)

lemma fst_steps_Cons [simp]: "fst (steps f (x # xs) s) = fst (steps f xs (fst (f x s)))"
  by (simp add: Let_def split: prod.splits)

lemma fst_applyPeers:
  "fst (applyPeers resolver infos g) =
     fst (steps prunePeer
       (filter (\<lambda>i. i \<notin> set (filter (\<lambda>i. i \<noteq> ag_Name g) (map pi_ID infos)))
          (map fst (ag_peers (fst (steps (applyInfo resolver) infos g)))))
       (fst (steps (applyInfo resolver) infos g)))"
  by (simp add: applyPeers_def Let_def split: prod.splits)

text \<open>An invariant of both loops is one of the whole.\<close>

lemma steps_invariant:
  "(\<And>x s. x \<in> set xs \<Longrightarrow> P s \<Longrightarrow> P (fst (f x s))) \<Longrightarrow> P s \<Longrightarrow> P (fst (steps f xs s))"
  by (induction xs arbitrary: s) (auto simp del: steps.simps(2))

lemma applyInfos_fields:
  "ag_Name (fst (steps (applyInfo resolver) infos g)) = ag_Name g
   \<and> ag_kp (fst (steps (applyInfo resolver) infos g)) = ag_kp g"
  by (induction infos arbitrary: g) (simp_all del: steps.simps(2))

lemma applyInfos_lookup:
  "distinct (map pi_ID infos) \<Longrightarrow> i \<noteq> ag_Name g \<Longrightarrow>
   map_of (ag_peers (fst (steps (applyInfo resolver) infos g))) i =
     (case find (\<lambda>x. pi_ID x = i) infos of
        None \<Rightarrow> map_of (ag_peers g) i
      | Some info \<Rightarrow> entry_after resolver (ag_Name g) (ag_kp g) info (map_of (ag_peers g) i))"
proof (induction infos arbitrary: g)
  case (Cons x infos)
  have "find (\<lambda>y. pi_ID y = i) infos = None" if "pi_ID x = i"
    using Cons.prems(1) that by (auto simp: find_None_iff) (metis imageI)
  then show ?case
    using Cons by (cases "find (\<lambda>y. pi_ID y = i) infos") (auto simp: applyInfo_lookup simp del: steps.simps(2))
qed simp

lemma prunePeers_lookup:
  "map_of (ag_peers (fst (steps prunePeer pids g))) i =
     (if i \<in> set pids then None else map_of (ag_peers g) i)"
  by (induction pids arbitrary: g) (auto simp del: steps.simps(2))

lemma applyPeers_lookup:
  assumes "distinct (map pi_ID infos)" "i \<noteq> ag_Name g"
  shows "map_of (ag_peers (fst (applyPeers resolver infos g))) i =
     (case find (\<lambda>x. pi_ID x = i) infos of
        None \<Rightarrow> None
      | Some info \<Rightarrow> entry_after resolver (ag_Name g) (ag_kp g) info (map_of (ag_peers g) i))"
proof (cases "find (\<lambda>x. pi_ID x = i) infos")
  case None
  then have "i \<notin> pi_ID ` set infos" by (auto simp: find_None_iff)
  then show ?thesis
    using None by (cases "i \<in> fst ` set (ag_peers (fst (steps (applyInfo resolver) infos g)))")
      (auto simp: fst_applyPeers prunePeers_lookup map_of_eq_None_iff)
next
  case (Some info)
  then have "i \<in> pi_ID ` set infos" by (force simp: find_Some_iff)
  then show ?thesis
    using Some applyInfos_lookup [OF assms, of resolver] assms(2)
    by (auto simp: fst_applyPeers prunePeers_lookup)
qed

section \<open>Routes follow the table\<close>

definition overlay_distinct :: "'s bridge \<Rightarrow> bool" where
  "overlay_distinct b \<longleftrightarrow> (\<forall>p q ip. b_ipByPeer b p = Some ip \<and> b_ipByPeer b q = Some ip \<and> Is4 ip \<longrightarrow> p = q)"

text \<open>
  A route leads to a tracked peer and to its own address; when no two peers share an address
  every tracked peer that has one has its route.
\<close>

definition routes_ok :: "gostring set \<Rightarrow> gostring bridge \<Rightarrow> bool" where
  "routes_ok K b \<longleftrightarrow>
     (\<forall>ip pid. r_routes (b_router b) ip = Some pid \<longrightarrow> pid \<in> K \<and> b_ipByPeer b pid = Some ip \<and> Is4 ip)
     \<and> (overlay_distinct b \<longrightarrow>
         (\<forall>pid\<in>K. \<forall>ip. b_ipByPeer b pid = Some ip \<and> Is4 ip \<longrightarrow> r_routes (b_router b) ip = Some pid))"

lemma setPeerSink_routes:
  "r_routes (b_router (setPeerSink pid s b)) ip =
     (if b_ipByPeer b pid = Some ip \<and> Is4 ip then s else r_routes (b_router b) ip)"
  by (auto simp: setPeerSink_def SetRoute_def split: option.splits)

lemma setPeerSink_fields [simp]:
  "b_ipByPeer (setPeerSink pid s b) = b_ipByPeer b" "overlay_distinct (setPeerSink pid s b) = overlay_distinct b"
  by (simp_all add: setPeerSink_def overlay_distinct_def)

lemma routes_okI:
  "(\<And>ip pid. r_routes (b_router b) ip = Some pid \<Longrightarrow> pid \<in> K \<and> b_ipByPeer b pid = Some ip \<and> Is4 ip) \<Longrightarrow>
   (\<And>pid ip. overlay_distinct b \<Longrightarrow> pid \<in> K \<Longrightarrow> b_ipByPeer b pid = Some ip \<Longrightarrow> Is4 ip \<Longrightarrow>
      r_routes (b_router b) ip = Some pid) \<Longrightarrow> routes_ok K b"
  unfolding routes_ok_def by blast

lemma routes_okD:
  assumes "routes_ok K b"
  shows "r_routes (b_router b) ip = Some pid \<Longrightarrow> pid \<in> K \<and> b_ipByPeer b pid = Some ip \<and> Is4 ip"
    and "overlay_distinct b \<Longrightarrow> pid \<in> K \<Longrightarrow> b_ipByPeer b pid = Some ip \<Longrightarrow> Is4 ip \<Longrightarrow>
      r_routes (b_router b) ip = Some pid"
  using assms unfolding routes_ok_def by blast+

lemma overlay_distinctD:
  "overlay_distinct b \<Longrightarrow> b_ipByPeer b p = Some ip \<Longrightarrow> b_ipByPeer b q = Some ip \<Longrightarrow> Is4 ip \<Longrightarrow> p = q"
  by (auto simp: overlay_distinct_def)

lemma routes_ok_set:
  assumes "routes_ok K b"
  shows "routes_ok (insert pid K) (setPeerSink pid (Some pid) b)"
proof (rule routes_okI)
  fix ip q assume "r_routes (b_router (setPeerSink pid (Some pid) b)) ip = Some q"
  then show "q \<in> insert pid K \<and> b_ipByPeer (setPeerSink pid (Some pid) b) q = Some ip \<and> Is4 ip"
    using routes_okD(1) [OF assms, of ip q] by (auto simp: setPeerSink_routes split: if_splits)
next
  fix q ip assume h: "overlay_distinct (setPeerSink pid (Some pid) b)" "q \<in> insert pid K"
    "b_ipByPeer (setPeerSink pid (Some pid) b) q = Some ip" "Is4 ip"
  then show "r_routes (b_router (setPeerSink pid (Some pid) b)) ip = Some q"
    using routes_okD(2) [OF assms, of q ip] overlay_distinctD [of b pid ip q]
    by (cases "q = pid") (auto simp: setPeerSink_routes)
qed

lemma routes_ok_unset:
  assumes "routes_ok K b"
  shows "routes_ok (K - {pid}) (setPeerSink pid None b)"
proof (rule routes_okI)
  fix ip q assume "r_routes (b_router (setPeerSink pid None b)) ip = Some q"
  then show "q \<in> K - {pid} \<and> b_ipByPeer (setPeerSink pid None b) q = Some ip \<and> Is4 ip"
    using routes_okD(1) [OF assms, of ip q] by (auto simp: setPeerSink_routes split: if_splits)
next
  fix q ip assume h: "overlay_distinct (setPeerSink pid None b)" "q \<in> K - {pid}"
    "b_ipByPeer (setPeerSink pid None b) q = Some ip" "Is4 ip"
  then show "r_routes (b_router (setPeerSink pid None b)) ip = Some q"
    using routes_okD(2) [OF assms, of q ip] overlay_distinctD [of b pid ip q]
    by (auto simp: setPeerSink_routes)
qed

lemma routes_ok_empty: "routes_ok {} (b\<lparr>b_router := NewRouter\<rparr>)"
  by (simp add: routes_ok_def NewRouter_def)

lemma routes_ok_attach:
  "routes_ok K b \<Longrightarrow> routes_ok (set pids \<union> K) (fold (\<lambda>pid. setPeerSink pid (Some pid)) pids b)"
proof (induction pids arbitrary: K b)
  case (Cons pid pids)
  from Cons.IH [OF routes_ok_set [OF Cons.prems, of pid]] show ?case by simp
qed simp

lemma routes_ok_router:
  "r_routes r = r_routes (b_router b) \<Longrightarrow> routes_ok K (b\<lparr>b_router := r\<rparr>) = routes_ok K b"
  by (simp add: routes_ok_def overlay_distinct_def)

section \<open>The invariant\<close>

text \<open>\<open>A\<close> holds the names and keys that peer lists have announced.\<close>

definition tracked_ok ::
    "(gostring \<times> gostring) set \<Rightarrow> gostring \<Rightarrow> Keypair option \<Rightarrow> gostring \<Rightarrow> ('h, 'c) peer \<Rightarrow> bool" where
  "tracked_ok A name kp i p \<longleftrightarrow> i \<noteq> name \<and> p_ID p = i \<and> p_myKp p = kp
     \<and> p_initiator p = RoleIsInitiator name i \<and> (\<exists>T. peer_ok (p_peerStatic p) T p)
     \<and> (\<exists>s. (i, s) \<in> A \<and> ParsePublicKeyHex s = Inr (p_peerStatic p))"

definition agent_ok :: "(gostring \<times> gostring) set \<Rightarrow> ('h, 'c) agent \<Rightarrow> bool" where
  "agent_ok A g \<longleftrightarrow> gm_ok (ag_peers g)
     \<and> (\<forall>i p. map_of (ag_peers g) i = Some p \<longrightarrow> tracked_ok A (ag_Name g) (ag_kp g) i p)
     \<and> (\<forall>b. ag_bridge g = Some b \<longrightarrow> routes_ok (dom (map_of (ag_peers g))) b)"

lemma agent_ok_cong:
  "ag_peers g = ag_peers g' \<Longrightarrow> ag_Name g = ag_Name g' \<Longrightarrow> ag_kp g = ag_kp g' \<Longrightarrow> ag_bridge g = ag_bridge g' \<Longrightarrow>
   agent_ok A g = agent_ok A g'"
  by (simp add: agent_ok_def)

lemma agent_ok_mono: "agent_ok A g \<Longrightarrow> A \<subseteq> B \<Longrightarrow> agent_ok B g"
  unfolding agent_ok_def tracked_ok_def by blast

lemma tracked_new:
  assumes "(i, s) \<in> A" "ParsePublicKeyHex s = Inr pub" "i \<noteq> name"
  shows "tracked_ok A name kp i (newPeer name i pub ep kp)"
proof -
  have "p_peerStatic (newPeer name i pub ep kp) = pub" by (simp add: newPeer_def)
  then show ?thesis
    using assms newPeer_ok [of pub name i ep kp] by (auto simp: tracked_ok_def) (auto simp: newPeer_def)
qed

lemma tracked_step:
  assumes "tracked_ok A name kp i p" "peer_step hapi api relay ev p = Some (q, es)"
  shows "tracked_ok A name kp i q"
proof -
  obtain T where "peer_ok (p_peerStatic p) T p" using assms(1) by (auto simp: tracked_ok_def)
  from peer_step_ok [OF this, of hapi api relay ev] assms(2)
  have "peer_ok (p_peerStatic p) (seen T es) q" by simp
  moreover from this have "p_peerStatic q = p_peerStatic p" by (simp add: peer_ok_def)
  ultimately show ?thesis
    using assms(1) peer_step_ident [OF assms(2)] by (auto simp: tracked_ok_def)
qed

lemma put_peer_ok:
  assumes "agent_ok A g" "map_of (ag_peers g) i = Some p" "tracked_ok A (ag_Name g) (ag_kp g) i q"
  shows "agent_ok A (put_peer i q g)"
proof -
  have "insert i (dom (map_of (ag_peers g))) = dom (map_of (ag_peers g))" using assms(2) by auto
  then show ?thesis using assms by (auto simp: agent_ok_def)
qed

lemma put_peer_step_ok:
  assumes "agent_ok A g" "map_of (ag_peers g) i = Some p" "peer_step hapi api relay ev p = Some (q, es)"
  shows "agent_ok A (put_peer i q g)"
  using put_peer_ok [OF assms(1,2) tracked_step [OF _ assms(3)]] assms(1,2) by (auto simp: agent_ok_def)

lemma applyInfo_ok:
  assumes "agent_ok A g" "(pi_ID info, pi_PubKey info) \<in> A"
  shows "agent_ok A (fst (applyInfo resolver info g))"
proof (cases "pi_ID info = ag_Name g")
  case False
  show ?thesis
  proof (cases "map_of (ag_peers g) (pi_ID info)")
    case (Some p)
    let ?ep = "infoEndpoint resolver info"
    have "peer_step hapi api relay (EvSetDirectEP ?ep) p = Some (SetDirectEP ?ep p, [])" for hapi api relay by simp
    from put_peer_step_ok [OF assms(1) Some this] show ?thesis
      using assms(1) False Some by (simp add: applyInfo_def Let_def put_peer_def)
  next
    case None
    show ?thesis
    proof (cases "ParsePublicKeyHex (pi_PubKey info)")
      case (Inr pub)
      have "dom ((map_of (ag_peers g))(pi_ID info \<mapsto> x)) = insert (pi_ID info) (dom (map_of (ag_peers g)))" for x
        by simp
      then show ?thesis
        using assms(1) False None Inr tracked_new [OF assms(2) Inr False] routes_ok_set
        by (auto simp: applyInfo_def agent_ok_def simp del: dom_fun_upd)
    qed (use assms(1) False None in \<open>simp add: applyInfo_def\<close>)
  qed
qed (use assms(1) in \<open>simp add: applyInfo_def\<close>)

lemma prunePeer_ok: "agent_ok A g \<Longrightarrow> agent_ok A (fst (prunePeer pid g))"
  using routes_ok_unset [where pid = pid] by (auto simp: agent_ok_def prunePeer_def)

lemma applyPeers_ok:
  assumes "agent_ok A g" "(\<lambda>x. (pi_ID x, pi_PubKey x)) ` set infos \<subseteq> A"
  shows "agent_ok A (fst (applyPeers resolver infos g))"
  unfolding fst_applyPeers
  by (intro steps_invariant [where P = "agent_ok A"] prunePeer_ok applyInfo_ok assms(1))
    (use assms(2) in auto)

lemma receiveDatagram_cases:
  assumes "receiveDatagram hapi api resolver rnd now src pkt g = Some (g', es)"
  obtains (dropped) "g' = g" "es = []"
  | (handled) ext frame pid payload p p' fs where
      "openEnvelope resolver g src pkt = Some (ext, frame)" "matchPeer g ext frame = Some (pid, payload)"
      "map_of (ag_peers g) pid = Some p"
      "HandleFrame hapi api (ag_relay g) rnd now (Some ext) payload p = Some (p', fs)"
      "g' = put_peer pid p' g" "es = transmits g fs"
proof (cases "openEnvelope resolver g src pkt")
  case (Some x)
  obtain ext frame where x: "x = (ext, frame)" by (cases x)
  show ?thesis
  proof (cases "matchPeer g ext frame")
    case m: (Some y)
    obtain pid payload where y: "y = (pid, payload)" by (cases y)
    show ?thesis
    proof (cases "map_of (ag_peers g) pid")
      case p: (Some p)
      obtain p' fs where "HandleFrame hapi api (ag_relay g) rnd now (Some ext) payload p = Some (p', fs)"
        "g' = put_peer pid p' g" "es = transmits g fs"
        using assms Some x m y p by (auto simp: receiveDatagram_def put_peer_def split: option.splits)
      then show ?thesis using handled Some x m y p by blast
    qed (use assms Some x m y dropped in \<open>simp add: receiveDatagram_def\<close>)
  qed (use assms Some x dropped in \<open>simp add: receiveDatagram_def\<close>)
qed (use assms dropped in \<open>simp add: receiveDatagram_def\<close>)

lemma receiveDatagram_ok:
  assumes "agent_ok A g" "receiveDatagram hapi api resolver rnd now src pkt g = Some (g', es)"
  shows "agent_ok A g'"
  using assms(2)
proof (cases rule: receiveDatagram_cases)
  case (handled ext frame pid payload p p' fs)
  have "peer_step hapi api (ag_relay g) (EvFrame (Some ext) payload rnd now) p = Some (p', fs)"
    using handled(4) by simp
  from put_peer_step_ok [OF assms(1) handled(3) this] show ?thesis by (simp add: handled(5))
qed (use assms(1) in simp)

lemma find_sound: "find P xs = Some x \<Longrightarrow> x \<in> set xs \<and> P x"
  by (induction xs) (auto split: if_splits)

lemma matchPeer_sound:
  assumes "matchPeer g ext frame = Some (pid, payload)"
  shows "if ag_relay g \<noteq> None \<and> UDPAddr_String (Some ext) = UDPAddr_String (ag_relay g)
     then \<exists>dst payload. ParsePacket frame = Inr (pid, dst, payload)
     else \<exists>q. (pid, q) \<in> set (ag_peers g) \<and> DirectEndpoint q \<noteq> None
            \<and> UDPAddr_String (Some ext) = UDPAddr_String (DirectEndpoint q)"
proof (cases "ag_relay g \<noteq> None \<and> UDPAddr_String (Some ext) = UDPAddr_String (ag_relay g)")
  case True
  then show ?thesis
    using assms unfolding matchPeer_def if_P [OF True]
    by (cases "ParsePacket frame") (auto split: if_splits)
next
  case False
  then show ?thesis
    using assms unfolding matchPeer_def if_not_P [OF False] by (auto dest!: find_sound split: option.splits)
qed

text \<open>What a payload does to the agent besides its effects, and to its peer.\<close>

lemma SendPeer_step:
  "SendPeer api now ok b p = Some (e, q, es) \<Longrightarrow>
   peer_step hapi api relay (EvSend b now ok) p = Some (q, es)"
  by simp

lemma dispatchPing_cases:
  assumes "dispatchPing api now ok m g p = Some (g', q, es)"
  shows "ag_peers g' = ag_peers g \<and> ag_Name g' = ag_Name g \<and> ag_kp g' = ag_kp g \<and> ag_bridge g' = ag_bridge g
    \<and> (q = p \<or> (\<exists>b e fs. SendPeer api now ok b p = Some (e, q, fs)))"
  using assms by (auto simp: dispatchPing_def SendJSON_def split: if_splits option.splits)

lemma handlePeerPayload_cases:
  assumes "handlePeerPayload unmarshal api now ok tun_ok m g p = Some (g', q, es)"
  shows "ag_peers g' = ag_peers g \<and> ag_Name g' = ag_Name g \<and> ag_kp g' = ag_kp g \<and> ag_bridge g' = ag_bridge g
    \<and> (q = p \<or> (\<exists>b e fs. SendPeer api now ok b p = Some (e, q, fs)))"
  using assms
  by (auto simp: handlePeerPayload_def dest: dispatchPing_cases split: if_splits option.splits)

lemma payload_ok:
  assumes "agent_ok A g" "map_of (ag_peers g) i = Some p" "p_recv p = m # ms"
    and "handlePeerPayload unmarshal api now ok tun_ok m g (p\<lparr>p_recv := ms\<rparr>) = Some (g', q, es)"
  shows "agent_ok A (put_peer i q g')"
proof -
  note c = handlePeerPayload_cases [OF assms(4)]
  have t: "tracked_ok A (ag_Name g) (ag_kp g) i p" using assms(1,2) by (simp add: agent_ok_def)
  have "tracked_ok A (ag_Name g) (ag_kp g) i (p\<lparr>p_recv := ms\<rparr>)"
    by (rule tracked_step [OF t, where ev = EvReceive and es = "[]"]) (simp add: assms(3))
  then have "tracked_ok A (ag_Name g) (ag_kp g) i q"
    using c tracked_step SendPeer_step by metis
  from put_peer_ok [OF assms(1,2) this] show ?thesis
    using c agent_ok_cong [of "put_peer i q g'" "put_peer i q g" A] by simp
qed

lemma sinkSend_ok:
  assumes "agent_ok A g" "sinkSend api now ok pid pkt (g, out, k) = (r, g', out', k')"
  shows "agent_ok A g' \<and> ag_bridge g' = ag_bridge g \<and> dom (map_of (ag_peers g')) = dom (map_of (ag_peers g))"
proof (cases "map_of (ag_peers g) pid")
  case (Some p)
  show ?thesis
  proof (cases "SendPeer api now ok pkt p")
    case (Some x)
    obtain e q es where x: "x = (e, q, es)" by (cases x)
    have "g' = put_peer pid q g" using assms(2) \<open>map_of (ag_peers g) pid = Some p\<close> Some x
      by (simp add: sinkSend_def put_peer_def)
    then show ?thesis
      using put_peer_step_ok [OF assms(1) \<open>map_of (ag_peers g) pid = Some p\<close> SendPeer_step [OF Some [unfolded x]]]
        \<open>map_of (ag_peers g) pid = Some p\<close> by auto
  qed (use assms Some in \<open>simp add: sinkSend_def\<close>)
qed (use assms in \<open>simp add: sinkSend_def\<close>)

lemma tunnelPacket_ok:
  assumes "agent_ok A g" "tunnelPacket api now ok pkt g = Some (g', es)"
  shows "agent_ok A g'"
proof (cases "ag_bridge g")
  case (Some b)
  obtain k r w where R: "RoutePacket (sinkSend api now ok) pkt (b_router b) (g, [], False) = (k, r, w)"
    by (cases "RoutePacket (sinkSend api now ok) pkt (b_router b) (g, [], False)")
  obtain h es' panicked where w: "w = (h, es', panicked)" by (cases w)
  have h: "agent_ok A h" "ag_bridge h = ag_bridge g" "dom (map_of (ag_peers h)) = dom (map_of (ag_peers g))"
  proof -
    have "w = (case owner (b_router b) pkt of None \<Rightarrow> (g, [], False)
        | Some s \<Rightarrow> snd (sinkSend api now ok s pkt (g, [], False)))"
      using RoutePacket_world [of "sinkSend api now ok" pkt "b_router b" "(g, [], False)"] by (simp add: R)
    moreover have "agent_ok A h \<and> ag_bridge h = ag_bridge g \<and> dom (map_of (ag_peers h)) = dom (map_of (ag_peers g))"
      if "w = snd (sinkSend api now ok s pkt (g, [], False))" for s
    proof -
      have "sinkSend api now ok s pkt (g, [], False)
          = (fst (sinkSend api now ok s pkt (g, [], False)), h, es', panicked)"
        using that w by (simp add: prod_eq_iff)
      from sinkSend_ok [OF assms(1) this] show ?thesis .
    qed
    ultimately show "agent_ok A h" "ag_bridge h = ag_bridge g" "dom (map_of (ag_peers h)) = dom (map_of (ag_peers g))"
      using assms(1) w by (auto split: option.splits)
  qed
  have "routes_ok (dom (map_of (ag_peers h))) (b\<lparr>b_router := r\<rparr>)"
    using h assms(1) Some RoutePacket_routes [of "sinkSend api now ok" pkt "b_router b" "(g, [], False)"]
    by (subst routes_ok_router) (auto simp: agent_ok_def R)
  then show ?thesis
    using assms(2) Some R w h(1) by (auto simp: tunnelPacket_def agent_ok_def split: if_splits)
qed (use assms in \<open>simp add: tunnelPacket_def\<close>)

lemma attachBridge_ok: "agent_ok A g \<Longrightarrow> agent_ok A (attachBridge (b\<lparr>b_router := NewRouter\<rparr>) g)"
  using routes_ok_attach [OF routes_ok_empty, of "map fst (ag_peers g)" b]
  by (auto simp: agent_ok_def attachBridge_def dom_map_of_conv_image_fst)

definition announced :: "'r agent_event list \<Rightarrow> (gostring \<times> gostring) set" where
  "announced evs = {(pi_ID x, pi_PubKey x) | x infos. AgList infos \<in> set evs \<and> x \<in> set infos}"

lemma agent_step_ok:
  assumes "agent_ok A g" "agent_step hapi api resolver unmarshal ev g = Some (g', es)" "announced [ev] \<subseteq> A"
  shows "agent_ok A g'"
proof (cases ev)
  case (AgList infos)
  have "(\<lambda>x. (pi_ID x, pi_PubKey x)) ` set infos \<subseteq> A" using assms(3) AgList by (auto simp: announced_def)
  from applyPeers_ok [OF assms(1) this, of resolver] show ?thesis using assms(2) AgList by auto
next
  case (AgDatagram src pkt rnd now)
  then show ?thesis using assms(1,2) receiveDatagram_ok by simp
next
  case (AgPeer pid e)
  then show ?thesis using assms(1,2) put_peer_step_ok by (fastforce split: option.splits)
next
  case (AgPayload pid now ok tun_ok)
  then show ?thesis using assms(1,2) payload_ok by (fastforce split: option.splits list.splits)
next
  case (AgTun pkt now ok)
  then show ?thesis using assms(1,2) tunnelPacket_ok by simp
next
  case (AgAttach b)
  then show ?thesis using assms(1,2) attachBridge_ok by auto
qed

lemma announced_Cons: "announced (ev # evs) = announced [ev] \<union> announced evs"
  by (auto simp: announced_def)

lemma agent_run_ok:
  "agent_run hapi api resolver unmarshal evs g = Some (g', es) \<Longrightarrow> agent_ok A g \<Longrightarrow>
   announced evs \<subseteq> A \<Longrightarrow> agent_ok A g'"
proof (induction evs arbitrary: g es)
  case (Cons ev evs)
  obtain g1 e1 e2 where st: "agent_step hapi api resolver unmarshal ev g = Some (g1, e1)"
    "agent_run hapi api resolver unmarshal evs g1 = Some (g', e2)"
    using Cons.prems(1) by (auto split: option.splits)
  show ?case
    using Cons.IH [OF st(2)] agent_step_ok [OF Cons.prems(2) st(1)] Cons.prems(3)
    by (simp add: announced_Cons [of ev evs])
qed simp

lemma newAgent_ok: "newAgent resolver name coordinator door rel keys bound = Inr g \<Longrightarrow> agent_ok {} g"
  by (auto simp: newAgent_def agent_ok_def split: sum.splits if_splits)

section \<open>Round-trip times\<close>

definition recordRTTs :: "gostring \<Rightarrow> duration list \<Rightarrow> ('h, 'c) agent \<Rightarrow> ('h, 'c) agent" where
  "recordRTTs pid ds g = fold (recordRTT pid) ds g"

lemma recordRTT_lookup:
  "map_of (ag_rttHist (recordRTT pid d g)) i =
     (if i = pid then Some (take 5 (d # (case map_of (ag_rttHist g) pid of None \<Rightarrow> [] | Some h \<Rightarrow> h)))
      else map_of (ag_rttHist g) i)"
  "map_of (ag_lastRTT (recordRTT pid d g)) i = (if i = pid then Some d else map_of (ag_lastRTT g) i)"
  by (simp_all add: recordRTT_def Let_def rttHistoryDepth_def)

lemma take_Cons_take: "take (Suc n) (x # take n xs) = take (Suc n) (x # xs)"
  by simp

section \<open>Properties\<close>


text \<open>C15: Sessions only with announced keys. In every history of an agent, from its creation on and
  whatever the network, its peers and the tunnel do, every peer it tracks is another agent,
  has the role that the order of the two names gives, was announced by some peer list with a
  public key, and has no session but with exactly that static key.\<close>

theorem agent_sessions_match_announced_keys:
  assumes "newAgent resolver name coordinator door rel keys bound = Inr g"
    and "agent_run hapi api resolver unmarshal evs g = Some (g', es)"
    and "map_of (ag_peers g') i = Some p"
  shows "i \<noteq> ag_Name g' \<and> p_initiator p = RoleIsInitiator (ag_Name g') i
     \<and> (\<exists>s key. (i, s) \<in> announced evs \<and> ParsePublicKeyHex s = Inr key
          \<and> RemoteStatic p \<in> {None, Some key} \<and> (p_established p \<longrightarrow> RemoteStatic p = Some key))"
proof -
  have "agent_ok (announced evs) g" using newAgent_ok [OF assms(1)] agent_ok_mono by blast
  from agent_run_ok [OF assms(2) this] assms(3)
  have t: "tracked_ok (announced evs) (ag_Name g') (ag_kp g') i p" by (simp add: agent_ok_def)
  then obtain s T where s: "(i, s) \<in> announced evs" "ParsePublicKeyHex s = Inr (p_peerStatic p)"
    "peer_ok (p_peerStatic p) T p" by (auto simp: tracked_ok_def)
  from s(3) have "RemoteStatic p \<in> {None, Some (p_peerStatic p)}
      \<and> (p_established p \<longrightarrow> RemoteStatic p = Some (p_peerStatic p))"
    by (auto simp: peer_ok_def RemoteStatic_def split: option.splits)
  with s t show ?thesis unfolding tracked_ok_def by blast
qed

text \<open>C27: The tunnel's routes follow the peer table. In every history of an agent, when no two peers
  share an overlay address, a route for an IPv4 address exists exactly when its owner is
  tracked, and leads to that owner: peers that left have no route and no tracked peer misses
  its own.\<close>

theorem tunnel_routes_follow_table:
  assumes "newAgent resolver name coordinator door rel keys bound = Inr g"
    and "agent_run hapi api resolver unmarshal evs g = Some (g', es)"
    and "ag_bridge g' = Some b" "overlay_distinct b" "Is4 ip"
  shows "r_routes (b_router b) ip = Some pid \<longleftrightarrow>
     map_of (ag_peers g') pid \<noteq> None \<and> b_ipByPeer b pid = Some ip"
proof -
  have "agent_ok (announced evs) g" using newAgent_ok [OF assms(1)] agent_ok_mono by blast
  from agent_run_ok [OF assms(2) this] assms(3)
  have r: "routes_ok (dom (map_of (ag_peers g'))) b" by (simp add: agent_ok_def)
  show ?thesis
    using routes_okD(1) [OF r, of ip pid] routes_okD(2) [OF r assms(4), of pid ip] assms(5) by blast
qed

text \<open>A datagram concerns one peer. Whatever a datagram contains, it changes no peer but one: from
  the relay's address the peer whose name the relay header gives as the sender, from any other
  address a peer whose direct endpoint is the datagram's source, behind a NAT box the source
  the box reports. Names, keys and the routes stay.\<close>

theorem datagram_concerns_one_peer:
  assumes "receiveDatagram hapi api resolver rnd now src pkt g = Some (g', es)"
    and "map_of (ag_peers g') j \<noteq> map_of (ag_peers g) j"
  shows "g' = g\<lparr>ag_peers := ag_peers g'\<rparr> \<and>
     (\<exists>ext frame p. openEnvelope resolver g src pkt = Some (ext, frame) \<and> map_of (ag_peers g) j = Some p
       \<and> (\<forall>k. k \<noteq> j \<longrightarrow> map_of (ag_peers g') k = map_of (ag_peers g) k)
       \<and> (if ag_relay g \<noteq> None \<and> UDPAddr_String (Some ext) = UDPAddr_String (ag_relay g)
          then \<exists>dst payload. ParsePacket frame = Inr (j, dst, payload)
          else \<exists>q. (j, q) \<in> set (ag_peers g) \<and> DirectEndpoint q \<noteq> None
                 \<and> UDPAddr_String (Some ext) = UDPAddr_String (DirectEndpoint q)))"
  using assms(1)
proof (cases rule: receiveDatagram_cases)
  case (handled ext frame pid payload p p' fs)
  have j: "pid = j" using assms(2) handled(5) by (auto split: if_splits)
  have m: "if ag_relay g \<noteq> None \<and> UDPAddr_String (Some ext) = UDPAddr_String (ag_relay g)
          then \<exists>dst payload. ParsePacket frame = Inr (j, dst, payload)
          else \<exists>q. (j, q) \<in> set (ag_peers g) \<and> DirectEndpoint q \<noteq> None
                 \<and> UDPAddr_String (Some ext) = UDPAddr_String (DirectEndpoint q)"
    using matchPeer_sound [OF handled(2)] by (simp only: j)
  show ?thesis using handled(1,3,5) j m by (auto simp: put_peer_def)
qed (use assms(2) in simp)

text \<open>The demultiplexer trusts the endpoints that peers announce. When a peer \<open>m\<close> has announced
  the endpoint of a peer \<open>v\<close> and the loop over the table meets it first, every datagram from
  that address goes to \<open>m\<close>: \<open>v\<close>'s session sees none of them, although they are genuine.\<close>

theorem endpoint_squatter_takes_frames:
  assumes "ag_peers g = (m, pm) # rest" "map_of rest v = Some pv" "m \<noteq> v"
    and "DirectEndpoint pm \<noteq> None" "UDPAddr_String (DirectEndpoint pm) = UDPAddr_String (DirectEndpoint pv)"
    and "openEnvelope resolver g src pkt = Some (ext, frame)"
    and "UDPAddr_String (Some ext) = UDPAddr_String (DirectEndpoint pv)"
    and "UDPAddr_String (Some ext) \<noteq> UDPAddr_String (ag_relay g)"
    and "receiveDatagram hapi api resolver rnd now src pkt g = Some (g', es)"
  shows "map_of (ag_peers g') v = Some pv"
proof -
  have mp: "matchPeer g ext frame = Some (m, frame)" using assms(1,4,5,7,8) by (simp add: matchPeer_def)
  show ?thesis
    using assms(9)
  proof (cases rule: receiveDatagram_cases)
    case dropped
    then show ?thesis using assms(1-3) by simp
  next
    case (handled ext' frame' pid payload p p' fs)
    then have "pid = m" using assms(6) mp by simp
    then show ?thesis using handled(5) assms(1-3) by simp
  qed
qed

text \<open>C36: The history of round-trip times is what a full log would show: after any measurements the
  stored history of a peer is the last five, newest first, the last value is the newest, and
  no other peer's times change.\<close>

theorem rtt_history_is_last_five:
  assumes "map_of (ag_rttHist g) pid = None"
  shows "(case map_of (ag_rttHist (recordRTTs pid ds g)) pid of None \<Rightarrow> [] | Some h \<Rightarrow> h) = take 5 (rev ds)
     \<and> (map_of (ag_lastRTT (recordRTTs pid ds g)) pid
          = (if ds = [] then map_of (ag_lastRTT g) pid else Some (last ds)))
     \<and> (\<forall>q. q \<noteq> pid \<longrightarrow> map_of (ag_rttHist (recordRTTs pid ds g)) q = map_of (ag_rttHist g) q
          \<and> map_of (ag_lastRTT (recordRTTs pid ds g)) q = map_of (ag_lastRTT g) q)"
  using assms
proof (induction ds rule: rev_induct)
  case (snoc d ds)
  have R: "recordRTTs pid (ds @ [d]) g = recordRTT pid d (recordRTTs pid ds g)" by (simp add: recordRTTs_def)
  have "take 5 (d # take 5 (rev ds)) = take 5 (d # rev ds)" by (simp add: numeral_eq_Suc)
  then show ?case using snoc by (auto simp: R recordRTT_lookup)
qed (simp add: recordRTTs_def)

text \<open>A packet from the tunnel goes to the peer that owns its destination and to no other. Every
  other peer is untouched; a packet that is not well-formed IPv4 or has no route sends
  nothing; a routed one sends exactly what the owner's session makes of it.\<close>

theorem tunnel_packet_goes_to_owner:
  assumes "ag_bridge g = Some b" "tunnelPacket api now ok pkt g = Some (g', es)"
  shows "(\<forall>j. owner (b_router b) pkt \<noteq> Some j \<longrightarrow> map_of (ag_peers g') j = map_of (ag_peers g) j)
     \<and> (case owner (b_router b) pkt of
          None \<Rightarrow> es = []
        | Some pid \<Rightarrow> \<forall>p. map_of (ag_peers g) pid = Some p \<longrightarrow>
            (\<exists>e q fs. SendPeer api now ok pkt p = Some (e, q, fs)
               \<and> map_of (ag_peers g') pid = Some q \<and> es = transmits g fs))"
proof -
  let ?send = "sinkSend api now ok"
  obtain k r w where R: "RoutePacket ?send pkt (b_router b) (g, [], False) = (k, r, w)"
    by (cases "RoutePacket ?send pkt (b_router b) (g, [], False)")
  obtain h es' panicked where w: "w = (h, es', panicked)" by (cases w)
  have g': "ag_peers g' = ag_peers h" "es = es'" "\<not> panicked"
    using assms R w by (auto simp: tunnelPacket_def split: if_splits)
  have world: "w = (case owner (b_router b) pkt of None \<Rightarrow> (g, [], False)
        | Some s \<Rightarrow> snd (?send s pkt (g, [], False)))"
    using RoutePacket_world [of ?send pkt "b_router b" "(g, [], False)"] by (simp add: R)
  have other: "map_of (ag_peers g') j = map_of (ag_peers g) j" if "owner (b_router b) pkt \<noteq> Some j" for j
    using peers.route_local [OF that, of api now ok "(g, [], False)"] by (simp add: R w peer_view_def g')
  show ?thesis
  proof (cases "owner (b_router b) pkt")
    case None
    then show ?thesis using world w g' other by simp
  next
    case (Some pid)
    have "\<exists>e q fs. SendPeer api now ok pkt p = Some (e, q, fs)
        \<and> map_of (ag_peers g') pid = Some q \<and> es = transmits g fs"
      if p: "map_of (ag_peers g) pid = Some p" for p
    proof (cases "SendPeer api now ok pkt p")
      case None
      then show ?thesis using world Some w g' p by (simp add: sinkSend_def)
    next
      case (Some x)
      obtain e q fs where x: "x = (e, q, fs)" by (cases x)
      then show ?thesis using world \<open>owner (b_router b) pkt = Some pid\<close> w g' p Some by (simp add: sinkSend_def)
    qed
    then show ?thesis using Some other by simp
  qed
qed

text \<open>The overlay addresses do not bind the peers that use them. Whichever peer an IPv4 packet
  comes from, it is written to the tunnel device as it is, also when its source is the overlay
  address of another peer: only the size is checked.\<close>

theorem overlay_source_unchecked:
  assumes "ag_bridge g = Some b" "b_ipByPeer b v = Some src" "v \<noteq> p_ID p"
    and "parseIPv4 payload = Some (src, dst)" "int (length payload) \<le> b_mtu b"
  shows "handlePeerPayload unmarshal api now ok True payload g p = Some (g, p, [WriteTun payload])"
proof -
  have "payload \<noteq> [] \<and> drop_bit 4 (payload ! 0) = 4"
    using assms(4) by (auto simp: parseIPv4_def split: if_splits)
  then have ne: "payload \<noteq> []" "drop_bit 4 (hd payload) = 4" by (simp_all add: hd_conv_nth)
  have "hd payload \<noteq> 123"
  proof
    assume "hd payload = 123"
    then have "drop_bit 4 (123 :: byte) = 4" using ne(2) by simp
    then show False by simp
  qed
  then show ?thesis using assms(1,5) ne(1) by (simp add: handlePeerPayload_def inbound_def)
qed

section \<open>Witnesses\<close>

text \<open>The agent named by one byte, a list that announces agent 2, and the session of agent 1 with it.\<close>

definition demo_agent :: "byte \<Rightarrow> (demo_hs, nat \<times> u64) agent" where
  "demo_agent n = \<lparr>ag_Name = [n], ag_Coordinator = [], ag_kp = Some (demo_keypair n), ag_door = None, ag_relay = None,
     ag_pub = None, ag_ctrl = None, ag_ctrlConn = None, ag_ctrlCancel = None, ag_peers = [],
     ag_peerCancel = [], ag_bridge = None, ag_pingOut = [], ag_lastRTT = [], ag_rttHist = [],
     ag_query = None\<rparr>"

definition demo_info :: PeerInfo where
  "demo_info = \<lparr>pi_ID = [2], pi_PubKey = hex_encode (replicate 32 2), pi_Endpoints = Some [[1]]\<rparr>"

definition demo_bridge :: "gostring bridge" where
  "demo_bridge = \<lparr>b_mtu = 1500, b_router = NewRouter,
     b_ipByPeer = (\<lambda>_. None)([2] := Some (V4 [10, 0, 0, 2]), [3] := Some (V4 [10, 0, 0, 3]))\<rparr>"

abbreviation demo_resolver :: "gostring \<Rightarrow> UDPAddr option" where "demo_resolver \<equiv> \<lambda>_. Some demo_ep"

lemma demo_agent_new: "newAgent resolver [n] [] [] [] (Inr (demo_keypair n)) True = Inr (demo_agent n)"
  by (simp add: newAgent_def demo_agent_def)

lemma demo_info_fields [simp]: "pi_ID demo_info = [2]" "infoEndpoint demo_resolver demo_info = Some demo_ep"
  "ParsePublicKeyHex (pi_PubKey demo_info) = Inr (replicate 32 2)"
  by (simp_all add: demo_info_def infoEndpoint_def endpoints_of_def ResolveUDPAddr_def parse_ip4_def
      ParsePublicKeyHex_def hex_roundtrip KeySize_def)

lemma demo_agent_fields [simp]: "ag_Name (demo_agent n) = [n]" "ag_kp (demo_agent n) = Some (demo_keypair n)"
  "ag_peers (demo_agent n) = []" "ag_relay (demo_agent n) = None" "ag_door (demo_agent n) = None"
  "ag_bridge (demo_agent n) = None" "ag_rttHist (demo_agent n) = []"
  by (simp_all add: demo_agent_def)

lemma agent_peer_run:
  "map_of (ag_peers g) i = Some p \<Longrightarrow> peer_run hapi api (ag_relay g) evs p = Some (q, es) \<Longrightarrow>
   \<exists>g' es'. agent_run hapi api resolver unmarshal (map (AgPeer i) evs) g = Some (g', es')
     \<and> map_of (ag_peers g') i = Some q \<and> ag_Name g' = ag_Name g"
proof (induction evs arbitrary: g p es)
  case (Cons ev evs)
  obtain p1 e1 e2 where st: "peer_step hapi api (ag_relay g) ev p = Some (p1, e1)"
    "peer_run hapi api (ag_relay g) evs p1 = Some (q, e2)"
    using Cons.prems(2) by (auto split: option.splits)
  then show ?case using Cons.IH [of "put_peer i p1 g" p1 e2] Cons.prems(1) by fastforce
qed auto


theorem agent_sessions_match_announced_keys_witness:
  "\<exists>evs g' es p. agent_run demo_hapi demo_api demo_resolver (\<lambda>_. None) evs (demo_agent 1) = Some (g', es)
     \<and> map_of (ag_peers g') [2] = Some p \<and> p_established p \<and> p_initiator p = RoleIsInitiator (ag_Name g') [2]"
proof -
  let ?g = "fst (applyPeers demo_resolver [demo_info] (demo_agent 1))"
  have p: "map_of (ag_peers ?g) [2] = Some demo_peer" "ag_relay ?g = None"
    using applyPeers_lookup [of "[demo_info]" "[2]" "demo_agent 1" demo_resolver]
    by (simp_all add: entry_after_def fst_applyPeers applyInfo_def Let_def)
  obtain g' es' where r: "agent_run demo_hapi demo_api demo_resolver (\<lambda>_. None) (map (AgPeer [2]) demo_events) ?g
      = Some (g', es')" "map_of (ag_peers g') [2] = Some demo_p4"
    using agent_peer_run [OF p(1), of demo_hapi demo_api demo_events demo_p4] demo_peer_run p(2) by fastforce
  obtain es where run: "agent_run demo_hapi demo_api demo_resolver (\<lambda>_. None)
      (AgList [demo_info] # map (AgPeer [2]) demo_events) (demo_agent 1) = Some (g', es)"
    using r(1) by (cases "applyPeers demo_resolver [demo_info] (demo_agent 1)") simp
  show ?thesis
  proof (intro exI conjI)
    show "p_established demo_p4" by (simp add: demo_p4_def demo_p3_def)
    show "p_initiator demo_p4 = RoleIsInitiator (ag_Name g') [2]"
      using agent_sessions_match_announced_keys [OF demo_agent_new run r(2)] by blast
  qed (fact run r(2))+
qed

theorem tunnel_routes_follow_table_witness:
  "\<exists>g' es b. agent_run demo_hapi demo_api demo_resolver (\<lambda>_. None)
       [AgAttach demo_bridge, AgList [demo_info]] (demo_agent 1) = Some (g', es)
     \<and> ag_bridge g' = Some b \<and> r_routes (b_router b) (V4 [10, 0, 0, 2]) = Some [2]"
proof -
  let ?evs = "[AgAttach demo_bridge, AgList [demo_info]] :: unit agent_event list"
  obtain g' es b where r: "agent_run demo_hapi demo_api demo_resolver (\<lambda>_. None) ?evs (demo_agent 1) = Some (g', es)"
    "ag_bridge g' = Some b" "b_ipByPeer b = b_ipByPeer demo_bridge" "map_of (ag_peers g') [2] \<noteq> None"
    by (simp add: attachBridge_def applyPeers_def applyInfo_def Let_def)
  have "overlay_distinct b" by (auto simp: overlay_distinct_def r(3) demo_bridge_def split: if_splits)
  then have "r_routes (b_router b) (V4 [10, 0, 0, 2]) = Some [2]"
    using tunnel_routes_follow_table [OF demo_agent_new r(1,2), of "V4 [10, 0, 0, 2]" "[2]"] r(3,4)
    by (simp add: demo_bridge_def)
  then show ?thesis using r(1,2) by blast
qed

text \<open>Agent 1 waiting for message 2 from peer 2, and then in touch with it; peer 3 shares its endpoint.\<close>

definition demo_waiter :: "(demo_hs, nat \<times> u64) agent" where
  "demo_waiter = (demo_agent 1)\<lparr>ag_peers := [([2], demo_p2)]\<rparr>"

theorem datagram_concerns_one_peer_witness:
  "\<exists>g' es. receiveDatagram demo_hapi demo_api demo_resolver () 2100000000 demo_ep
       (the (Frame TypeHS2 (replicate 32 2))) demo_waiter = Some (g', es)
     \<and> map_of (ag_peers g') [2] = Some demo_p3 \<and> g' = demo_waiter\<lparr>ag_peers := ag_peers g'\<rparr>"
proof -
  let ?f = "the (Frame TypeHS2 (replicate 32 2))"
  have h: "HandleFrame demo_hapi demo_api None () 2100000000 (Some demo_ep) ?f demo_p2
      = Some (demo_p3, [Installed, SendDirect demo_ep (the (Frame TypeHS3 (replicate 32 1)))])"
    using demo_step3 by simp
  have m: "matchPeer demo_waiter demo_ep ?f = Some ([2], ?f)"
    by (simp add: matchPeer_def demo_waiter_def DirectEndpoint_def demo_p2_def demo_p1_def newPeer_def)
  then obtain g' es where r: "receiveDatagram demo_hapi demo_api demo_resolver () 2100000000 demo_ep ?f demo_waiter
      = Some (g', es)" "map_of (ag_peers g') [2] = Some demo_p3"
    using h by (simp add: receiveDatagram_def openEnvelope_def demo_waiter_def)
  have "map_of (ag_peers g') [2] \<noteq> map_of (ag_peers demo_waiter) [2]"
    using r(2) by (simp add: demo_waiter_def demo_p3_def demo_p2_def demo_p1_def newPeer_def)
  from datagram_concerns_one_peer [OF r(1) this] r show ?thesis by blast
qed

theorem endpoint_squatter_takes_frames_witness:
  "\<exists>g' es. receiveDatagram demo_hapi demo_api demo_resolver () 5 demo_ep []
       ((demo_agent 1)\<lparr>ag_peers := [([3], demo_p2), ([2], demo_p3)]\<rparr>) = Some (g', es)
     \<and> map_of (ag_peers g') [2] = Some demo_p3"
proof -
  let ?g = "(demo_agent 1)\<lparr>ag_peers := [([3], demo_p2), ([2], demo_p3)]\<rparr>"
  have ep: "DirectEndpoint demo_p2 = Some demo_ep" "DirectEndpoint demo_p3 = Some demo_ep"
    by (simp_all add: DirectEndpoint_def demo_p3_def demo_p2_def demo_p1_def newPeer_def)
  have differ: "UDPAddr_String (Some demo_ep) \<noteq> UDPAddr_String None"
    by (simp add: UDPAddr_String_def demo_ep_def IP_String_def ip4_string_def join_def JoinHostPort_def
        Let_def To4_def Itoa_def dec.simps)
  have m: "matchPeer ?g demo_ep [] = Some ([3], [])" using ep by (simp add: matchPeer_def)
  obtain g' es where r: "receiveDatagram demo_hapi demo_api demo_resolver () 5 demo_ep [] ?g = Some (g', es)"
    using m by (simp add: receiveDatagram_def openEnvelope_def HandleFrame_def Parse_def HeaderLen_def)
  show ?thesis
  proof (intro exI conjI)
    show "map_of (ag_peers g') [2] = Some demo_p3"
      by (rule endpoint_squatter_takes_frames [OF _ _ _ _ _ _ _ _ r, where m = "[3]" and pm = demo_p2
            and rest = "[([2], demo_p3)]" and ext = demo_ep and frame = "[]"])
        (simp_all add: ep differ openEnvelope_def)
  qed (fact r)
qed

theorem rtt_history_is_last_five_witness:
  "map_of (ag_rttHist (recordRTTs [2] [1, 2, 3, 4, 5, 6, 7] (demo_agent 1))) [2] = Some [7, 6, 5, 4, 3]"
  using rtt_history_is_last_five [of "demo_agent 1" "[2]" "[1, 2, 3, 4, 5, 6, 7]"]
  by (auto simp: recordRTTs_def recordRTT_lookup split: option.splits)

text \<open>A 20 byte packet to the overlay address of peer 2 and one with peer 3's address as its source.\<close>

definition demo_packet :: "byte \<Rightarrow> bytes" where
  "demo_packet s = [69, 0, 0, 20] @ replicate 8 0 @ [10, 0, 0, s] @ [10, 0, 0, 2]"

lemma demo_packet_parse: "parseIPv4 (demo_packet s) = Some (V4 [10, 0, 0, s], V4 [10, 0, 0, 2])"
proof -
  have "\<exists>n<16. (69 :: byte) = 64 + of_nat n" by (intro exI [of _ 5]) simp
  moreover have "unat (get16 0 20) = 20" by (simp add: get16_def)
  ultimately show ?thesis
    using parseIPv4_shape [of "replicate 8 0" "[10, 0, 0, s]" "[10, 0, 0, 2]" 69 0 0 20 "[]"]
    by (simp add: demo_packet_def)
qed

abbreviation demo_tunnel :: "(demo_hs, nat \<times> u64) agent" where
  "demo_tunnel \<equiv> (demo_agent 1)\<lparr>ag_peers := [([2], demo_p2), ([3], demo_p3)],
     ag_bridge := Some (setPeerSink [2] (Some [2]) demo_bridge)\<rparr>"

lemma demo_owner: "owner (b_router (setPeerSink [2] (Some [2]) demo_bridge)) (demo_packet s) = Some [2]"
  by (simp add: owner_def demo_packet_parse setPeerSink_routes) (simp add: demo_bridge_def)

text \<open>The owner has no session yet: nothing is sent, and peer 3 is not touched.\<close>

theorem tunnel_packet_goes_to_owner_witness:
  "\<exists>g'. tunnelPacket demo_api 5 True (demo_packet 1) demo_tunnel = Some (g', [])
     \<and> map_of (ag_peers g') [3] = Some demo_p3"
proof -
  have "SendPeer demo_api 5 True (demo_packet 1) demo_p2 = Some (Some NoSession, demo_p2, [])"
    by (simp add: SendPeer_def encryptLocked_def demo_p2_def demo_p1_def newPeer_def)
  then obtain g' where r: "tunnelPacket demo_api 5 True (demo_packet 1) demo_tunnel = Some (g', [])"
    using demo_owner [of 1]
    by (simp add: tunnelPacket_def RoutePacket_def owner_def demo_packet_parse sinkSend_def transmits_def)
  show ?thesis
    using tunnel_packet_goes_to_owner [OF _ r] r demo_owner [of 1] by simp
qed

theorem overlay_source_unchecked_witness:
  "handlePeerPayload (\<lambda>_. None) demo_api 5 True True (demo_packet 3) demo_tunnel demo_p2
     = Some (demo_tunnel, demo_p2, [WriteTun (demo_packet 3)])"
  by (rule overlay_source_unchecked [OF _ _ _ demo_packet_parse, where v = "[3]"])
    (simp_all add: demo_bridge_def setPeerSink_def demo_p2_def demo_p1_def newPeer_def, simp_all add: demo_packet_def)

end
