(* ===== verification/Agent_Ping.thy ===== *)
theory Agent_Ping
  imports Agent_Safety "HOL-Library.Monad_Syntax"
begin

text \<open>
  Liveness pings among everything else an agent does: \<^verbatim>\<open>Ping\<close> and \<^verbatim>\<open>ProbeRTT\<close> run in
  goroutines of their own, each round in steps between which the agent receives datagrams,
  peer lists and pongs. The waits of the client, \<^verbatim>\<open>WaitPeers\<close>, \<^verbatim>\<open>WaitEstablished\<close> and
  \<^verbatim>\<open>waitEstablished\<close> of the status command, are loops over what they observe.
\<close>

section \<open>Waiting\<close>

text \<open>
  A wait polls its condition and then blocks in a \<^verbatim>\<open>select\<close>: until the ticker ticks, the context
  ends or, for a peer, the peer is closed. \<open>obs n\<close> is what the n-th turn sees and what wakes it.
\<close>

datatype wake = Ticked | ContextDone | PeerGone

datatype wait_result = Arrived | ContextError | PeerClosedError

partial_function (option) wait_loop :: "(nat \<Rightarrow> bool \<times> wake) \<Rightarrow> nat \<Rightarrow> wait_result option" where
  "wait_loop obs n =
     (if fst (obs n) then Some Arrived
      else if snd (obs n) = ContextDone then Some ContextError
      else if snd (obs n) = PeerGone then Some PeerClosedError
      else wait_loop obs (Suc n))"

definition WaitEstablished :: "(nat \<Rightarrow> ('h, 'c) peer \<times> wake) \<Rightarrow> wait_result option" where
  "WaitEstablished obs = wait_loop (\<lambda>n. (p_established (fst (obs n)), snd (obs n))) 0"

text \<open>\<open>WaitPeers\<close> only listens to the context and its ticker.\<close>

definition WaitPeers :: "(nat \<Rightarrow> ('h, 'c) agent \<times> bool) \<Rightarrow> wait_result option" where
  "WaitPeers obs = wait_loop (\<lambda>n. (length (ag_peers (fst (obs n))) > 0,
     if snd (obs n) then ContextDone else Ticked)) 0"





section \<open>A ping run\<close>

record PingResult =
  pr_Peer :: gostring
  pr_Count :: int
  pr_Received :: int
  pr_AvgRTT :: duration
  pr_Path :: gostring
  pr_Established :: bool

text \<open>
  The loop of \<open>Ping\<close> with its bookkeeping. The outcome of a round is a pong after \<open>rtt\<close>, a lost ping or
  the end of the context, which returns at once; \<open>interrupted\<close> tells in which pause between two
  rounds the context ends, which leaves the loop. The first result tells whether it came to its end.
\<close>

datatype ping_outcome = Pong duration | Lost | Cancelled

fun pingLoop ::
    "(nat \<Rightarrow> ping_outcome) \<Rightarrow> (nat \<Rightarrow> bool) \<Rightarrow> duration \<Rightarrow> nat \<Rightarrow> nat \<Rightarrow> duration \<Rightarrow> PingResult
     \<Rightarrow> bool \<times> duration \<times> PingResult" where
  "pingLoop outcome interrupted interval 0 i sum_rtt res = (True, sum_rtt, res)"
| "pingLoop outcome interrupted interval (Suc k) i sum_rtt res =
     (case outcome i of
        Cancelled \<Rightarrow> (False, sum_rtt, res)
      | r \<Rightarrow>
          let (sum_rtt, res) = (case r of Pong rtt \<Rightarrow> (sum_rtt + rtt, res\<lparr>pr_Received := pr_Received res + 1\<rparr>)
                                | _ \<Rightarrow> (sum_rtt, res))
          in if interval > 0 \<and> k > 0 \<and> interrupted i then (True, sum_rtt, res)
             else pingLoop outcome interrupted interval k (i + 1) sum_rtt res)"

datatype ping_error = WaitFailed wait_result | NoSuchPeer gostring | SendPingFailed | PingContextDone

text \<open>
  The wait for the session of a peer that is in the table; \<open>None\<close> is a wait that never ends, as
  with \<open>WaitEstablished\<close>.
\<close>

definition awaitPeer ::
    "gostring \<Rightarrow> ('h, 'c) agent \<Rightarrow> (nat \<Rightarrow> ('h, 'c) peer \<times> wake) \<Rightarrow> ping_error option option" where
  "awaitPeer target g obs =
     (if map_of (ag_peers g) target = None then Some (Some (NoSuchPeer target))
      else map_option (\<lambda>r. if r = Arrived then None else Some (WaitFailed r)) (WaitEstablished obs))"

text \<open>
  \<open>Ping\<close>: the table is \<open>g\<close> when the target is looked up. The result comes with whether the run
  came to its end; otherwise the context's error is returned with it.
\<close>

definition Ping ::
    "(nat \<Rightarrow> ('h, 'c) agent \<times> bool) \<Rightarrow> ('h, 'c) agent \<Rightarrow> (nat \<Rightarrow> ('h, 'c) peer \<times> wake) \<Rightarrow> gostring \<Rightarrow> int \<Rightarrow> duration
     \<Rightarrow> (nat \<Rightarrow> ping_outcome) \<Rightarrow> (nat \<Rightarrow> bool) \<Rightarrow> path \<Rightarrow> (ping_error + bool \<times> PingResult) option" where
  "Ping tables g sessions target count interval outcome interrupted final = do {
     w \<leftarrow> WaitPeers tables;
     if w \<noteq> Arrived then Some (Inl (WaitFailed w))
     else do {
       e \<leftarrow> awaitPeer target g sessions;
       Some (case e of
           Some e \<Rightarrow> Inl e
         | None \<Rightarrow>
             Inr (case pingLoop outcome interrupted interval (nat count) 0 0
                     \<lparr>pr_Peer = target, pr_Count = count, pr_Received = 0, pr_AvgRTT = 0, pr_Path = [], pr_Established = True\<rparr> of
                    (False, _, res) \<Rightarrow> (False, res)
                  | (True, sum_rtt, res) \<Rightarrow>
                      (True, (if pr_Received res > 0 then res\<lparr>pr_AvgRTT := sum_rtt sdiv pr_Received res\<rparr> else res)
                               \<lparr>pr_Path := Path_String final\<rparr>)))
     }
   }"

text \<open>\<open>ProbeRTT\<close>: the pong, if any, comes after \<open>rtt\<close> and finds the agent \<open>h\<close>, whose history it enters.\<close>

definition ProbeRTT ::
    "('h, 'c) agent \<Rightarrow> (nat \<Rightarrow> ('h, 'c) peer \<times> wake) \<Rightarrow> gostring \<Rightarrow> bool \<Rightarrow> duration option \<Rightarrow> ('h, 'c) agent
     \<Rightarrow> ((ping_error + duration) \<times> ('h, 'c) agent) option" where
  "ProbeRTT g sessions peerID sent pong h =
     map_option (\<lambda>e. case e of
         Some e \<Rightarrow> (Inl e, h)
       | None \<Rightarrow> if \<not> sent then (Inl SendPingFailed, h)
           else (case pong of None \<Rightarrow> (Inl PingContextDone, h) | Some rtt \<Rightarrow> (Inr rtt, recordRTT peerID rtt h)))
       (awaitPeer peerID g sessions)"

text \<open>The pongs of the first \<open>k\<close> rounds.\<close>

definition pongs :: "(nat \<Rightarrow> ping_outcome) \<Rightarrow> nat \<Rightarrow> nat \<Rightarrow> duration list" where
  "pongs outcome i k = List.map_filter (\<lambda>j. case outcome j of Pong rtt \<Rightarrow> Some rtt | _ \<Rightarrow> None) [i..<i + k]"

lemma pongs_Suc: "pongs outcome i (Suc k) =
    (case outcome i of Pong rtt \<Rightarrow> [rtt] | _ \<Rightarrow> []) @ pongs outcome (Suc i) k"
  by (simp add: pongs_def upt_conv_Cons List.map_filter_simps del: upt_Suc split: ping_outcome.split)

lemma pongs_0 [simp]: "pongs outcome i 0 = []"
  by (simp add: pongs_def List.map_filter_simps)

lemma pingLoop_counts:
  "pingLoop outcome interrupted interval n i s res = (done, s', res') \<Longrightarrow>
   \<exists>k\<le>n. s' = s + sum_list (pongs outcome i k) \<and> (done \<longrightarrow> k < n \<longrightarrow> interval > 0 \<and> (\<exists>j. interrupted j))
     \<and> res' = res\<lparr>pr_Received := pr_Received res + int (length (pongs outcome i k))\<rparr>"
proof (induction n arbitrary: i s res)
  case (Suc n)
  show ?case
  proof (cases "outcome i = Cancelled")
    case True
    then show ?thesis using Suc.prems by (intro exI [of _ 0]) auto
  next
    case False
    define s1 where "s1 = s + sum_list (case outcome i of Pong rtt \<Rightarrow> [rtt] | _ \<Rightarrow> [])"
    define r1 where "r1 = res\<lparr>pr_Received := pr_Received res + int (length (case outcome i of Pong rtt \<Rightarrow> [rtt] | _ \<Rightarrow> []))\<rparr>"
    have step: "(if interval > 0 \<and> n > 0 \<and> interrupted i then (True, s1, r1)
        else pingLoop outcome interrupted interval n (Suc i) s1 r1) = (done, s', res')"
      using Suc.prems False by (cases "outcome i") (auto simp: s1_def r1_def)
    show ?thesis
    proof (cases "interval > 0 \<and> n > 0 \<and> interrupted i")
      case True
      then show ?thesis using step by (intro exI [of _ 1]) (auto simp: pongs_Suc [of _ _ 0, simplified] s1_def r1_def)
    next
      case False
      then obtain k where k: "k \<le> n" "s' = s1 + sum_list (pongs outcome (Suc i) k)"
        "done \<longrightarrow> k < n \<longrightarrow> interval > 0 \<and> (\<exists>j. interrupted j)"
        "res' = r1\<lparr>pr_Received := pr_Received r1 + int (length (pongs outcome (Suc i) k))\<rparr>"
        using step Suc.IH [of "Suc i" s1 r1] by (auto split: if_splits)
      then show ?thesis by (intro exI [of _ "Suc k"]) (auto simp: pongs_Suc s1_def r1_def)
    qed
  qed
qed simp

text \<open>
  A run that comes to its end reports exactly the pongs of its rounds, all of them unless the
  context ended in a pause, and their mean.
\<close>

lemma Ping_reports:
  assumes "Ping tables g sessions target count interval outcome interrupted final = Some (Inr (True, res))"
  obtains k where "k \<le> nat count" "k < nat count \<Longrightarrow> interval > 0 \<and> (\<exists>j. interrupted j)"
    "pr_Received res = int (length (pongs outcome 0 k))"
    "pr_AvgRTT res = (if pongs outcome 0 k = [] then 0 else sum_list (pongs outcome 0 k) sdiv int (length (pongs outcome 0 k)))"
    "target \<in> dom (map_of (ag_peers g))" "pr_Path res = Path_String final"
proof -
  let ?r = "\<lparr>pr_Peer = target, pr_Count = count, pr_Received = 0, pr_AvgRTT = 0, pr_Path = [], pr_Established = True\<rparr>"
  obtain s' r' where l: "pingLoop outcome interrupted interval (nat count) 0 0 ?r = (True, s', r')"
    "res = (if pr_Received r' > 0 then r'\<lparr>pr_AvgRTT := s' sdiv pr_Received r'\<rparr> else r')\<lparr>pr_Path := Path_String final\<rparr>"
    "target \<in> dom (map_of (ag_peers g))"
    using assms by (auto simp: Ping_def awaitPeer_def split: bind_splits if_splits option.splits prod.splits bool.splits)
  obtain k where "k \<le> nat count" "s' = sum_list (pongs outcome 0 k)" "k < nat count \<longrightarrow> interval > 0 \<and> (\<exists>j. interrupted j)"
    "r' = ?r\<lparr>pr_Received := int (length (pongs outcome 0 k))\<rparr>"
    using pingLoop_counts [OF l(1)] by auto
  then show thesis using l(2,3) by (intro that [of k]) (auto simp: int_eq_iff)
qed

section \<open>Rounds of pings\<close>

text \<open>
  A round has sent its ping, waits with its waiter entered, or has ended, with the time of the
  pong or without one. The flag marks a round of \<open>ProbeRTT\<close>, which drops its waiter also when
  the pong came. A waiter is a channel that holds one time.
\<close>

datatype ping_round = Sent u64 bool | Waiting u64 nat bool | Ended "gotime option"

record ('h, 'c) ping_world =
  pw_agent :: "('h, 'c) agent"
  pw_chans :: "(nat, gotime option) gomap"
  pw_rounds :: "(nat, ping_round) gomap"

text \<open>A send on a channel that is full is skipped.\<close>

definition wake_chan :: "agent_effect \<Rightarrow> (nat, gotime option) gomap \<Rightarrow> (nat, gotime option) gomap" where
  "wake_chan e m = (case e of
       WakePing ch now \<Rightarrow> if map_of m ch = Some None then AList.update ch (Some now) m else m
     | _ \<Rightarrow> m)"

text \<open>The pong, if any, that an event of the agent handles: its sequence number and the time.\<close>

definition pong_in :: "(bytes \<Rightarrow> ping_msg option) \<Rightarrow> 'r agent_event \<Rightarrow> ('h, 'c) agent \<Rightarrow> (u64 \<times> gotime) option" where
  "pong_in unmarshal ev g =
     (case ev of
        AgPayload pid now _ _ \<Rightarrow>
          (case map_of (ag_peers g) pid of
             None \<Rightarrow> None
           | Some p \<Rightarrow>
               (case p_recv p of
                  [] \<Rightarrow> None
                | m # _ \<Rightarrow>
                    if m = [] \<or> (ag_bridge g \<noteq> None \<and> hd m \<noteq> 123) then None
                    else (case decodePingMsg unmarshal m of
                            None \<Rightarrow> None
                          | Some msg \<Rightarrow> if pm_Cmd msg = lit ''pong'' then Some (pm_S msg, now) else None)))
      | _ \<Rightarrow> None)"

datatype 'r ping_label =
    LSend nat u64 bool
  | LEnter nat nat
  | LGot nat
  | LGiveUp nat
  | LAgent "'r agent_event"

text \<open>
  One step, with the pong it handles. The message of the ping itself is a send of the peer, an
  event of the agent. A channel is new when it is made.
\<close>

inductive ping_step ::
    "('h, 'c, 'r) handshake_api \<Rightarrow> ('c, 'k) cipher_api \<Rightarrow> (gostring \<Rightarrow> UDPAddr option)
     \<Rightarrow> (bytes \<Rightarrow> ping_msg option) \<Rightarrow> 'r ping_label \<times> (u64 \<times> gotime) option
     \<Rightarrow> ('h, 'c) ping_world \<Rightarrow> ('h, 'c) ping_world \<Rightarrow> bool"
  for hapi api resolver unmarshal where
  send: "map_of (pw_rounds w) r = None \<Longrightarrow>
    ping_step hapi api resolver unmarshal (LSend r seq probe, None) w
      (w\<lparr>pw_rounds := AList.update r (Sent seq probe) (pw_rounds w)\<rparr>)"
| enter: "map_of (pw_rounds w) r = Some (Sent seq probe) \<Longrightarrow> map_of (pw_chans w) ch = None \<Longrightarrow>
    ping_step hapi api resolver unmarshal (LEnter r ch, None) w
      (w\<lparr>pw_agent := registerPing seq ch (pw_agent w),
         pw_chans := AList.update ch None (pw_chans w),
         pw_rounds := AList.update r (Waiting seq ch probe) (pw_rounds w)\<rparr>)"
| got: "map_of (pw_rounds w) r = Some (Waiting seq ch probe) \<Longrightarrow> map_of (pw_chans w) ch = Some (Some t) \<Longrightarrow>
    ping_step hapi api resolver unmarshal (LGot r, None) w
      (w\<lparr>pw_agent := (if probe then dropPing seq (pw_agent w) else pw_agent w),
         pw_chans := AList.update ch None (pw_chans w),
         pw_rounds := AList.update r (Ended (Some t)) (pw_rounds w)\<rparr>)"
| give_up: "map_of (pw_rounds w) r = Some (Waiting seq ch probe) \<Longrightarrow>
    ping_step hapi api resolver unmarshal (LGiveUp r, None) w
      (w\<lparr>pw_agent := dropPing seq (pw_agent w),
         pw_rounds := AList.update r (Ended None) (pw_rounds w)\<rparr>)"
| other: "agent_step hapi api resolver unmarshal ev (pw_agent w) = Some (g, es) \<Longrightarrow>
    ping_step hapi api resolver unmarshal (LAgent ev, pong_in unmarshal ev (pw_agent w)) w
      (w\<lparr>pw_agent := g, pw_chans := fold wake_chan es (pw_chans w)\<rparr>)"

inductive ping_run ::
    "('h, 'c, 'r) handshake_api \<Rightarrow> ('c, 'k) cipher_api \<Rightarrow> (gostring \<Rightarrow> UDPAddr option)
     \<Rightarrow> (bytes \<Rightarrow> ping_msg option) \<Rightarrow> ('h, 'c) ping_world \<Rightarrow> ('r ping_label \<times> (u64 \<times> gotime) option) list
     \<Rightarrow> ('h, 'c) ping_world \<Rightarrow> bool"
  for hapi api resolver unmarshal w where
  start: "ping_run hapi api resolver unmarshal w [] w"
| step: "ping_run hapi api resolver unmarshal w tr w1 \<Longrightarrow> ping_step hapi api resolver unmarshal l w1 w2 \<Longrightarrow>
    ping_run hapi api resolver unmarshal w (tr @ [l]) w2"

text \<open>An agent with no ping under way.\<close>

definition idle_world :: "('h, 'c) agent \<Rightarrow> ('h, 'c) ping_world" where
  "idle_world g = \<lparr>pw_agent = g\<lparr>ag_pingOut := []\<rparr>, pw_chans = [], pw_rounds = []\<rparr>"

section \<open>What wakes a waiter\<close>

definition silent :: "agent_effect list \<Rightarrow> bool" where
  "silent es \<longleftrightarrow> (\<forall>e\<in>set es. \<forall>ch t. e \<noteq> WakePing ch t)"

lemma silent_simps [simp]: "silent []" "silent (es @ fs) \<longleftrightarrow> silent es \<and> silent fs"
  "silent (e # es) \<longleftrightarrow> (\<forall>ch t. e \<noteq> WakePing ch t) \<and> silent es"
  by (auto simp: silent_def)

lemma silent_wakes: "silent es \<Longrightarrow> fold wake_chan es m = m"
  by (induction es arbitrary: m) (auto simp: wake_chan_def split: agent_effect.splits)

lemma transmits_silent [simp]: "silent (transmits g es)"
  by (auto simp: silent_def transmits_def transmit_def split: sum.splits prod.splits)

lemma steps_silent:
  assumes "\<And>x g. silent (snd (f x g)) \<and> ag_pingOut (fst (f x g)) = ag_pingOut g"
  shows "silent (snd (steps f xs g)) \<and> ag_pingOut (fst (steps f xs g)) = ag_pingOut g"
proof (induction xs arbitrary: g)
  case (Cons x xs)
  show ?case using assms [of x g] Cons.IH [of "fst (f x g)"] by (auto split: prod.splits)
qed simp

lemma applyPeers_silent: "silent (snd (applyPeers resolver infos g)) \<and> ag_pingOut (fst (applyPeers resolver infos g)) = ag_pingOut g"
proof -
  have "silent (snd (applyInfo resolver x g)) \<and> ag_pingOut (fst (applyInfo resolver x g)) = ag_pingOut g" for x g
    by (auto simp: applyInfo_def Let_def split: option.splits sum.splits)
  moreover have "silent (snd (prunePeer x g)) \<and> ag_pingOut (fst (prunePeer x g)) = ag_pingOut g" for x g
    by (auto simp: prunePeer_def split: option.splits)
  ultimately have loops: "silent (snd (steps (applyInfo resolver) xs g)) \<and> ag_pingOut (fst (steps (applyInfo resolver) xs g)) = ag_pingOut g"
    "silent (snd (steps prunePeer ys g)) \<and> ag_pingOut (fst (steps prunePeer ys g)) = ag_pingOut g" for xs ys g
    using steps_silent [of "applyInfo resolver"] steps_silent [of prunePeer] by blast+
  obtain g1 es1 where 1: "steps (applyInfo resolver) infos g = (g1, es1)"
    by (cases "steps (applyInfo resolver) infos g") auto
  show ?thesis
    using loops(1) [of infos g] loops(2) [of _ g1] by (simp add: applyPeers_def Let_def 1 case_prod_beta)
qed

lemma tunnelPacket_silent:
  assumes "tunnelPacket api now ok pkt g = Some (g', es)"
  shows "silent es \<and> ag_pingOut g' = ag_pingOut g"
proof (cases "ag_bridge g")
  case (Some b)
  obtain x r h fs k where R: "RoutePacket (sinkSend api now ok) pkt (b_router b) (g, [], False) = (x, r, h, fs, k)"
    by (cases "RoutePacket (sinkSend api now ok) pkt (b_router b) (g, [], False)") auto
  have "silent fs \<and> ag_pingOut h = ag_pingOut g"
    using R RoutePacket_world [of "sinkSend api now ok" pkt "b_router b" "(g, [], False)"]
    by (auto simp: sinkSend_def split: option.splits prod.splits)
  then show ?thesis using assms R Some by (auto simp: tunnelPacket_def split: if_splits)
qed (use assms in \<open>simp add: tunnelPacket_def\<close>)

lemma receiveDatagram_silent:
  "receiveDatagram hapi api resolver rnd now src pkt g = Some (g', es) \<Longrightarrow> silent es \<and> ag_pingOut g' = ag_pingOut g"
  by (auto simp: receiveDatagram_def split: option.splits prod.splits)

text \<open>Only a pong touches the table of waiters, and only the waiter it names.\<close>

definition answer :: "(u64 \<times> gotime) option \<Rightarrow> ('h, 'c) agent \<Rightarrow> (nat, gotime option) gomap \<Rightarrow> (nat, gotime option) gomap" where
  "answer o1 g m = (case o1 of
       None \<Rightarrow> m
     | Some (s, t) \<Rightarrow> (case map_of (ag_pingOut g) s of None \<Rightarrow> m | Some ch \<Rightarrow> wake_chan (WakePing ch t) m))"

lemma dispatchPing_pong:
  assumes "dispatchPing api now ok m g p = Some (g', q, es)"
  shows "if pm_Cmd m = lit ''pong''
     then ag_pingOut g' = AList.delete (pm_S m) (ag_pingOut g)
        \<and> fold wake_chan es c = answer (Some (pm_S m, now)) g c
     else silent es \<and> ag_pingOut g' = ag_pingOut g"
  using assms by (auto simp: dispatchPing_def SendJSON_def answer_def lit_def split: if_splits option.splits)

lemma agent_step_pong:
  assumes "agent_step hapi api resolver unmarshal ev g = Some (g', es)"
  shows "ag_pingOut g' = (case pong_in unmarshal ev g of None \<Rightarrow> ag_pingOut g | Some (s, t) \<Rightarrow> AList.delete s (ag_pingOut g))
    \<and> fold wake_chan es m = answer (pong_in unmarshal ev g) g m"
proof (cases ev)
  case (AgPayload pid now ok tok)
  show ?thesis
  proof (cases "map_of (ag_peers g) pid")
    case None
    then show ?thesis using assms AgPayload by (simp add: pong_in_def answer_def)
  next
    case (Some p)
    show ?thesis
    proof (cases "p_recv p")
      case Nil
      then show ?thesis using assms AgPayload Some by (simp add: pong_in_def answer_def)
    next
      case (Cons b bs)
      obtain h q where H: "handlePeerPayload unmarshal api now ok tok b g (p\<lparr>p_recv := bs\<rparr>) = Some (h, q, es)"
        "g' = put_peer pid q h"
        using assms AgPayload Some Cons by auto
      let ?m = "if b = [] \<or> (ag_bridge g \<noteq> None \<and> hd b \<noteq> 123) then None else decodePingMsg unmarshal b"
      have pong: "pong_in unmarshal ev g = (case ?m of None \<Rightarrow> None
          | Some m \<Rightarrow> if pm_Cmd m = lit ''pong'' then Some (pm_S m, now) else None)"
        using AgPayload Some Cons by (auto simp: pong_in_def)
      show ?thesis
      proof (cases ?m)
        case None
        then have "silent es \<and> ag_pingOut h = ag_pingOut g"
          using H(1) by (auto simp: handlePeerPayload_def split: if_splits option.splits)
        then show ?thesis using None pong H(2) silent_wakes by (simp add: answer_def put_peer_def)
      next
        case (Some msg)
        then have "dispatchPing api now ok msg g (p\<lparr>p_recv := bs\<rparr>) = Some (h, q, es)"
          using H(1) by (auto simp: handlePeerPayload_def split: if_splits option.splits)
        from dispatchPing_pong [OF this, of m] show ?thesis
          using Some pong H(2) silent_wakes by (auto simp: answer_def put_peer_def split: if_splits)
      qed
    qed
  qed
next
  case (AgList infos)
  then show ?thesis using assms applyPeers_silent [of resolver infos g] silent_wakes by (auto simp: pong_in_def answer_def)
next
  case (AgDatagram src pkt rnd now)
  then show ?thesis using assms receiveDatagram_silent silent_wakes by (fastforce simp: pong_in_def answer_def)
next
  case (AgPeer pid e)
  then show ?thesis
    using assms silent_wakes by (auto simp: pong_in_def answer_def put_peer_def split: option.splits)
next
  case (AgTun pkt now ok)
  then show ?thesis using assms tunnelPacket_silent silent_wakes by (fastforce simp: pong_in_def answer_def)
next
  case (AgAttach b)
  then show ?thesis using assms by (auto simp: pong_in_def answer_def attachBridge_def)
qed

section \<open>Invariants of the rounds\<close>

definition waits :: "('h, 'c) ping_world \<Rightarrow> nat \<Rightarrow> u64 \<Rightarrow> nat \<Rightarrow> bool" where
  "waits w r seq ch \<longleftrightarrow> (\<exists>probe. map_of (pw_rounds w) r = Some (Waiting seq ch probe))"

text \<open>
  Every waiter in the table belongs to a round that waits and has not been woken, and no two
  rounds share a channel.
\<close>

definition waiters_ok :: "('h, 'c) ping_world \<Rightarrow> bool" where
  "waiters_ok w \<longleftrightarrow>
     (\<forall>seq ch. map_of (ag_pingOut (pw_agent w)) seq = Some ch \<longrightarrow>
        map_of (pw_chans w) ch = Some None \<and> (\<exists>r. waits w r seq ch))
   \<and> (\<forall>r seq ch. waits w r seq ch \<longrightarrow> map_of (pw_chans w) ch \<noteq> None)
   \<and> (\<forall>r r' seq seq' ch. waits w r seq ch \<and> waits w r' seq' ch \<longrightarrow> r = r' \<and> seq = seq')"

lemma waiters_okD:
  assumes "waiters_ok w"
  shows "map_of (ag_pingOut (pw_agent w)) seq = Some ch \<Longrightarrow> map_of (pw_chans w) ch = Some None"
    "map_of (ag_pingOut (pw_agent w)) seq = Some ch \<Longrightarrow> \<exists>r. waits w r seq ch"
    "waits w r seq ch \<Longrightarrow> map_of (pw_chans w) ch \<noteq> None"
    "waits w r seq ch \<Longrightarrow> waits w r' seq' ch \<Longrightarrow> r = r' \<and> seq = seq'"
  using assms unfolding waiters_ok_def by blast+

lemma waiters_okI:
  assumes "\<And>seq ch. map_of (ag_pingOut (pw_agent w)) seq = Some ch \<Longrightarrow> map_of (pw_chans w) ch = Some None"
    and "\<And>seq ch. map_of (ag_pingOut (pw_agent w)) seq = Some ch \<Longrightarrow> \<exists>r. waits w r seq ch"
    and "\<And>r seq ch. waits w r seq ch \<Longrightarrow> map_of (pw_chans w) ch \<noteq> None"
    and "\<And>r r' seq seq' ch. waits w r seq ch \<Longrightarrow> waits w r' seq' ch \<Longrightarrow> r = r' \<and> seq = seq'"
  shows "waiters_ok w"
  using assms unfolding waiters_ok_def by blast

lemma answer_lookup:
  "map_of (answer o1 g m) ch = (if \<exists>s t. o1 = Some (s, t) \<and> map_of (ag_pingOut g) s = Some ch \<and> map_of m ch = Some None
     then Some (Some (snd (the o1))) else map_of m ch)"
  by (auto simp: answer_def wake_chan_def update_conv' split: option.splits prod.splits)

lemma ping_step_waiters:
  assumes "ping_step hapi api resolver unmarshal l w w'" "waiters_ok w"
  shows "waiters_ok w'"
  using assms(1)
proof cases
  case (send r seq probe)
  then have "waits w' i s c = waits w i s c" for i s c by (auto simp: waits_def update_conv')
  then show ?thesis using assms(2) send(2) by (simp add: waiters_ok_def)
next
  case (enter r seq probe ch)
  have W: "waits w' i s c \<longleftrightarrow> (if i = r then s = seq \<and> c = ch else waits w i s c)" for i s c
    using enter(2) by (auto simp: waits_def update_conv')
  have old: "\<not> waits w i s ch" for i s using waiters_okD(3) [OF assms(2)] enter(4) by blast
  have no: "map_of (ag_pingOut (pw_agent w)) s \<noteq> Some ch" for s
    using waiters_okD(1) [OF assms(2)] enter(4) by fastforce
  have f: "ag_pingOut (pw_agent w') = AList.update seq ch (ag_pingOut (pw_agent w))"
    "pw_chans w' = AList.update ch None (pw_chans w)"
    using enter(2) by (simp_all add: registerPing_def)
  have "\<not> waits w r s c" for s c using enter(3) by (auto simp: waits_def)
  then have "\<exists>i. i \<noteq> r \<and> waits w i s c" if "map_of (ag_pingOut (pw_agent w)) s = Some c" for s c
    using waiters_okD(2) [OF assms(2) that] by metis
  then have "\<exists>i. waits w' i s c" if "map_of (ag_pingOut (pw_agent w')) s = Some c" for s c
    using that unfolding W f(1) by (fastforce simp: update_conv' split: if_splits)
  then show ?thesis
    using waiters_okD(1,3,4) [OF assms(2)] old no
    by (intro waiters_okI; (assumption | blast)?) (auto simp: W f update_conv' split: if_splits)
next
  case (got r seq ch probe t)
  have W: "waits w' i s c \<longleftrightarrow> i \<noteq> r \<and> waits w i s c" for i s c
    using got(2) by (auto simp: waits_def update_conv')
  have r: "waits w r seq ch" using got(3) by (auto simp: waits_def)
  have "map_of (ag_pingOut (pw_agent w)) s \<noteq> Some ch" for s
    using waiters_okD(1) [OF assms(2)] got(4) by fastforce
  then have keep: "\<exists>i. i \<noteq> r \<and> waits w i s c" if k: "map_of (ag_pingOut (pw_agent w)) s = Some c" for s c
  proof -
    obtain i where i: "waits w i s c" using waiters_okD(2) [OF assms(2) k] by blast
    have "c \<noteq> ch" using k \<open>\<And>s. map_of (ag_pingOut (pw_agent w)) s \<noteq> Some ch\<close> by blast
    then have "i \<noteq> r" using i r by (auto simp: waits_def)
    then show ?thesis using i by blast
  qed
  have out: "map_of (ag_pingOut (pw_agent w')) s = Some c \<Longrightarrow> map_of (ag_pingOut (pw_agent w)) s = Some c" for s c
    using got(2) by (auto simp: dropPing_def delete_conv' split: if_splits)
  have f: "pw_chans w' = AList.update ch None (pw_chans w)" using got(2) by simp
  show ?thesis
  proof (rule waiters_okI)
    fix s c assume "map_of (ag_pingOut (pw_agent w')) s = Some c"
    note o1 = out [OF this]
    show "map_of (pw_chans w') c = Some None" using waiters_okD(1) [OF assms(2) o1] by (simp add: f update_conv')
    show "\<exists>i. waits w' i s c" using keep [OF o1] by (simp add: W)
  next
    fix i s c assume "waits w' i s c"
    then have "map_of (pw_chans w) c \<noteq> None" using waiters_okD(3) [OF assms(2)] W by blast
    then show "map_of (pw_chans w') c \<noteq> None" by (simp add: f update_conv')
  next
    fix i i' s s' c assume "waits w' i s c" "waits w' i' s' c"
    then show "i = i' \<and> s = s'" using waiters_okD(4) [OF assms(2)] W by blast
  qed
next
  case (give_up r seq ch probe)
  have W: "waits w' i s c \<longleftrightarrow> i \<noteq> r \<and> waits w i s c" for i s c
    using give_up(2) by (auto simp: waits_def update_conv')
  have r: "waits w r s c \<Longrightarrow> s = seq" for s c using give_up(3) by (auto simp: waits_def)
  have "map_of (ag_pingOut (pw_agent w')) s = Some c \<Longrightarrow> s \<noteq> seq \<and> map_of (ag_pingOut (pw_agent w)) s = Some c" for s c
    using give_up(2) by (auto simp: dropPing_def delete_conv' split: if_splits)
  moreover have "pw_chans w' = pw_chans w" using give_up(2) by simp
  ultimately show ?thesis
    using waiters_okD [OF assms(2)] r by (intro waiters_okI) (fastforce simp: W)+
next
  case (other ev g es)
  have W: "waits w' i s c \<longleftrightarrow> waits w i s c" for i s c using other(2) by (simp add: waits_def)
  note st = agent_step_pong [OF other(3)]
  have chans: "map_of (pw_chans w') c = map_of (answer (pong_in unmarshal ev (pw_agent w)) (pw_agent w) (pw_chans w)) c" for c
    using st other(2) by simp
  show ?thesis
  proof (rule waiters_okI)
    fix s c assume "map_of (ag_pingOut (pw_agent w')) s = Some c"
    then have s: "map_of (ag_pingOut (pw_agent w)) s = Some c" "\<And>s' t. pong_in unmarshal ev (pw_agent w) = Some (s', t) \<Longrightarrow> s \<noteq> s'"
      using st other(2) by (auto simp: delete_conv' split: option.splits if_splits)
    show "\<exists>r. waits w' r s c" using waiters_okD(2) [OF assms(2) s(1)] by (simp add: W)
    have "map_of (ag_pingOut (pw_agent w)) s' = Some c \<Longrightarrow> s' = s" for s'
      using waiters_okD(2) [OF assms(2)] waiters_okD(4) [OF assms(2)] s(1) by metis
    then show "map_of (pw_chans w') c = Some None"
      using waiters_okD(1) [OF assms(2) s(1)] s(2) by (auto simp: chans answer_lookup)
  next
    fix r s c assume "waits w' r s c"
    then have "map_of (pw_chans w) c \<noteq> None" using waiters_okD(3) [OF assms(2)] by (simp add: W)
    then show "map_of (pw_chans w') c \<noteq> None" by (simp add: chans answer_lookup)
  next
    fix r r' s s' c assume "waits w' r s c" "waits w' r' s' c"
    then show "r = r' \<and> s = s'" using waiters_okD(4) [OF assms(2)] by (simp add: W)
  qed
qed

lemma ping_run_waiters:
  "ping_run hapi api resolver unmarshal w tr w' \<Longrightarrow> waiters_ok w \<Longrightarrow> waiters_ok w'"
  by (induction rule: ping_run.induct) (use ping_step_waiters in blast)+

lemma idle_waiters: "waiters_ok (idle_world g)"
  by (simp add: waiters_ok_def idle_world_def waits_def)

text \<open>What the log of a run knows of the rounds.\<close>

definition sent_log :: "('r ping_label \<times> (u64 \<times> gotime) option) list \<Rightarrow> nat \<Rightarrow> u64 \<Rightarrow> bool" where
  "sent_log tr r seq \<longleftrightarrow> (\<exists>probe. (LSend r seq probe, None) \<in> set tr)"

definition ponged :: "('r ping_label \<times> (u64 \<times> gotime) option) list \<Rightarrow> u64 \<Rightarrow> gotime \<Rightarrow> bool" where
  "ponged tr seq t \<longleftrightarrow> (\<exists>ev. (LAgent ev, Some (seq, t)) \<in> set tr)"

lemma logs_mono: "sent_log tr r seq \<Longrightarrow> sent_log (tr @ l) r seq" "ponged tr seq t \<Longrightarrow> ponged (tr @ l) seq t"
  by (auto simp: sent_log_def ponged_def)

definition round_logged ::
    "('r ping_label \<times> (u64 \<times> gotime) option) list \<Rightarrow> (nat, gotime option) gomap \<Rightarrow> nat \<Rightarrow> ping_round \<Rightarrow> bool" where
  "round_logged tr m r x \<longleftrightarrow> (case x of
       Sent seq _ \<Rightarrow> sent_log tr r seq
     | Waiting seq ch _ \<Rightarrow> sent_log tr r seq \<and> (\<forall>t. map_of m ch = Some (Some t) \<longrightarrow> ponged tr seq t)
     | Ended o1 \<Rightarrow> (\<forall>t. o1 = Some t \<longrightarrow> (\<exists>seq. sent_log tr r seq \<and> ponged tr seq t)))"

definition rounds_logged :: "('r ping_label \<times> (u64 \<times> gotime) option) list \<Rightarrow> ('h, 'c) ping_world \<Rightarrow> bool" where
  "rounds_logged tr w \<longleftrightarrow> (\<forall>r x. map_of (pw_rounds w) r = Some x \<longrightarrow> round_logged tr (pw_chans w) r x)"

lemma rounds_loggedD: "rounds_logged tr w \<Longrightarrow> map_of (pw_rounds w) r = Some x \<Longrightarrow> round_logged tr (pw_chans w) r x"
  by (simp add: rounds_logged_def)

lemma round_logged_mono:
  "round_logged tr m r x \<Longrightarrow> (\<And>s ch p t. x = Waiting s ch p \<Longrightarrow> map_of m' ch = Some (Some t) \<Longrightarrow>
     map_of m ch = Some (Some t) \<or> ponged (tr @ l) s t) \<Longrightarrow> round_logged (tr @ l) m' r x"
  using logs_mono [of tr _ _ l] by (cases x) (fastforce simp: round_logged_def)+

lemma ping_step_logged:
  assumes "ping_step hapi api resolver unmarshal l w w'" "waiters_ok w" "rounds_logged tr w"
  shows "rounds_logged (tr @ [l]) w'"
  using assms(1)
proof cases
  case (send r seq probe)
  have "round_logged (tr @ [l]) (pw_chans w) r (Sent seq probe)"
    using send(1) by (auto simp: round_logged_def sent_log_def)
  then show ?thesis
    using round_logged_mono [OF rounds_loggedD [OF assms(3)]] send(2) by (auto simp: rounds_logged_def update_conv')
next
  case (enter r seq probe ch)
  have "round_logged tr (pw_chans w) r (Sent seq probe)" by (rule rounds_loggedD [OF assms(3) enter(3)])
  then have "round_logged (tr @ [l]) (pw_chans w') r (Waiting seq ch probe)"
    using logs_mono(1) enter(2) by (fastforce simp: round_logged_def update_conv')
  moreover have "round_logged (tr @ [l]) (pw_chans w') i x" if "map_of (pw_rounds w) i = Some x" for i x
    by (rule round_logged_mono [OF rounds_loggedD [OF assms(3) that]])
      (use enter(2) in \<open>simp add: update_conv' split: if_splits\<close>)
  ultimately show ?thesis using enter(2) by (auto simp: rounds_logged_def update_conv')
next
  case (got r seq ch probe t)
  have "round_logged tr (pw_chans w) r (Waiting seq ch probe)" by (rule rounds_loggedD [OF assms(3) got(3)])
  then have "round_logged (tr @ [l]) (pw_chans w') r (Ended (Some t))"
    using logs_mono got(4) by (fastforce simp: round_logged_def)
  moreover have "round_logged (tr @ [l]) (pw_chans w') i x" if "map_of (pw_rounds w) i = Some x" for i x
    by (rule round_logged_mono [OF rounds_loggedD [OF assms(3) that]])
      (use got(2) in \<open>simp add: update_conv' split: if_splits\<close>)
  ultimately show ?thesis using got(2) by (auto simp: rounds_logged_def update_conv')
next
  case (give_up r seq ch probe)
  have "round_logged (tr @ [l]) (pw_chans w) i x" if "map_of (pw_rounds w) i = Some x" for i x
    by (rule round_logged_mono [OF rounds_loggedD [OF assms(3) that]]) simp
  moreover have "round_logged (tr @ [l]) (pw_chans w) r (Ended None)" by (simp add: round_logged_def)
  ultimately show ?thesis using give_up(2) by (auto simp: rounds_logged_def update_conv')
next
  case (other ev g es)
  note st = agent_step_pong [OF other(3)]
  have new: "map_of (pw_chans w) ch = Some (Some t) \<or> ponged (tr @ [l]) s t"
    if k: "map_of (pw_rounds w) r = Some (Waiting s ch p)" "map_of (pw_chans w') ch = Some (Some t)" for r s ch p t
  proof (cases "map_of (pw_chans w) ch = Some (Some t)")
    case False
    then obtain s' where s': "pong_in unmarshal ev (pw_agent w) = Some (s', t)" "map_of (ag_pingOut (pw_agent w)) s' = Some ch"
      using k(2) st other(2) by (auto simp: answer_lookup split: if_splits)
    have "waits w r s ch" using k(1) by (auto simp: waits_def)
    then have "s' = s" using waiters_okD(2) [OF assms(2) s'(2)] waiters_okD(4) [OF assms(2)] by metis
    then show ?thesis using s'(1) other(1) by (auto simp: ponged_def)
  qed simp
  have "round_logged (tr @ [l]) (pw_chans w') r x" if x: "map_of (pw_rounds w) r = Some x" for r x
    by (rule round_logged_mono [OF rounds_loggedD [OF assms(3) x]]) (use new x in simp)
  then show ?thesis using other(2) by (simp add: rounds_logged_def)
qed

lemma ping_run_logged:
  "ping_run hapi api resolver unmarshal w tr w' \<Longrightarrow> waiters_ok w \<Longrightarrow> pw_rounds w = [] \<Longrightarrow>
   waiters_ok w' \<and> rounds_logged tr w'"
proof (induction rule: ping_run.induct)
  case start
  then show ?case by (simp add: rounds_logged_def)
next
  case (step tr w1 l w2)
  then show ?case using ping_step_waiters ping_step_logged by blast
qed

text \<open>A round whose pong does not come after its waiter is entered is not answered.\<close>

definition unanswered :: "nat \<Rightarrow> u64 \<Rightarrow> ('h, 'c) ping_world \<Rightarrow> bool" where
  "unanswered r seq w \<longleftrightarrow> (case map_of (pw_rounds w) r of
       Some (Sent s _) \<Rightarrow> s = seq
     | Some (Waiting s ch _) \<Rightarrow> s = seq \<and> map_of (pw_chans w) ch = Some None
     | Some (Ended None) \<Rightarrow> True
     | _ \<Rightarrow> False)"

lemma unanswered_step:
  assumes "ping_step hapi api resolver unmarshal l w w'" "waiters_ok w" "unanswered r seq w"
    and "\<forall>t. snd l \<noteq> Some (seq, t)"
  shows "unanswered r seq w'"
  using assms(1)
proof cases
  case (send i s probe)
  then show ?thesis
    using assms(3) by (auto simp: unanswered_def update_conv' split: option.splits ping_round.splits)
next
  case (enter i s probe ch)
  then show ?thesis
    using assms(3) by (auto simp: unanswered_def update_conv' split: option.splits ping_round.splits)
next
  case (got i s ch probe t)
  then have "i \<noteq> r" using assms(3) by (auto simp: unanswered_def)
  moreover have "map_of (pw_rounds w) r = Some (Waiting s' ch p) \<Longrightarrow> i = r" for s' p
    using waiters_okD(4) [OF assms(2)] got(3) unfolding waits_def by metis
  ultimately show ?thesis
    using assms(3) got(2) by (auto simp: unanswered_def update_conv' split: option.splits ping_round.splits)
next
  case (give_up i s ch probe)
  then show ?thesis
    using assms(3) by (auto simp: unanswered_def update_conv' split: option.splits ping_round.splits)
next
  case (other ev g es)
  note st = agent_step_pong [OF other(3)]
  have "map_of (pw_chans w') ch = Some None"
    if r: "map_of (pw_rounds w) r = Some (Waiting seq ch p)" "map_of (pw_chans w) ch = Some None" for ch p
  proof -
    have "s = seq" if s: "map_of (ag_pingOut (pw_agent w)) s = Some ch" for s
      using waiters_okD(2) [OF assms(2) s] waiters_okD(4) [OF assms(2)] r(1) unfolding waits_def by metis
    then show ?thesis using r(2) st other(1,2) assms(4) by (auto simp: answer_lookup)
  qed
  then show ?thesis using assms(3) other(2) by (auto simp: unanswered_def split: option.splits ping_round.splits)
qed

lemma unanswered_run:
  "ping_run hapi api resolver unmarshal w tr w' \<Longrightarrow> waiters_ok w \<Longrightarrow> unanswered r seq w \<Longrightarrow>
   \<forall>l\<in>set tr. \<forall>t. snd l \<noteq> Some (seq, t) \<Longrightarrow> unanswered r seq w'"
proof (induction rule: ping_run.induct)
  case (step tr w1 l w2)
  have "unanswered r seq w1" using step.IH step.prems by simp
  moreover have "waiters_ok w1" by (rule ping_run_waiters [OF step.hyps(1) step.prems(1)])
  moreover have "\<forall>t. snd l \<noteq> Some (seq, t)" using step.prems(3) by simp
  ultimately show ?case using unanswered_step [OF step.hyps(2)] by blast
qed

section \<open>Properties\<close>



text \<open>C35: Pings leak nothing and measure pongs. In every history of an agent, however its rounds of
  pings interleave with each other and with everything it receives, each entry of the table of
  waiters belongs to a round that still waits, so the table is empty when none does; and a
  round that ends with a time was ended by a pong with the sequence number it had sent, handled
  at that time.\<close>

theorem pings_leak_nothing_and_measure_pongs:
  assumes "ping_run hapi api resolver unmarshal (idle_world g) tr w"
  shows "(\<forall>seq\<in>dom (map_of (ag_pingOut (pw_agent w))). \<exists>r. \<exists>ch probe.
            map_of (pw_rounds w) r = Some (Waiting seq ch probe))
     \<and> (\<forall>r t. map_of (pw_rounds w) r = Some (Ended (Some t)) \<longrightarrow>
          (\<exists>seq probe ev. (LSend r seq probe, None) \<in> set tr \<and> (LAgent ev, Some (seq, t)) \<in> set tr))"
proof -
  have "waiters_ok w" "rounds_logged tr w"
    using ping_run_logged [OF assms idle_waiters] by (simp_all add: idle_world_def)
  moreover have "\<exists>seq probe ev. (LSend r seq probe, None) \<in> set tr \<and> (LAgent ev, Some (seq, t)) \<in> set tr"
    if "map_of (pw_rounds w) r = Some (Ended (Some t))" for r t
    using rounds_loggedD [OF \<open>rounds_logged tr w\<close> that] by (auto simp: round_logged_def sent_log_def ponged_def)
  moreover have "\<exists>r. \<exists>ch probe. map_of (pw_rounds w) r = Some (Waiting seq ch probe)"
    if "seq \<in> dom (map_of (ag_pingOut (pw_agent w)))" for seq
    using waiters_okD(2) [OF \<open>waiters_ok w\<close>] that unfolding waits_def by blast
  ultimately show ?thesis by blast
qed

text \<open>A pong can come too early. \<open>Ping\<close> and \<open>ProbeRTT\<close> send the ping before they enter its
  waiter; when the pong is handled in between, the round is never answered by it: in every
  continuation without a second pong of that number it does not end with a time.\<close>

theorem early_pong_is_lost:
  assumes "ping_run hapi api resolver unmarshal (idle_world g) tr w0"
    and "map_of (pw_rounds w0) r = Some (Sent seq probe)"
    and "ping_step hapi api resolver unmarshal (LAgent ev, Some (seq, t)) w0 w1"
    and "ping_run hapi api resolver unmarshal w1 tr' w2" "\<forall>l\<in>set tr'. \<forall>t. snd l \<noteq> Some (seq, t)"
  shows "map_of (pw_rounds w2) r \<noteq> Some (Ended (Some t'))"
proof -
  have ok: "waiters_ok w0" by (rule ping_run_waiters [OF assms(1) idle_waiters])
  have "unanswered r seq w1"
    using assms(3,2) by cases (auto simp: unanswered_def)
  then have "unanswered r seq w2"
    by (rule unanswered_run [OF assms(4) ping_step_waiters [OF assms(3) ok] _ assms(5)])
  then show ?thesis by (auto simp: unanswered_def)
qed

section \<open>Witnesses\<close>

text \<open>An agent with one peer that has sent a pong with number 7, and the worlds of a round with it.\<close>

definition demo_pong :: "bytes \<Rightarrow> ping_msg option" where
  "demo_pong b = Some \<lparr>pm_Cmd = lit ''pong'', pm_S = 7, pm_Ts = 0\<rparr>"

definition ponging :: "(demo_hs, nat \<times> u64) agent" where
  "ponging = (demo_agent 1)\<lparr>ag_peers := [([2], demo_p3\<lparr>p_recv := [[123]]\<rparr>)]\<rparr>"

abbreviation demo_ping_step where
  "demo_ping_step \<equiv> ping_step demo_hapi demo_api demo_resolver demo_pong"

abbreviation demo_ping_run where
  "demo_ping_run \<equiv> ping_run demo_hapi demo_api demo_resolver demo_pong"

lemma demo_pong_in:
  "map_of (ag_peers g) [2] = Some (demo_p3\<lparr>p_recv := [[123]]\<rparr>) \<Longrightarrow> ag_bridge g = None \<Longrightarrow>
   pong_in demo_pong (AgPayload [2] 9 True True) g = Some (7, 9)"
  by (simp add: pong_in_def decodePingMsg_def demo_pong_def)

lemma demo_pong_step:
  assumes "ag_peers g = [([2], demo_p3\<lparr>p_recv := [[123]]\<rparr>)]" "ag_bridge g = None"
  shows "agent_step demo_hapi demo_api demo_resolver demo_pong (AgPayload [2] 9 True True) g
     = Some (put_peer [2] (demo_p3\<lparr>p_recv := []\<rparr>) (g\<lparr>ag_pingOut := AList.delete 7 (ag_pingOut g)\<rparr>),
         case map_of (ag_pingOut g) 7 of None \<Rightarrow> [] | Some ch \<Rightarrow> [WakePing ch 9])"
  using assms
  by (simp add: handlePeerPayload_def decodePingMsg_def demo_pong_def dispatchPing_def lit_def)

lemma ponging_fields [simp]: "ag_peers ponging = [([2], demo_p3\<lparr>p_recv := [[123]]\<rparr>)]" "ag_bridge ponging = None"
  by (simp_all add: ponging_def)

lemma demo_sent: "demo_ping_run (idle_world ponging) [(LSend 0 7 False, None)]
    \<lparr>pw_agent = ponging\<lparr>ag_pingOut := []\<rparr>, pw_chans = [], pw_rounds = [(0, Sent 7 False)]\<rparr>"
proof -
  have "demo_ping_step (LSend 0 7 False, None) (idle_world ponging)
      \<lparr>pw_agent = ponging\<lparr>ag_pingOut := []\<rparr>, pw_chans = [], pw_rounds = [(0, Sent 7 False)]\<rparr>"
    using ping_step.send [of "idle_world ponging" 0 demo_hapi demo_api demo_resolver demo_pong 7 False]
    by (simp add: idle_world_def)
  from ping_run.step [OF ping_run.start this] show ?thesis by simp
qed

lemma demo_entered: "map_of (pw_rounds w) 0 = Some (Sent 7 False) \<Longrightarrow> pw_chans w = [] \<Longrightarrow> pw_rounds w = [(0, Sent 7 False)] \<Longrightarrow>
   demo_ping_step (LEnter 0 5, None) w (w\<lparr>pw_agent := registerPing 7 5 (pw_agent w), pw_chans := [(5, None)],
      pw_rounds := [(0, Waiting 7 5 False)]\<rparr>)"
  using ping_step.enter [of w 0 7 False 5 demo_hapi demo_api demo_resolver demo_pong] by simp

theorem pings_leak_nothing_and_measure_pongs_witness:
  "\<exists>tr w. demo_ping_run (idle_world ponging) tr w \<and> map_of (pw_rounds w) 0 = Some (Ended (Some 9))
     \<and> (\<exists>seq probe ev. (LSend 0 seq probe, None) \<in> set tr \<and> (LAgent ev, Some (seq, 9)) \<in> set tr)"
proof -
  let ?g = "registerPing 7 5 (ponging\<lparr>ag_pingOut := []\<rparr>)"
  let ?w = "\<lparr>pw_agent = ?g, pw_chans = [(5, None)], pw_rounds = [(0, Waiting 7 5 False)]\<rparr>"
  let ?h = "put_peer [2] (demo_p3\<lparr>p_recv := []\<rparr>) (?g\<lparr>ag_pingOut := []\<rparr>)"
  have w: "demo_ping_run (idle_world ponging) ([(LSend 0 7 False, None)] @ [(LEnter 0 5, None)]) ?w"
    by (rule ping_run.step [OF demo_sent]) (use demo_entered [of "\<lparr>pw_agent = ponging\<lparr>ag_pingOut := []\<rparr>,
      pw_chans = [], pw_rounds = [(0, Sent 7 False)]\<rparr>"] in simp)
  have g: "ag_peers ?g = [([2], demo_p3\<lparr>p_recv := [[123]]\<rparr>)]" "ag_bridge ?g = None" "ag_pingOut ?g = [(7, 5)]"
    by (simp_all add: registerPing_def)
  have "agent_step demo_hapi demo_api demo_resolver demo_pong (AgPayload [2] 9 True True) (pw_agent ?w)
      = Some (?h, [WakePing 5 9])"
    using demo_pong_step [OF g(1,2)] by (simp add: g(3) del: agent_step.simps)
  note p = ping_step.other [OF this]
  have p1: "demo_ping_step (LAgent (AgPayload [2] 9 True True), Some (7, 9)) ?w
      (?w\<lparr>pw_agent := ?h, pw_chans := [(5, Some 9)]\<rparr>)"
    using p g by (simp add: demo_pong_in wake_chan_def)
  have p2: "demo_ping_step (LGot 0, None) (?w\<lparr>pw_agent := ?h, pw_chans := [(5, Some 9)]\<rparr>)
      \<lparr>pw_agent = ?h, pw_chans = [(5, None)], pw_rounds = [(0, Ended (Some 9))]\<rparr>"
    using ping_step.got [of "?w\<lparr>pw_agent := ?h, pw_chans := [(5, Some 9)]\<rparr>" 0 7 5 False 9
        demo_hapi demo_api demo_resolver demo_pong] by simp
  note run = ping_run.step [OF ping_run.step [OF w p1] p2]
  have "map_of (pw_rounds \<lparr>pw_agent = ?h, pw_chans = [(5, None)], pw_rounds = [(0, Ended (Some 9))]\<rparr>) 0 = Some (Ended (Some 9))"
    by simp
  with pings_leak_nothing_and_measure_pongs [OF run] run show ?thesis by blast
qed

theorem early_pong_is_lost_witness:
  "\<exists>tr w1 w2. demo_ping_step (LAgent (AgPayload [2] 9 True True), Some (7, 9))
       \<lparr>pw_agent = ponging\<lparr>ag_pingOut := []\<rparr>, pw_chans = [], pw_rounds = [(0, Sent 7 False)]\<rparr> w1
     \<and> demo_ping_run w1 tr w2 \<and> map_of (pw_rounds w2) 0 \<noteq> Some (Ended (Some 9))"
proof -
  let ?w = "\<lparr>pw_agent = ponging\<lparr>ag_pingOut := []\<rparr>, pw_chans = [], pw_rounds = [(0, Sent 7 False)]\<rparr>"
  let ?h = "put_peer [2] (demo_p3\<lparr>p_recv := []\<rparr>) (ponging\<lparr>ag_pingOut := []\<rparr>)"
  have g: "ag_peers (ponging\<lparr>ag_pingOut := []\<rparr>) = [([2], demo_p3\<lparr>p_recv := [[123]]\<rparr>)]"
    "ag_bridge (ponging\<lparr>ag_pingOut := []\<rparr>) = None" by simp_all
  have "agent_step demo_hapi demo_api demo_resolver demo_pong (AgPayload [2] 9 True True) (pw_agent ?w) = Some (?h, [])"
    using demo_pong_step [OF g] by (simp del: agent_step.simps)
  note p = ping_step.other [OF this]
  have p1: "demo_ping_step (LAgent (AgPayload [2] 9 True True), Some (7, 9)) ?w (?w\<lparr>pw_agent := ?h\<rparr>)"
    using p g by (simp add: demo_pong_in)
  have "demo_ping_step (LEnter 0 5, None) (?w\<lparr>pw_agent := ?h\<rparr>)
      (?w\<lparr>pw_agent := registerPing 7 5 ?h, pw_chans := [(5, None)], pw_rounds := [(0, Waiting 7 5 False)]\<rparr>)"
    using demo_entered [of "?w\<lparr>pw_agent := ?h\<rparr>"] by simp
  note run = ping_run.step [OF ping_run.start this]
  have r: "map_of (pw_rounds ?w) 0 = Some (Sent 7 False)" by simp
  show ?thesis
    by (intro exI conjI, rule p1, rule run, rule early_pong_is_lost [OF demo_sent r p1 run]) simp
qed

end
