(* ===== verification/Overlay.thy ===== *)
theory Overlay
  imports Peer_Link Agent_Ping
begin

text \<open>
  What the mesh carries between two agents with an established pair of peers on the direct path:
  packets from tunnel device to tunnel device, and pings there and back.
\<close>

section \<open>Agents at the ends\<close>

text \<open>
  A datagram from the address \<open>src\<close> is for the peer \<open>pid\<close>: the address is not the agent's relay's,
  and the first peer whose endpoint has the text of the address is \<open>pid\<close>. An agent behind no box
  hears it as it comes.
\<close>

definition attends :: "('h, 'c) agent \<Rightarrow> UDPAddr \<Rightarrow> gostring \<Rightarrow> bool" where
  "attends g src pid \<longleftrightarrow>
     \<not> (ag_relay g \<noteq> None \<and> UDPAddr_String (Some src) = UDPAddr_String (ag_relay g))
     \<and> map_option fst (find (\<lambda>(_, p). DirectEndpoint p \<noteq> None
          \<and> UDPAddr_String (Some src) = UDPAddr_String (DirectEndpoint p)) (ag_peers g)) = Some pid"

definition hears :: "('h, 'c) agent \<Rightarrow> UDPAddr \<Rightarrow> gostring \<Rightarrow> bool" where
  "hears g src pid \<longleftrightarrow> ag_door g = None \<and> attends g src pid"

lemma attends_matches: "attends g src pid \<Longrightarrow> matchPeer g src f = Some (pid, f)"
  by (auto simp: attends_def matchPeer_def split: option.splits)

lemma find_update:
  "map_of m i = Some p \<Longrightarrow> f p' = f p \<Longrightarrow>
   map_option fst (find (\<lambda>(_, p). P (f p)) (AList.update i p' m)) = map_option fst (find (\<lambda>(_, p). P (f p)) m)"
  by (induction m) (auto split: if_splits)

lemma attends_put_peer:
  assumes "attends g src pid" "map_of (ag_peers g) i = Some p" "p_DirectEP p' = p_DirectEP p"
  shows "attends (put_peer i p' g) src pid"
  using assms find_update [of "ag_peers g" i p p_DirectEP p' "\<lambda>ep. ep \<noteq> None \<and> UDPAddr_String (Some src) = UDPAddr_String ep"]
  by (simp add: attends_def DirectEndpoint_def)

lemma hears_put_peer:
  "hears g src pid \<Longrightarrow> map_of (ag_peers g) i = Some p \<Longrightarrow> p_DirectEP p' = p_DirectEP p \<Longrightarrow> hears (put_peer i p' g) src pid"
  by (simp add: hears_def attends_put_peer)

lemma agent_hears:
  assumes "hears b ea pa" "map_of (ag_peers b) pa = Some q"
    and "HandleFrame hapi api (ag_relay b) rnd t (Some ea) f q = Some (q', [Accepted n m])"
  shows "receiveDatagram hapi api resolver rnd t ea f b = Some (put_peer pa q' b, [])"
  using assms attends_matches [of b ea pa f]
  by (simp add: receiveDatagram_def openEnvelope_def hears_def put_peer_def transmits_def transmit_def)

text \<open>
  One message from agent to agent: the sender's peer seals it in a datagram to the other's
  endpoint, and the receiver's peer queues it. Both directions stay as they were otherwise.
\<close>

lemma message_crosses:
  assumes laws: "cipher_laws api seal opn rk" and exp: "expansion_law api"
    and q: "map_of (ag_peers b) na = Some q"
    and link: "linked api rk k0 p q n" "n \<le> MaxNonce" and path: "p_path p = PathDirect" "p_DirectEP p = Some eb"
    and a: "ag_door a = None" and b: "hears b ea na" "p_recv q = []"
    and m: "m \<noteq> []" "length m \<le> maxPlaintextLen"
  obtains p' q' f where
    "SendPeer api now True m p = Some (None, p', [SendDirect eb f])"
    "transmits a [SendDirect eb f] = [WriteUDP eb f]"
    "\<forall>rnd t. receiveDatagram hapi api resolver rnd t ea f b = Some (put_peer na q' b, [])"
    "linked api rk k0 p' q' (n + 1)" "lag q' (n + 1) 0"
    "\<And>c. lag q n c \<Longrightarrow> lag q (n + 1) (c + 1) \<and> (c + 1 < max_lost \<longrightarrow> linked api rk k0 p' q (n + 1))"
    "\<And>k n'. linked api rk k q p n' \<Longrightarrow> linked api rk k q' p' n'"
    "p_recv q' = [m]" "p_recv p' = p_recv p" "p_path p' = p_path p" "p_DirectEP p' = p_DirectEP p"
    "p_path q' = p_path q" "p_DirectEP q' = p_DirectEP q"
proof -
  have fit: "fits p m" using m path by (simp add: fits_def)
  obtain p' q' f where d:
    "SendPeer api now True m p = Some (None, p', [wire (p_path p) (p_ID p) (the (p_DirectEP p)) f])"
    "\<And>relay rnd t src. HandleFrame hapi api relay rnd t src f q = Some (q', [Accepted n m])"
    "linked api rk k0 p' q' (n + 1)" "lag q' (n + 1) 0"
    "\<And>c. lag q n c \<Longrightarrow> lag q (n + 1) (c + 1) \<and> (c + 1 < max_lost \<longrightarrow> linked api rk k0 p' q (n + 1))"
    "\<And>k n'. linked api rk k q p n' \<Longrightarrow> linked api rk k q' p' n'"
    "p_path p' = p_path p" "p_DirectEP p' = p_DirectEP p" "p_recv p' = p_recv p"
    "p_path q' = p_path q" "p_DirectEP q' = p_DirectEP q"
    "p_recv q' = (if m \<noteq> [] \<and> length (p_recv q) < recvBuffer then p_recv q @ [m] else p_recv q)"
    by (rule linked_delivery [OF laws exp link fit, where now = now and hapi = hapi]) (rule that; (assumption | blast))
  show thesis
  proof (rule that)
    show "SendPeer api now True m p = Some (None, p', [SendDirect eb f])" using d(1) path by (simp add: wire_def)
    show "transmits a [SendDirect eb f] = [WriteUDP eb f]"
      using a by (simp add: transmits_def transmit_def SendDirect_agent_def sendDatagram_def)
    show "\<forall>rnd t. receiveDatagram hapi api resolver rnd t ea f b = Some (put_peer na q' b, [])"
      by (intro allI agent_hears [OF b(1) q d(2)])
    show "p_recv q' = [m]" using d(12) m b(2) by (simp add: recvBuffer_def)
  qed (use d in auto)
qed

section \<open>Tunnel packets\<close>

lemma ipv4_first_byte: "parseIPv4 pkt = Some x \<Longrightarrow> pkt \<noteq> [] \<and> hd pkt \<noteq> 123"
  by (cases pkt) (auto simp: parseIPv4_def split: if_splits)

text \<open>
  What the two agents have when the tunnel between them is up: \<open>a\<close> routes by \<open>R\<close> and its peer for
  \<open>nb\<close> is linked at \<open>n\<close> with the drained peer that \<open>b\<close> has for \<open>na\<close>, on the direct path to \<open>eb\<close>; \<open>b\<close>
  has missed at most \<open>c\<close> messages in a row.
\<close>

definition tunnel_up ::
    "('c, 'k) cipher_api \<Rightarrow> ('k \<Rightarrow> 'k) \<Rightarrow> 'k \<Rightarrow> gostring \<Rightarrow> UDPAddr \<Rightarrow> gostring \<Rightarrow> UDPAddr \<Rightarrow> (netip \<Rightarrow> gostring option)
     \<Rightarrow> int \<Rightarrow> nat \<Rightarrow> u64 \<Rightarrow> ('h, 'c) agent \<times> ('h, 'c) agent \<Rightarrow> bool" where
  "tunnel_up api rk k0 na ea nb eb R mtu c n ab \<longleftrightarrow>
     (case ab of (a, b) \<Rightarrow> \<exists>p q ba bb.
        map_of (ag_peers a) nb = Some p \<and> ag_door a = None \<and> ag_bridge a = Some ba \<and> r_routes (b_router ba) = R
      \<and> map_of (ag_peers b) na = Some q \<and> hears b ea na \<and> ag_bridge b = Some bb \<and> b_mtu bb = mtu \<and> p_recv q = []
      \<and> linked api rk k0 p q n \<and> lag q n c \<and> p_path p = PathDirect \<and> p_DirectEP p = Some eb)"

text \<open>A packet that the tunnel carries: IPv4, to an address of \<open>nb\<close>, and of a size both devices take.\<close>

definition carriable :: "(netip \<Rightarrow> gostring option) \<Rightarrow> gostring \<Rightarrow> int \<Rightarrow> bytes \<Rightarrow> bool" where
  "carriable R nb mtu pkt \<longleftrightarrow> (case parseIPv4 pkt of None \<Rightarrow> False | Some (_, dst) \<Rightarrow> R dst = Some nb)
     \<and> int (length pkt) \<le> mtu \<and> length pkt \<le> maxPlaintextLen"

text \<open>
  One packet end to end: read from \<open>a\<close>'s device, sent, received by \<open>b\<close> from the address \<open>ea\<close>, and
  taken from the peer's queue by \<open>b\<close>'s payload loop. The result has what \<open>b\<close> does with it. When the
  network loses the datagram, nothing happens at \<open>b\<close>.
\<close>

definition carry ::
    "('h, 'c, 'r) handshake_api \<Rightarrow> ('c, 'k) cipher_api \<Rightarrow> (gostring \<Rightarrow> UDPAddr option) \<Rightarrow> (bytes \<Rightarrow> ping_msg option)
     \<Rightarrow> 'r \<Rightarrow> gotime \<Rightarrow> gostring \<Rightarrow> UDPAddr \<Rightarrow> bytes \<times> bool \<Rightarrow> ('h, 'c) agent \<times> ('h, 'c) agent
     \<Rightarrow> ((('h, 'c) agent \<times> ('h, 'c) agent) \<times> bool \<times> agent_effect list) option" where
  "carry hapi api resolver unmarshal rnd now na ea x ab =
     (case x of (pkt, arrives) \<Rightarrow>
        (case tunnelPacket api now True pkt (fst ab) of
           Some (a, [WriteUDP _ f]) \<Rightarrow>
             if \<not> arrives then Some ((a, snd ab), False, [])
             else (case receiveDatagram hapi api resolver rnd now ea f (snd ab) of
                     Some (b, []) \<Rightarrow> map_option (\<lambda>(b, es). ((a, b), True, es))
                                       (agent_step hapi api resolver unmarshal (AgPayload na now True True) b)
                   | _ \<Rightarrow> None)
         | _ \<Rightarrow> None))"

text \<open>The two ends of a packet's way: from the device to the peer, and from the peer's queue to the device.\<close>

lemma device_to_peer:
  assumes "map_of (ag_peers a) nb = Some p" "ag_bridge a = Some ba" "parseIPv4 pkt = Some (src, dst)"
    and "r_routes (b_router ba) dst = Some nb" "SendPeer api now True pkt p = Some (None, p', es)"
  shows "\<exists>a' ba'. tunnelPacket api now True pkt a = Some (a', transmits a es) \<and> map_of (ag_peers a') nb = Some p'
     \<and> ag_door a' = ag_door a \<and> ag_relay a' = ag_relay a \<and> ag_Name a' = ag_Name a
     \<and> ag_bridge a' = Some ba' \<and> r_routes (b_router ba') = r_routes (b_router ba)"
  using assms by (simp add: tunnelPacket_def RoutePacket_def sinkSend_def)

lemma queue_to_device:
  assumes "map_of (ag_peers b) na = Some q" "p_recv q = [pkt]" "pkt \<noteq> []" "hd pkt \<noteq> 123"
    and "ag_bridge b = Some bb" "int (length pkt) \<le> b_mtu bb"
  shows "agent_step hapi api resolver unmarshal (AgPayload na now True True) b
    = Some (put_peer na (q\<lparr>p_recv := []\<rparr>) b, [WriteTun pkt])"
  using assms by (simp add: handlePeerPayload_def inbound_def)

lemma tunnel_packet_carried:
  assumes laws: "cipher_laws api seal opn rk" "expansion_law api"
    and up: "tunnel_up api rk k0 na ea nb eb R mtu c n ab" and n: "n \<le> MaxNonce" and pkt: "carriable R nb mtu pkt"
    and arrives: "arrives \<or> c + 1 < max_lost"
  shows "\<exists>ab'. carry hapi api resolver unmarshal rnd now na ea (pkt, arrives) ab
       = Some (ab', arrives, if arrives then [WriteTun pkt] else [])
     \<and> tunnel_up api rk k0 na ea nb eb R mtu (if arrives then 0 else c + 1) (n + 1) ab'"
proof -
  obtain a b p q ba bb where ab: "ab = (a, b)"
    and a: "map_of (ag_peers a) nb = Some p" "ag_door a = None" "ag_bridge a = Some ba" "r_routes (b_router ba) = R"
    and b: "map_of (ag_peers b) na = Some q" "hears b ea na" "ag_bridge b = Some bb" "p_recv q = []" "b_mtu bb = mtu"
    and link: "linked api rk k0 p q n" "p_path p = PathDirect" "p_DirectEP p = Some eb" "lag q n c"
    using up by (auto simp: tunnel_up_def)
  obtain src dst where dst: "parseIPv4 pkt = Some (src, dst)" "R dst = Some nb"
    and len: "int (length pkt) \<le> mtu" "length pkt \<le> maxPlaintextLen"
    using pkt by (auto simp: carriable_def split: option.splits)
  have hd: "pkt \<noteq> []" "hd pkt \<noteq> 123" using ipv4_first_byte [OF dst(1)] by auto
  obtain p' q' f where m: "SendPeer api now True pkt p = Some (None, p', [SendDirect eb f])"
    "transmits a [SendDirect eb f] = [WriteUDP eb f]"
    "\<forall>rnd t. receiveDatagram hapi api resolver rnd t ea f b = Some (put_peer na q' b, [])"
    "linked api rk k0 p' q' (n + 1)" "lag q' (n + 1) 0"
    "\<And>c. lag q n c \<Longrightarrow> lag q (n + 1) (c + 1) \<and> (c + 1 < max_lost \<longrightarrow> linked api rk k0 p' q (n + 1))"
    "p_recv q' = [pkt]" "p_path p' = p_path p" "p_DirectEP p' = p_DirectEP p" "p_DirectEP q' = p_DirectEP q"
    by (rule message_crosses [OF laws b(1) link(1) n link(2,3) a(2) b(2,4) hd(1) len(2),
          where now = now and hapi = hapi and resolver = resolver])
       (rule that; (assumption | blast))
  obtain a' where a': "tunnelPacket api now True pkt a = Some (a', [WriteUDP eb f])" "map_of (ag_peers a') nb = Some p'"
    "ag_door a' = None" "\<exists>ba'. ag_bridge a' = Some ba' \<and> r_routes (b_router ba') = R"
    using device_to_peer [OF a(1,3) dst(1) _ m(1)] a(2,4) dst(2) m(2) by auto
  let ?b = "put_peer na (q'\<lparr>p_recv := []\<rparr>) (put_peer na q' b)"
  have "agent_step hapi api resolver unmarshal (AgPayload na now True True) (put_peer na q' b)
      = Some (?b, [WriteTun pkt])"
    by (rule queue_to_device [where bb = bb]) (use hd b(3,5) len m(7) in simp_all)
  moreover have "hears ?b ea na"
    using hears_put_peer [OF hears_put_peer [OF b(2,1) m(10)], of na q' "q'\<lparr>p_recv := []\<rparr>"] by simp
  moreover have "linked api rk k0 p' (q'\<lparr>p_recv := []\<rparr>) (n + 1)" "lag (q'\<lparr>p_recv := []\<rparr>) (n + 1) 0"
    using m(4,5) by (simp_all add: linked_def)
  ultimately have "carry hapi api resolver unmarshal rnd now na ea (pkt, True) ab = Some ((a', ?b), True, [WriteTun pkt])"
    "tunnel_up api rk k0 na ea nb eb R mtu 0 (n + 1) (a', ?b)"
    using a' b(3,5) m(3,8,9) link(2,3) by (auto simp: carry_def tunnel_up_def ab)
  moreover have "carry hapi api resolver unmarshal rnd now na ea (pkt, False) ab = Some ((a', b), False, [])
      \<and> tunnel_up api rk k0 na ea nb eb R mtu (c + 1) (n + 1) (a', b)" if "c + 1 < max_lost"
    using a' b m(6) [OF link(4)] that m(8,9) link(2,3) by (auto simp: carry_def tunnel_up_def ab)
  ultimately show ?thesis using arrives by (cases arrives) auto
qed

text \<open>The direct path is a link that loses what the network loses.\<close>

interpretation direct: scheduled_link "carry hapi api resolver unmarshal rnd now na ea"
    "\<lambda>c n ab. cipher_laws api seal opn rk \<and> expansion_law api \<and> tunnel_up api rk k0 na ea nb eb R mtu c n ab"
    "\<lambda>x. carriable R nb mtu (fst x)" "\<lambda>x. WriteTun (fst x)" max_lost snd
  for hapi :: "('h, 'c, 'r) handshake_api" and api resolver unmarshal rnd now na ea seal opn rk k0 nb eb R mtu
proof unfold_locales
  fix c n x and ab :: "('h, 'c) agent \<times> ('h, 'c) agent"
  assume "cipher_laws api seal opn rk \<and> expansion_law api \<and> tunnel_up api rk k0 na ea nb eb R mtu c n ab"
    "unat n < 18446744073709551615" "carriable R nb mtu (fst x)" "snd x \<or> c + 1 < max_lost"
  then show "\<exists>ab'. carry hapi api resolver unmarshal rnd now na ea x ab
        = Some (ab', snd x, if snd x then [WriteTun (fst x)] else [])
      \<and> cipher_laws api seal opn rk \<and> expansion_law api
      \<and> tunnel_up api rk k0 na ea nb eb R mtu (if snd x then 0 else c + 1) (n + 1) ab'"
    using tunnel_packet_carried [of api seal opn rk k0 na ea nb eb R mtu c n ab "fst x" "snd x" hapi resolver unmarshal rnd now]
    by (simp add: word_le_nat_alt)
qed

text \<open>C6: The overlay carries packets unchanged and in order over a network that loses datagrams. While
  the tunnel between two agents is up on the direct path, IPv4 packets that one reads from its device
  for an address of the other come out of the other's device, each whose datagram is delivered exactly once, in the
  order read and byte for byte the same, and nothing else does. This holds over any number of packets that the session's
  nonces last for, whatever is lost, as long as less than 64 intervals of the rekeying are lost in a
  row, and the tunnel stays up for the next packet.\<close>

theorem overlay_carries_packets:
  assumes "cipher_laws api seal opn rk" "expansion_law api"
    and "tunnel_up api rk k0 na ea nb eb R mtu c n ab"
    and "unat n + length xs \<le> 18446744073709551615" "\<forall>x\<in>set xs. carriable R nb mtu (fst x)"
    and "spared max_lost c (map snd xs)"
  shows "\<exists>ab' c'. link_run (carry hapi api resolver unmarshal rnd now na ea) xs ab
       = Some (ab', map snd xs, map (\<lambda>x. WriteTun (fst x)) (filter snd xs))
     \<and> tunnel_up api rk k0 na ea nb eb R mtu c' (n + of_nat (length xs)) ab'"
  using direct.run_scheduled [OF conjI [OF assms(1) conjI [OF assms(2,3)]] assms(4-6), of hapi resolver unmarshal rnd now]
  by blast

section \<open>Pings\<close>

lemma linked_recv [simp]: "linked api rk k (p\<lparr>p_recv := x\<rparr>) q n = linked api rk k p q n"
  "linked api rk k p (q\<lparr>p_recv := x\<rparr>) n = linked api rk k p q n"
  by (simp_all add: linked_def)

lemma Itoa_length: "\<bar>i\<bar> < 10 ^ 20 \<Longrightarrow> length (Itoa i) \<le> 21"
  using dec_length [of "nat i" 20] dec_length [of "nat (- i)" 20] by (auto simp: Itoa_def nat_less_iff)

lemma json_ping_small: "pm_Cmd m = lit ''ping'' \<or> pm_Cmd m = lit ''pong'' \<Longrightarrow> \<bar>pm_Ts m\<bar> < 10 ^ 19 \<Longrightarrow>
  json_ping m \<noteq> [] \<and> hd (json_ping m) = 123 \<and> length (json_ping m) \<le> maxPlaintextLen"
proof -
  assume m: "pm_Cmd m = lit ''ping'' \<or> pm_Cmd m = lit ''pong''" "\<bar>pm_Ts m\<bar> < 10 ^ 19"
  have "uint (pm_S m) < 10 ^ 20" using uint_bounded [of "pm_S m"] by (rule less_le_trans) simp
  then have "length (Itoa (uint (pm_S m))) \<le> 21" "length (Itoa (pm_Ts m)) \<le> 21"
    using m(2) by (auto intro: Itoa_length)
  moreover have "length (json_string (pm_Cmd m)) = 6"
    using m(1) by (auto simp: json_string_def lit_def json_chars.simps escape_ascii_def)
  ultimately show ?thesis
    by (simp add: json_ping_def json_object_def join_def lit_def maxPlaintextLen_eq)
qed

text \<open>
  A ping under way from \<open>a\<close>, and what its events do when nothing is lost: the ping, its arrival,
  the answer from the other agent's payload loop, the arrival of that, and the pong handled.
\<close>

definition ping_events ::
    "('h, 'c, 'r) handshake_api \<Rightarrow> ('c, 'k) cipher_api \<Rightarrow> (gostring \<Rightarrow> UDPAddr option) \<Rightarrow> (bytes \<Rightarrow> ping_msg option)
     \<Rightarrow> 'r \<Rightarrow> gotime list \<Rightarrow> gostring \<Rightarrow> UDPAddr \<Rightarrow> gostring \<Rightarrow> UDPAddr \<Rightarrow> ping_msg \<Rightarrow> ('h, 'c) agent \<times> ('h, 'c) agent
     \<Rightarrow> (('h, 'c) agent \<times> agent_effect list) option" where
  "ping_events hapi api resolver unmarshal rnd t na ea nb eb m ab =
     (case agent_step hapi api resolver unmarshal (AgPeer nb (EvSend (json_ping m) (t ! 0) True)) (fst ab) of
        Some (a, [WriteUDP _ f]) \<Rightarrow>
          (case agent_run hapi api resolver unmarshal [AgDatagram ea f rnd (t ! 1), AgPayload na (t ! 2) True True] (snd ab) of
             Some (_, [WriteUDP _ g]) \<Rightarrow>
               agent_run hapi api resolver unmarshal [AgDatagram eb g rnd (t ! 3), AgPayload nb (t ! 4) True True] a
           | _ \<Rightarrow> None)
      | _ \<Rightarrow> None)"

text \<open>What an agent has of its peer \<open>i\<close> at the address \<open>e\<close>.\<close>

definition meets :: "('h, 'c) agent \<Rightarrow> gostring \<Rightarrow> UDPAddr \<Rightarrow> ('h, 'c) peer \<Rightarrow> bool" where
  "meets g i e p \<longleftrightarrow> map_of (ag_peers g) i = Some p \<and> hears g e i
     \<and> p_path p = PathDirect \<and> p_DirectEP p = Some e \<and> p_recv p = []"

lemma hears_door: "hears g src i \<Longrightarrow> ag_door g = None"
  by (simp add: hears_def)

text \<open>C7: A ping is answered. When two agents have sessions for each other on the direct path and
  no datagram is lost, a ping that one sends makes the other's payload loop send back exactly one datagram,
  and that datagram wakes the channel waiting under the ping's sequence number, once, with the time
  of its arrival, and the waiter is dropped; on both sides this holds with a tunnel attached or without.\<close>

theorem ping_is_answered:
  assumes laws: "cipher_laws api seal opn rk" "expansion_law api"
    and a: "meets a nb eb p" "linked api rk k p q n" "n \<le> MaxNonce"
    and b: "meets b na ea q" "linked api rk k' q p n'" "n' \<le> MaxNonce"
    and m: "pm_Cmd m = lit ''ping''" "\<bar>pm_Ts m\<bar> < 10 ^ 19"
    and json: "unmarshal (json_ping m) = Some m"
      "unmarshal (json_ping (m\<lparr>pm_Cmd := lit ''pong''\<rparr>)) = Some (m\<lparr>pm_Cmd := lit ''pong''\<rparr>)"
    and ch: "map_of (ag_pingOut a) (pm_S m) = Some ch"
  shows "\<exists>a'. ping_events hapi api resolver unmarshal rnd t na ea nb eb m (a, b) = Some (a', [WakePing ch (t ! 4)])
     \<and> map_of (ag_pingOut a') (pm_S m) = None"
proof -
  let ?m = "m\<lparr>pm_Cmd := lit ''pong''\<rparr>"
  have sm: "json_ping m \<noteq> []" "hd (json_ping m) = 123" "length (json_ping m) \<le> maxPlaintextLen"
    "json_ping ?m \<noteq> []" "hd (json_ping ?m) = 123" "length (json_ping ?m) \<le> maxPlaintextLen"
    using json_ping_small [of m] json_ping_small [of ?m] m by simp_all
  have A: "map_of (ag_peers a) nb = Some p" "hears a eb nb" "p_path p = PathDirect" "p_DirectEP p = Some eb" "p_recv p = []"
    and B: "map_of (ag_peers b) na = Some q" "hears b ea na" "p_path q = PathDirect" "p_DirectEP q = Some ea" "p_recv q = []"
    using a(1) b(1) by (simp_all add: meets_def)
  obtain p1 q1 f where f: "SendPeer api (t ! 0) True (json_ping m) p = Some (None, p1, [SendDirect eb f])"
    "transmits a [SendDirect eb f] = [WriteUDP eb f]"
    "\<forall>rnd t. receiveDatagram hapi api resolver rnd t ea f b = Some (put_peer na q1 b, [])"
    "\<And>k n'. linked api rk k q p n' \<Longrightarrow> linked api rk k q1 p1 n'"
    "p_recv q1 = [json_ping m]" "p_recv p1 = p_recv p" "p_path p1 = p_path p" "p_DirectEP p1 = p_DirectEP p"
    "p_path q1 = p_path q" "p_DirectEP q1 = p_DirectEP q"
    by (rule message_crosses [OF laws B(1) a(2,3) A(3,4) hears_door [OF A(2)] B(2,5) sm(1,3),
          where now = "t ! 0" and hapi = hapi and resolver = resolver])
       (rule that; (assumption | blast))
  let ?a1 = "put_peer nb p1 a"
  let ?b1 = "put_peer na q1 b"
  let ?q1 = "q1\<lparr>p_recv := []\<rparr>"
  have reply: "map_of (ag_peers ?a1) nb = Some p1" "linked api rk k' ?q1 p1 n'" "p_path ?q1 = PathDirect"
    "p_DirectEP ?q1 = Some ea" "ag_door ?b1 = None" "p_recv p1 = []"
    using f b(2) A(5) B(3,4) hears_door [OF B(2)] by simp_all
  obtain q2 p2 g where g: "SendPeer api (t ! 2) True (json_ping ?m) ?q1 = Some (None, q2, [SendDirect ea g])"
    "transmits ?b1 [SendDirect ea g] = [WriteUDP ea g]"
    "\<forall>rnd t. receiveDatagram hapi api resolver rnd t eb g ?a1 = Some (put_peer nb p2 ?a1, [])"
    "p_recv p2 = [json_ping ?m]"
    by (rule message_crosses [OF laws reply(1,2) b(3) reply(3-5) hears_put_peer [OF A(2,1) f(8)] reply(6) sm(4,6),
          where now = "t ! 2" and hapi = hapi and resolver = resolver])
       (rule that; assumption)
  have sent: "agent_step hapi api resolver unmarshal (AgPeer nb (EvSend (json_ping m) (t ! 0) True)) a = Some (?a1, [WriteUDP eb f])"
    using f(1,2) A(1) by simp
  have answered: "agent_run hapi api resolver unmarshal [AgDatagram ea f rnd (t ! 1), AgPayload na (t ! 2) True True] b
      = Some (put_peer na q2 ?b1, [WriteUDP ea g])"
    using f(3,5) g(1,2) sm(1,2) m(1) json(1)
    by (simp add: handlePeerPayload_def decodePingMsg_def dispatchPing_def SendJSON_def split: option.split)
  have woken: "\<exists>a'. agent_run hapi api resolver unmarshal [AgDatagram eb g rnd (t ! 3), AgPayload nb (t ! 4) True True] ?a1
      = Some (a', [WakePing ch (t ! 4)]) \<and> map_of (ag_pingOut a') (pm_S m) = None"
    using g(3,4) sm(4,5) json(2) ch
    by (simp add: handlePeerPayload_def decodePingMsg_def dispatchPing_def put_peer_def lit_def delete_conv' split: option.split)
  show ?thesis using sent answered woken by (simp add: ping_events_def del: agent_step.simps agent_run.simps)
qed

section \<open>Witnesses\<close>

text \<open>Agents 1 and 2 with a session between them and a tunnel, each behind an address of its own.\<close>

definition demo_near :: UDPAddr where "demo_near = demo_ep\<lparr>a_Port := 77\<rparr>"

definition demo_q3 :: "(demo_hs, nat \<times> u64) peer" where
  "demo_q3 = demo_p3\<lparr>p_ID := [1], p_DirectEP := Some demo_near,
     p_sess := Some (demo_s3\<lparr>s_send := Some (8, 0), s_recv := Some (7, 0)\<rparr>)\<rparr>"

definition demo_west :: "(demo_hs, nat \<times> u64) agent" where
  "demo_west = (demo_agent 1)\<lparr>ag_peers := [([2], demo_p3)], ag_pingOut := [(7, 5)],
     ag_bridge := Some (setPeerSink [2] (Some [2]) demo_bridge)\<rparr>"

definition demo_east :: "(demo_hs, nat \<times> u64) agent" where
  "demo_east = (demo_agent 2)\<lparr>ag_peers := [([1], demo_q3)], ag_bridge := Some demo_bridge\<rparr>"

lemma demo_ends: "p_path demo_p3 = PathDirect" "p_DirectEP demo_p3 = Some demo_ep" "p_recv demo_p3 = []"
  "p_path demo_q3 = PathDirect" "p_DirectEP demo_q3 = Some demo_near" "p_recv demo_q3 = []"
  by (simp_all add: demo_q3_def demo_p3_def demo_p2_def demo_p1_def newPeer_def)

lemma demo_linked: "linked demo_api Suc 7 demo_p3 demo_q3 0" "linked demo_api Suc 8 demo_q3 demo_p3 0"
  using tracks_default
  by (auto simp: linked_def demo_q3_def demo_p3_def demo_p2_def demo_p1_def newPeer_def demo_s3_def blank_session_def
      send_keyed_def recv_keyed_def demo_api_def on_schedule_def)

lemma demo_meets: "meets demo_west [2] demo_ep demo_p3" "meets demo_east [1] demo_near demo_q3"
  by (simp_all add: meets_def hears_def attends_def demo_ends DirectEndpoint_def demo_west_def demo_east_def)

lemma demo_up: "tunnel_up demo_api Suc 7 [1] demo_near [2] demo_ep
    (r_routes (b_router (setPeerSink [2] (Some [2]) demo_bridge))) 1500 0 0 (demo_west, demo_east)"
  using demo_linked(1) demo_meets
  by (auto simp: tunnel_up_def meets_def hears_door demo_west_def demo_east_def demo_bridge_def lag_def demo_q3_def)

theorem overlay_carries_packets_witness:
  "\<exists>ab'. link_run (carry demo_hapi demo_api demo_resolver (\<lambda>_. None) () 9 [1] demo_near)
       [(demo_packet 1, True), (demo_packet 1, False), (demo_packet 1, True)] (demo_west, demo_east)
     = Some (ab', [True, False, True], [WriteTun (demo_packet 1), WriteTun (demo_packet 1)])"
proof -
  have "carriable (r_routes (b_router (setPeerSink [2] (Some [2]) demo_bridge))) [2] 1500 (demo_packet 1)"
    using demo_owner [of 1] by (simp add: carriable_def owner_def demo_packet_parse maxPlaintextLen_eq) (simp add: demo_packet_def)
  moreover have "spared max_lost 0 [True, False, True]" by (simp add: max_lost_def)
  ultimately show ?thesis
    using overlay_carries_packets [OF demo_laws demo_expansion demo_up,
        of "[(demo_packet 1, True), (demo_packet 1, False), (demo_packet 1, True)]" demo_hapi demo_resolver "\<lambda>_. None" "()" 9]
    by fastforce
qed

definition demo_query :: ping_msg where
  "demo_query = \<lparr>pm_Cmd = lit ''ping'', pm_S = 7, pm_Ts = 3\<rparr>"

abbreviation demo_reply :: ping_msg where "demo_reply \<equiv> demo_query\<lparr>pm_Cmd := lit ''pong''\<rparr>"

definition demo_json :: "bytes \<Rightarrow> ping_msg option" where
  "demo_json b = (if b = json_ping demo_query then Some demo_query
     else if b = json_ping demo_reply then Some demo_reply else None)"

lemma demo_query_reply: "json_ping demo_reply \<noteq> json_ping demo_query"
  by (simp add: json_ping_def json_object_def join_def json_string_def json_chars.simps escape_ascii_def demo_query_def lit_def)

theorem ping_is_answered_witness:
  "\<exists>a'. ping_events demo_hapi demo_api demo_resolver demo_json () [1, 2, 3, 4, 5] [1] demo_near [2] demo_ep demo_query
     (demo_west, demo_east) = Some (a', [WakePing 5 5]) \<and> map_of (ag_pingOut a') 7 = None"
proof -
  have q: "pm_Cmd demo_query = lit ''ping''" "\<bar>pm_Ts demo_query\<bar> < 10 ^ 19" "pm_S demo_query = 7"
    by (simp_all add: demo_query_def)
  have j: "demo_json (json_ping demo_query) = Some demo_query" "demo_json (json_ping demo_reply) = Some demo_reply"
    using demo_query_reply by (simp_all add: demo_json_def)
  have c: "map_of (ag_pingOut demo_west) (pm_S demo_query) = Some 5" by (simp add: q(3) demo_west_def)
  show ?thesis
    using ping_is_answered [OF demo_laws demo_expansion demo_meets(1) demo_linked(1) _ demo_meets(2) demo_linked(2) _ q(1,2) j c,
        where t = "[1, 2, 3, 4, 5]" and rnd = "()" and hapi = demo_hapi and resolver = demo_resolver]
    by (simp add: q(3))
qed

end
