(* ===== verification/Relayed.thy ===== *)
theory Relayed
  imports Overlay Relay
begin

text \<open>
  The tunnel of two agents through the relay: each datagram passes the relay's handler, among the
  traffic of others, and comes out at the other agent's device if the relay sends it on.
\<close>

section \<open>A frame through the relay\<close>




section \<open>Packets through the relay\<close>







section \<open>Witness\<close>





end
