(* ===== verification/Punch.thy ===== *)
theory Punch
  imports Overlay Peer_Pair "HOL-Library.Monad_Syntax"
begin

text \<open>
  Hole punching: two agents, each behind a NAT box that filters what comes in, reach each other on
  the direct path. A datagram goes from one agent through the door of its box, over the public
  network to the other box and, if that admits it, in an envelope to the other agent.
\<close>

section \<open>Boxes with one public socket\<close>

text \<open>A full-cone or address-restricted box, with its private host and what it promises of a socket.\<close>

definition cone :: "box \<Rightarrow> UDPAddr \<Rightarrow> bool" where
  "cone b host \<longleftrightarrow> nc_Behavior (b_cfg b) \<noteq> BehaviorSymmetric
     \<and> b_privateHostKey b = addrKey (Some host) \<and> (\<exists>L. box_inv L b)"

abbreviation public_sock :: "box \<Rightarrow> sock" where "public_sock b \<equiv> the (b_fixedConn b)"

text \<open>After a contact at the time \<open>t0\<close>, what comes from \<open>src\<close> is admitted while the mapping lives.\<close>

definition admits :: "box \<Rightarrow> UDPAddr \<Rightarrow> gotime \<Rightarrow> bool" where
  "admits b src t0 \<longleftrightarrow>
     (\<forall>t. within_ttl (nc_MappingTTL (b_cfg b)) t0 t \<longrightarrow> lookupInbound b (public_sock b) src t)"

lemma IP_Equal_v4: "IP_Equal ip jp \<Longrightarrow> To4 ip = Some x \<Longrightarrow> To4 jp = Some x"
  by (auto simp: IP_Equal_def To4_def split: if_splits)

lemma ipKey_equal: "v4_addr a \<Longrightarrow> addrEqual (Some a) (Some b) \<Longrightarrow> ipKey (a_IP b) = ipKey (a_IP a)"
  by (auto simp: v4_addr_def addrEqual_def ipKey_v4 dest: IP_Equal_v4 split: if_splits)

lemma lookup_counts [simp]:
  "lookupInbound (incOutbound b) k src t = lookupInbound b k src t"
  "lookupInbound (incInbound b) k src t = lookupInbound b k src t"
  "lookupInbound (incDroppedBox b) k src t = lookupInbound b k src t"
  unfolding lookupInbound_def box_inc by (rule refl)+

lemma host_counts [simp]:
  "b_privateHostKey (incOutbound b) = b_privateHostKey b" "b_privateHostKey (incInbound b) = b_privateHostKey b"
  "b_privateHostKey (incDroppedBox b) = b_privateHostKey b"
  by (simp_all add: incOutbound_def incInbound_def incDroppedBox_def)

lemma cone_counts [simp]:
  "cone (incOutbound b) h = cone b h" "cone (incInbound b) h = cone b h" "cone (incDroppedBox b) h = cone b h"
  "admits (incOutbound b) src t = admits b src t" "admits (incInbound b) src t = admits b src t"
  "admits (incDroppedBox b) src t = admits b src t"
  by (simp_all add: cone_def admits_def)

lemma outboundSocket_host: "outboundSocket b dst now alloc = Some (r, b') \<Longrightarrow> b_privateHostKey b' = b_privateHostKey b"
  by (auto simp: outboundSocket_def Let_def reclaimLocked_def closeSock_def split: option.splits if_splits)

text \<open>An outbound datagram leaves by the public socket and opens the box to the address it goes to.\<close>

lemma outboundSocket_cone:
  assumes "cone b h"
  shows "\<exists>b'. outboundSocket b dst now alloc = Some (Inr (public_sock b), b') \<and> cone b' h \<and> b_cfg b' = b_cfg b
     \<and> b_fixedConn b' = b_fixedConn b \<and> (\<forall>src. ipKey (a_IP src) = ipKey (a_IP dst) \<longrightarrow> admits b' src now)"
proof -
  obtain L where b: "box_inv L b" "nc_Behavior (b_cfg b) \<noteq> BehaviorSymmetric"
    using assms by (auto simp: cone_def)
  have fixed: "b_fixedConn b = Some (public_sock b)" using b by (cases "b_fixedConn b") (simp_all add: box_inv_def)
  have key: "outbound_key b dst = ([], 0)" using b(2) by (simp add: outbound_key_def)
  from b(1) show ?thesis
  proof (cases rule: outboundSocket_cases [where dst = dst and now = now and alloc = alloc])
    case (sock j e b1)
    let ?b = "b1\<lparr>b_mappings := AList.update (outbound_key b dst) e (b_mappings b1)\<rparr>"
    have "b_fixedConn b = Some j" using sock(5,6) b(2) by (cases "nc_Behavior (b_cfg b)") (auto simp: entry_ok_def)
    then have j: "j = public_sock b" by simp
    have "box_inv (insert (j, dst, now) L) b1" by (rule box_inv_mono [OF sock(2)]) auto
    then have "box_inv (insert (j, dst, now) L) ?b" by (rule update_inv) (use sock in simp_all)
    moreover have "b_privateHostKey ?b = b_privateHostKey b" using outboundSocket_host [OF sock(1)] by simp
    ultimately have "cone ?b h" using assms sock(3,4) by (auto simp: cone_def)
    moreover have "admits ?b src now" if "ipKey (a_IP src) = ipKey (a_IP dst)" for src
      using that b(2) sock(3,7,8) by (cases "nc_Behavior (b_cfg b)")
        (auto simp: admits_def lookupInbound_def key Let_def within_ttl_def lastSeenExpired_def)
    ultimately show ?thesis using sock(1,3,4) j by auto
  next
    case (error err b1)
    then show ?thesis using b(2) by simp
  qed
qed

lemma handleOutbound_cone:
  assumes "cone b h" "UnwrapOutbound resolver pkt = Inr (i, dst, inner)"
  shows "\<exists>b'. handleOutbound resolver b pkt (Some h) now alloc True = Some (b', [ToPublic (public_sock b) inner dst])
     \<and> cone b' h \<and> b_cfg b' = b_cfg b \<and> b_fixedConn b' = b_fixedConn b
     \<and> (\<forall>src. ipKey (a_IP src) = ipKey (a_IP dst) \<longrightarrow> admits b' src now)"
proof -
  obtain b' where "outboundSocket b dst now alloc = Some (Inr (public_sock b), b')" "cone b' h" "b_cfg b' = b_cfg b"
    "b_fixedConn b' = b_fixedConn b" "\<forall>src. ipKey (a_IP src) = ipKey (a_IP dst) \<longrightarrow> admits b' src now"
    using outboundSocket_cone [OF assms(1)] by blast
  then show ?thesis using assms by (intro exI [of _ "incOutbound b'"]) (simp add: handleOutbound_def cone_def)
qed

section \<open>Sites\<close>

text \<open>
  An agent, its box, its own address as the box sees it, and the public address of the box.
  What the agent sends leaves at \<open>t\<close> through both and arrives at \<open>t'\<close> at the site that owns the
  address it goes to; anything else is lost on the way.
\<close>

record ('h, 'c) site =
  si_agent :: "('h, 'c) agent"
  si_box :: box
  si_host :: UDPAddr
  si_pub :: UDPAddr

abbreviation ttl_of :: "('h, 'c) site \<Rightarrow> duration" where "ttl_of x \<equiv> nc_MappingTTL (b_cfg (si_box x))"

definition arrive ::
    "('h, 'c, 'r) handshake_api \<Rightarrow> ('c, 'k) cipher_api \<Rightarrow> (gostring \<Rightarrow> UDPAddr option) \<Rightarrow> 'r \<Rightarrow> gotime
     \<Rightarrow> UDPAddr \<Rightarrow> bytes \<Rightarrow> ('h, 'c) site \<Rightarrow> (('h, 'c) site \<times> agent_effect list) option" where
  "arrive hapi api resolver rnd t src f y =
     (case handleInbound (si_box y) (public_sock (si_box y)) f src t True of
        (b, [ToHost _ env]) \<Rightarrow>
          map_option (\<lambda>(g, es). (y\<lparr>si_agent := g, si_box := b\<rparr>, es))
            (receiveDatagram hapi api resolver rnd t (si_pub y) env (si_agent y))
      | (b, _) \<Rightarrow> Some (y\<lparr>si_box := b\<rparr>, []))"

definition hop ::
    "('h, 'c, 'r) handshake_api \<Rightarrow> ('c, 'k) cipher_api \<Rightarrow> (gostring \<Rightarrow> UDPAddr option) \<Rightarrow> 'r \<Rightarrow> gotime \<Rightarrow> gotime
     \<Rightarrow> agent_effect list \<Rightarrow> ('h, 'c) site \<Rightarrow> ('h, 'c) site
     \<Rightarrow> (('h, 'c) site \<times> ('h, 'c) site \<times> agent_effect list) option" where
  "hop hapi api resolver rnd t t' es x y =
     (case es of
        [WriteUDP _ pkt] \<Rightarrow>
          (case handleOutbound resolver (si_box x) pkt (Some (si_host x)) t None True of
             None \<Rightarrow> None
           | Some (b, out) \<Rightarrow>
               (case out of
                  [ToPublic _ f dst] \<Rightarrow>
                    if addrEqual (Some (si_pub y)) (Some dst)
                    then map_option (\<lambda>(y, es). (x\<lparr>si_box := b\<rparr>, y, es)) (arrive hapi api resolver rnd t' (si_pub x) f y)
                    else Some (x\<lparr>si_box := b\<rparr>, y, [])
                | _ \<Rightarrow> Some (x\<lparr>si_box := b\<rparr>, y, [])))
      | _ \<Rightarrow> Some (x, y, []))"

text \<open>A site behind a cone box with a peer \<open>i\<close> for what comes from \<open>e\<close>.\<close>

definition stands :: "('h, 'c) site \<Rightarrow> gostring \<Rightarrow> UDPAddr \<Rightarrow> bool" where
  "stands x i e \<longleftrightarrow> cone (si_box x) (si_host x) \<and> v4_addr (si_pub x) \<and> attends (si_agent x) e i
     \<and> ag_door (si_agent x) \<noteq> None \<and> ag_Name (si_agent x) \<noteq> [] \<and> length (ag_Name (si_agent x)) \<le> maxEnvelopeName"

lemma HandleFrame_text: "UDPAddr_String (Some a) = UDPAddr_String (Some b) \<Longrightarrow>
    HandleFrame hapi api relay rnd t (Some a) f q = HandleFrame hapi api relay rnd t (Some b) f q"
  by (auto simp: HandleFrame_def)

lemma receive_enveloped:
  assumes "v4_addr src" "ag_door g \<noteq> None" "attends g src i" "map_of (ag_peers g) i = Some q"
    and "HandleFrame hapi api (ag_relay g) rnd t (Some src) f q = Some (q', es)"
  shows "receiveDatagram hapi api resolver rnd t door (WrapInbound (Some src) f) g = Some (put_peer i q' g, transmits g es)"
proof -
  obtain ext where ext: "UnwrapInbound resolver (WrapInbound (Some src) f) = Inr (ext, f)"
    "UDPAddr_String (Some ext) = UDPAddr_String (Some src)"
    using Unwrap_inbound_resolved [OF assms(1)] Resolve_text [OF assms(1), of resolver] by fastforce
  have "matchPeer g ext f = Some (i, f)" using assms(3) ext(2) by (intro attends_matches) (simp add: attends_def)
  moreover have "HandleFrame hapi api (ag_relay g) rnd t (Some ext) f q = Some (q', es)"
    using assms(5) by (simp add: HandleFrame_text [OF ext(2)])
  ultimately show ?thesis
    using assms(2,4) ext(1) by (auto simp: receiveDatagram_def openEnvelope_def put_peer_def)
qed

text \<open>One hop, with the frame handled when the box of the destination admits it.\<close>

lemma hop_cone:
  assumes x: "stands x i (si_pub y)" and y: "stands y j (si_pub x)"
    and q: "map_of (ag_peers (si_agent y)) j = Some q"
      "HandleFrame hapi api (ag_relay (si_agent y)) rnd t' (Some (si_pub x)) f q = Some (q', es)"
  shows "\<exists>b. hop hapi api resolver rnd t t' (transmits (si_agent x) [SendDirect (si_pub y) f]) x y =
      Some (if lookupInbound (si_box y) (public_sock (si_box y)) (si_pub x) t'
            then (x\<lparr>si_box := b\<rparr>, y\<lparr>si_agent := put_peer j q' (si_agent y), si_box := incInbound (si_box y)\<rparr>,
                  transmits (si_agent y) es)
            else (x\<lparr>si_box := b\<rparr>, y\<lparr>si_box := incDroppedBox (si_box y)\<rparr>, []))
     \<and> cone b (si_host x) \<and> b_cfg b = b_cfg (si_box x) \<and> admits b (si_pub y) t"
proof -
  have X: "cone (si_box x) (si_host x)" "v4_addr (si_pub x)" "ag_Name (si_agent x) \<noteq> []"
    "length (ag_Name (si_agent x)) \<le> 1024" and Y: "v4_addr (si_pub y)" "ag_door (si_agent y) \<noteq> None" "attends (si_agent y) (si_pub x) j"
    using x y by (simp_all add: stands_def maxEnvelopeName_def)
  obtain door where door: "ag_door (si_agent x) = Some door" using x by (auto simp: stands_def)
  obtain pkt dst where w: "WrapOutbound (ag_Name (si_agent x)) (Some (si_pub y)) f = Inr pkt"
    "UnwrapOutbound resolver pkt = Inr (ag_Name (si_agent x), dst, f)" "addrEqual (Some (si_pub y)) (Some dst)"
    using Unwrap_Wrap_outbound [OF Y(1) X(3,4), of f resolver] by blast
  have tr: "transmits (si_agent x) [SendDirect (si_pub y) f] = [WriteUDP door pkt]"
    using w(1) door by (simp add: transmits_def transmit_def SendDirect_agent_def sendDatagram_def)
  obtain b where b: "handleOutbound resolver (si_box x) pkt (Some (si_host x)) t None True
      = Some (b, [ToPublic (public_sock (si_box x)) f dst])" "cone b (si_host x)" "b_cfg b = b_cfg (si_box x)"
    "\<forall>src. ipKey (a_IP src) = ipKey (a_IP dst) \<longrightarrow> admits b src t"
    using handleOutbound_cone [OF X(1) w(2)] by blast
  have "admits b (si_pub y) t" using b(4) ipKey_equal [OF Y(1) w(3)] by simp
  then show ?thesis
    using b(1-3) w(3) receive_enveloped [OF X(2) Y(2,3) q(1,2), of resolver "si_pub y"]
    by (auto simp: tr hop_def arrive_def handleInbound_def)
qed

lemma stands_keeps:
  assumes "stands x i e"
  shows "cone b (si_host x) \<Longrightarrow> stands (x\<lparr>si_box := b\<rparr>) i e"
    and "map_of (ag_peers (si_agent x)) j = Some p \<Longrightarrow> p_DirectEP p' = p_DirectEP p \<Longrightarrow>
      stands (x\<lparr>si_agent := put_peer j p' (si_agent x)\<rparr>) i e"
  using assms attends_put_peer [of "si_agent x" e i j p p'] by (simp_all add: stands_def)

text \<open>What a peer does with a frame never moves its direct endpoint.\<close>

lemma DirectEP_clear [simp]: "p_DirectEP (clearHalfOpen p) = p_DirectEP p"
  by (simp add: clearHalfOpen_def)

lemma DirectEP_setSession: "setSessionLocked now s path p = (q, es) \<Longrightarrow> p_DirectEP q = p_DirectEP p"
  by (auto simp: setSessionLocked_def Let_def split: if_splits)

lemma DirectEP_acceptHS1: "acceptHS1 hapi rnd now msg path p = Some (q, es) \<Longrightarrow> p_DirectEP q = p_DirectEP p"
  by (auto simp: acceptHS1_def split: option.splits sum.splits prod.splits)

lemma DirectEP_onHS1: "onHS1 hapi rnd now msg path p = Some (q, es) \<Longrightarrow> p_DirectEP q = p_DirectEP p"
  by (auto simp: onHS1_def Let_def dest!: DirectEP_acceptHS1 split: prod.splits if_splits option.splits)

lemma DirectEP_onHS2: "onHS2 hapi now msg path p = Some (q, es) \<Longrightarrow> p_DirectEP q = p_DirectEP p"
  by (auto simp: onHS2_def Let_def dest!: DirectEP_setSession split: option.splits sum.splits prod.splits)

lemma DirectEP_onHS3: "onHS3 hapi now msg path p = (q, es) \<Longrightarrow> p_DirectEP q = p_DirectEP p"
  by (auto simp: onHS3_def Let_def dest!: DirectEP_setSession split: option.splits sum.splits prod.splits)

lemma DirectEP_onData: "onData api b p = Some (q, es) \<Longrightarrow> p_DirectEP q = p_DirectEP p"
  by (auto simp: onData_def Let_def split: option.splits sum.splits prod.splits if_splits bool.splits)

lemma DirectEP_HandleFrame:
  "HandleFrame hapi api relay rnd now src f p = Some (q, es) \<Longrightarrow> p_DirectEP q = p_DirectEP p"
  by (auto simp: HandleFrame_def handleFrameByPath_def split: sum.splits if_splits
      dest!: DirectEP_onHS1 DirectEP_onHS2 DirectEP_onHS3 DirectEP_onData)

lemma transmit_put_peer [simp]: "transmit (put_peer i p g) = transmit g"
  unfolding transmit_def SendDirect_agent_def SendRelay_agent_def sendDatagram_def put_peer_fields by (rule refl)

lemma transmits_put_peer [simp]: "transmits (put_peer i p g) = transmits g"
  by (simp add: transmits_def fun_eq_iff)

lemma transmits_installed [simp]: "transmits g (Installed # es) = transmits g es"
  by (simp add: transmits_def transmit_def)

lemma update_same: "map_of m k = Some v \<Longrightarrow> AList.update k v m = m"
  by (induction m) auto

lemma put_peer_same: "map_of (ag_peers g) i = Some p \<Longrightarrow> put_peer i p g = g"
  by (simp add: put_peer_def update_same)

text \<open>A hop to a site that lets the sender in, and one that changes nothing where it may arrive.\<close>

lemma hop_delivers:
  assumes st: "stands x i (si_pub y)" "stands y j (si_pub x)"
    and adm: "admits (si_box y) (si_pub x) t0" "within_ttl (ttl_of y) t0 t'"
    and q: "map_of (ag_peers (si_agent y)) j = Some q"
      "HandleFrame hapi api (ag_relay (si_agent y)) rnd t' (Some (si_pub x)) f q = Some (q', es)"
  obtains x' y' where
    "hop hapi api resolver rnd t t' (transmits (si_agent x) [SendDirect (si_pub y) f]) x y = Some (x', y', transmits (si_agent y) es)"
    "si_agent x' = si_agent x" "si_agent y' = put_peer j q' (si_agent y)" "si_pub x' = si_pub x" "si_pub y' = si_pub y"
    "ttl_of x' = ttl_of x" "ttl_of y' = ttl_of y"
    "stands x' i (si_pub y)" "stands y' j (si_pub x)" "admits (si_box x') (si_pub y) t"
proof -
  let ?y = "y\<lparr>si_agent := put_peer j q' (si_agent y), si_box := incInbound (si_box y)\<rparr>"
  obtain b where b: "hop hapi api resolver rnd t t' (transmits (si_agent x) [SendDirect (si_pub y) f]) x y =
      Some (x\<lparr>si_box := b\<rparr>, ?y, transmits (si_agent y) es)"
    "cone b (si_host x)" "b_cfg b = b_cfg (si_box x)" "admits b (si_pub y) t"
    using hop_cone [OF st q, of resolver t] adm by (auto simp: admits_def)
  have "stands ?y j (si_pub x)"
    using st(2) attends_put_peer [OF _ q(1) DirectEP_HandleFrame [OF q(2)]] by (simp add: stands_def)
  then show thesis using that b stands_keeps(1) [OF st(1)] by simp
qed

lemma hop_opens:
  assumes st: "stands x i (si_pub y)" "stands y j (si_pub x)"
    and q: "map_of (ag_peers (si_agent y)) j = Some q"
      "HandleFrame hapi api (ag_relay (si_agent y)) rnd t' (Some (si_pub x)) f q = Some (q, [])"
  obtains x' y' where
    "hop hapi api resolver rnd t t' (transmits (si_agent x) [SendDirect (si_pub y) f]) x y = Some (x', y', [])"
    "si_agent x' = si_agent x" "si_agent y' = si_agent y" "si_pub x' = si_pub x" "si_pub y' = si_pub y"
    "ttl_of x' = ttl_of x" "ttl_of y' = ttl_of y"
    "stands x' i (si_pub y)" "stands y' j (si_pub x)" "admits (si_box x') (si_pub y) t"
proof -
  obtain b c where b: "hop hapi api resolver rnd t t' (transmits (si_agent x) [SendDirect (si_pub y) f]) x y =
      Some (x\<lparr>si_box := b\<rparr>, y\<lparr>si_box := c\<rparr>, [])"
    "cone b (si_host x)" "b_cfg b = b_cfg (si_box x)" "admits b (si_pub y) t" "c \<in> {incInbound (si_box y), incDroppedBox (si_box y)}"
    using hop_cone [OF st q, of resolver t] put_peer_same [OF q(1)] by (auto simp: transmits_def split: if_splits)
  have "stands (y\<lparr>si_box := c\<rparr>) j (si_pub x)" using b(5) st(2) by (auto simp: stands_def)
  then show thesis using that b stands_keeps(1) [OF st(1) b(2)] by auto
qed

section \<open>Punching\<close>

definition tick_agent ::
    "('h, 'c, 'r) handshake_api \<Rightarrow> ('c, 'k) cipher_api \<Rightarrow> 'r \<Rightarrow> gotime \<Rightarrow> gostring \<Rightarrow> ('h, 'c) agent
     \<Rightarrow> (('h, 'c) agent \<times> agent_effect list) option" where
  "tick_agent hapi api rnd now i g = do {
     p \<leftarrow> map_of (ag_peers g) i;
     (p, es) \<leftarrow> tick hapi api rnd (ag_relay g) now True p;
     Some (put_peer i p g, transmits g es)
   }"

text \<open>
  The responder \<open>y\<close> ticks, then the initiator \<open>x\<close>; three messages follow, each sent when the one
  before it has arrived. The list \<open>t\<close> has the times of the two ticks and of the three arrivals.
\<close>

definition hole_punch ::
    "('h, 'c, 'r) handshake_api \<Rightarrow> ('c, 'k) cipher_api \<Rightarrow> (gostring \<Rightarrow> UDPAddr option) \<Rightarrow> 'r \<Rightarrow> 'r \<Rightarrow> gotime list
     \<Rightarrow> gostring \<Rightarrow> gostring \<Rightarrow> ('h, 'c) site \<Rightarrow> ('h, 'c) site \<Rightarrow> (('h, 'c) site \<times> ('h, 'c) site) option" where
  "hole_punch hapi api resolver ra rb t i j x y = do {
     (g, es) \<leftarrow> tick_agent hapi api rb (t ! 0) j (si_agent y);
     (y, x, _) \<leftarrow> hop hapi api resolver ra (t ! 0) (t ! 0) es (y\<lparr>si_agent := g\<rparr>) x;
     (g, es) \<leftarrow> tick_agent hapi api ra (t ! 1) i (si_agent x);
     (x, y, es) \<leftarrow> hop hapi api resolver rb (t ! 1) (t ! 2) es (x\<lparr>si_agent := g\<rparr>) y;
     (y, x, es) \<leftarrow> hop hapi api resolver ra (t ! 2) (t ! 3) es y x;
     (x, y, _) \<leftarrow> hop hapi api resolver rb (t ! 3) (t ! 4) es x y;
     Some (x, y)
   }"

lemma stands_usable:
  assumes "stands x i (si_pub y)" "stands y j (si_pub x)" "ag_relay (si_agent x) = relay" "ag_relay (si_agent y) = relay"
  shows "usable PathDirect relay (si_pub x) (si_pub y)"
proof -
  have "UDPAddr_String (Some a) \<noteq> UDPAddr_String None" if "v4_addr a" for a
    using length_UDPAddr_String_v4 [OF that] by (auto simp: UDPAddr_String_def [of None] lit_def)
  then show ?thesis using assms by (cases relay) (auto simp: stands_def attends_def usable_def)
qed

lemma tick_probes:
  assumes "ready mine other p" "\<not> p_initiator p" "p_mode p = PathDirect" "p_DirectEP p = Some e"
    and "time_sub now (p_phaseStart p) \<le> DirectAttempt"
  shows "tick hapi api rnd relay now ok p = Some (p, [SendDirect e (the (Frame TypeProbe []))])"
  using assms
  by (simp add: tick_def ready_def clearStale_def punch_def addressFor_def sendFrame_def emit_def attemptFor_def)

lemma DirectEP_tick:
  assumes "\<not> p_established p" "tick hapi api rnd relay now ok p = Some (q, es)"
  shows "p_DirectEP q = p_DirectEP p"
proof -
  have punch: "p_DirectEP q = p_DirectEP p" if "punch hapi rnd relay now md p = Some (q, e)" for p q md e
    using that by (auto simp: punch_def split: option.splits sum.splits if_splits)
  have [simp]: "p_DirectEP (switchMode relay now md p) = p_DirectEP p" "p_DirectEP (clearStale now p) = p_DirectEP p" for md p
    by (auto simp: switchMode_def resetHandshakeLocked_def clearStale_def split: path.splits)
  then show ?thesis using assms by (auto simp: tick_def split: option.splits dest!: punch)
qed

text \<open>C2: Hole punching connects two agents that are both behind NAT boxes. The boxes are full-cone
  or address-restricted, and each agent knows the other's public endpoint and key. The responder's first
  tick sends a probe that the initiator's box may well drop; it opens the responder's own box, so that
  the initiator's first handshake message gets in, which has opened the initiator's box for the answer.
  If the three messages come while the mappings live, both agents end with a session on the
  direct path, each with the other's key, and messages pass unchanged in both directions.\<close>

theorem hole_punching_connects:
  assumes laws: "cipher_laws api seal opn rk" "expansion_law api" "msg_law hapi" "xx_law hapi api (Some Prologue) ka kb"
    and x: "stands x i (si_pub y)" "ag_relay (si_agent x) = relay" "map_of (ag_peers (si_agent x)) i = Some a"
    and y: "stands y j (si_pub x)" "ag_relay (si_agent y) = relay" "map_of (ag_peers (si_agent y)) j = Some b"
    and a: "ready ka kb a" "p_initiator a" "p_mode a = PathDirect" "p_DirectEP a = Some (si_pub y)"
      "time_sub (t ! 1) (p_lastHS1 a) \<ge> HS1ResendInterval" "time_sub (t ! 1) (p_phaseStart a) \<le> DirectAttempt"
    and b: "ready kb ka b" "\<not> p_initiator b" "p_mode b = PathDirect" "p_DirectEP b = Some (si_pub x)"
      "fst (hs1_draw 1 (t ! 2) (p_hsBurst b))" "time_sub (t ! 0) (p_phaseStart b) \<le> DirectAttempt"
    and live: "within_ttl (ttl_of y) (t ! 0) (t ! 2)" "within_ttl (ttl_of x) (t ! 1) (t ! 3)"
      "within_ttl (ttl_of y) (t ! 2) (t ! 4)"
  shows "\<exists>x' y' a' b'. hole_punch hapi api resolver ra rb t i j x y = Some (x', y')
     \<and> map_of (ag_peers (si_agent x')) i = Some a' \<and> map_of (ag_peers (si_agent y')) j = Some b'
     \<and> p_established a' \<and> p_established b' \<and> p_path a' = PathDirect \<and> p_path b' = PathDirect
     \<and> RemoteStatic a' = kp_Public kb \<and> RemoteStatic b' = kp_Public ka
     \<and> (\<forall>ms. length ms \<le> 18446744073709551615 \<and> (\<forall>m\<in>set ms. length m \<le> maxPlaintextLen) \<longrightarrow>
          transfers hapi api relay (Some (si_pub x)) ra now ms (a', b') = map (\<lambda>(n, m). Accepted (of_nat n) m) (enumerate 0 ms)
        \<and> transfers hapi api relay (Some (si_pub y)) ra now ms (b', a') = map (\<lambda>(n, m). Accepted (of_nat n) m) (enumerate 0 ms))"
proof -
  note path = stands_usable [OF x(1) y(1) x(2) y(2)]
  have "time_sub (t ! 1) (p_phaseStart a) \<le> attemptFor PathDirect" using a(6) by (simp add: attemptFor_def)
  from pair_connects [OF laws a(1-5) this b(1,2,5,4) path, of ra rb "t ! 3" "t ! 4" now, unfolded connects_def completes_def prod.case]
  obtain a1 f1 b1 f2 a2 f3 b2 where c:
    "tick hapi api ra relay (t ! 1) True a = Some (a1, [wire PathDirect (p_ID a) (si_pub y) f1])"
    "HandleFrame hapi api relay rb (t ! 2) (seen PathDirect relay (si_pub x)) f1 b = Some (b1, [wire PathDirect (p_ID b) (si_pub x) f2])"
    "HandleFrame hapi api relay ra (t ! 3) (seen PathDirect relay (si_pub y)) f2 a1
       = Some (a2, [Installed, wire PathDirect (p_ID a1) (si_pub y) f3])"
    "HandleFrame hapi api relay rb (t ! 4) (seen PathDirect relay (si_pub x)) f3 b1 = Some (b2, [Installed])"
    and up: "p_established a2" "p_established b2" "p_path a2 = PathDirect" "p_path b2 = PathDirect"
      "RemoteStatic a2 = kp_Public kb" "RemoteStatic b2 = kp_Public ka"
      "\<forall>ms. length ms \<le> 18446744073709551615 \<and> (\<forall>m\<in>set ms. length m \<le> room PathDirect) \<longrightarrow>
         transfers hapi api relay (seen PathDirect relay (si_pub x)) ra now ms (a2, b2) = map (\<lambda>(n, m). Accepted (of_nat n) m) (enumerate 0 ms)
       \<and> transfers hapi api relay (seen PathDirect relay (si_pub y)) ra now ms (b2, a2) = map (\<lambda>(n, m). Accepted (of_nat n) m) (enumerate 0 ms)"
    by blast
  note c = c [unfolded wire_def seen_def, simplified]
  have probe: "HandleFrame hapi api relay ra (t ! 0) (Some (si_pub y)) (the (Frame TypeProbe [])) a = Some (a, [])"
    using HandleFrame_seen [OF path disjI2 [OF refl], of "[]" hapi api ra "t ! 0" TypeProbe a]
    by (simp add: seen_def handleFrameByPath_def del: Frame_Some)
  obtain y1 x1 where one: "hop hapi api resolver ra (t ! 0) (t ! 0)
      (transmits (si_agent y) [SendDirect (si_pub x) (the (Frame TypeProbe []))]) y x = Some (y1, x1, [])"
    "si_agent y1 = si_agent y" "si_agent x1 = si_agent x" "si_pub y1 = si_pub y" "si_pub x1 = si_pub x"
    "ttl_of y1 = ttl_of y" "ttl_of x1 = ttl_of x" "stands y1 j (si_pub x)" "stands x1 i (si_pub y)" "admits (si_box y1) (si_pub x) (t ! 0)"
    by (rule hop_opens [OF y(1) x(1,3) probe [folded x(2)], where t = "t ! 0" and resolver = resolver]) (rule that; assumption)
  let ?x = "x1\<lparr>si_agent := put_peer i a1 (si_agent x)\<rparr>"
  have X: "stands ?x i (si_pub y1)"
    using stands_keeps(2) [OF one(9), of i a a1] DirectEP_tick [OF _ c(1)] x(3) a(1) one(3,4) by (simp add: ready_def)
  obtain x2 y2 where two: "hop hapi api resolver rb (t ! 1) (t ! 2)
      (transmits (si_agent ?x) [SendDirect (si_pub y1) f1]) ?x y1 = Some (x2, y2, transmits (si_agent y1) [SendDirect (si_pub x) f2])"
    "si_agent x2 = si_agent ?x" "si_agent y2 = put_peer j b1 (si_agent y1)" "si_pub x2 = si_pub ?x" "si_pub y2 = si_pub y1"
    "ttl_of x2 = ttl_of ?x" "ttl_of y2 = ttl_of y1" "stands x2 i (si_pub y1)" "stands y2 j (si_pub ?x)" "admits (si_box x2) (si_pub y1) (t ! 1)"
    by (rule hop_delivers [OF X, of j "t ! 0" "t ! 2" b hapi api rb f1 b1 "[SendDirect (si_pub x) f2]", where t = "t ! 1" and resolver = resolver])
      (use one c y live in \<open>simp_all\<close>)
  obtain y3 x3 where three: "hop hapi api resolver ra (t ! 2) (t ! 3)
      (transmits (si_agent y2) [SendDirect (si_pub x2) f2]) y2 x2 = Some (y3, x3, transmits (si_agent x2) [Installed, SendDirect (si_pub y) f3])"
    "si_agent y3 = si_agent y2" "si_agent x3 = put_peer i a2 (si_agent x2)" "si_pub y3 = si_pub y2" "si_pub x3 = si_pub x2"
    "ttl_of y3 = ttl_of y2" "ttl_of x3 = ttl_of x2" "stands y3 j (si_pub x2)" "stands x3 i (si_pub y2)" "admits (si_box y3) (si_pub x2) (t ! 2)"
    by (rule hop_delivers [of y2 j x2 i "t ! 1" "t ! 3" a1 hapi api ra f2 a2 "[Installed, SendDirect (si_pub y) f3]", where t = "t ! 2" and resolver = resolver])
      (use one two c x live in \<open>simp_all\<close>)
  obtain x4 y4 where four: "hop hapi api resolver rb (t ! 3) (t ! 4)
      (transmits (si_agent x3) [SendDirect (si_pub y3) f3]) x3 y3 = Some (x4, y4, transmits (si_agent y3) [Installed])"
    "si_agent x4 = si_agent x3" "si_agent y4 = put_peer j b2 (si_agent y3)"
    by (rule hop_delivers [of x3 i y3 j "t ! 2" "t ! 4" b1 hapi api rb f3 b2 "[Installed]", where t = "t ! 3" and resolver = resolver])
      (use one two three c y live in \<open>simp_all\<close>)
  have "hole_punch hapi api resolver ra rb t i j x y = Some (x4, y4)"
    using one two three four c x(2,3) y(2,3) tick_probes [OF b(1-4,6), of hapi api rb relay True]
    by (simp add: hole_punch_def tick_agent_def put_peer_same)
  moreover have "map_of (ag_peers (si_agent x4)) i = Some a2" "map_of (ag_peers (si_agent y4)) j = Some b2"
    using one two three four by simp_all
  ultimately show ?thesis using up by (auto simp: seen_def room_def)
qed

section \<open>Witness\<close>

text \<open>Agent \<open>n\<close> at its first peer \<open>m\<close>, behind an address-restricted box with the address \<open>own\<close>.\<close>

definition demo_end :: "byte \<Rightarrow> byte \<Rightarrow> UDPAddr \<Rightarrow> (demo_hs, nat \<times> u64) peer" where
  "demo_end n m other = startRun None 0 (newPeer [n] [m] (replicate 32 m) (Some other) (Some (demo_keypair n)))"

definition demo_site :: "byte \<Rightarrow> byte \<Rightarrow> UDPAddr \<Rightarrow> UDPAddr \<Rightarrow> (demo_hs, nat \<times> u64) site" where
  "demo_site n m own other =
     \<lparr>si_agent = (demo_agent n)\<lparr>ag_door := Some demo_host, ag_peers := [([m], demo_end n m other)]\<rparr>,
      si_box = newBox \<lparr>nc_Behavior = BehaviorAddressRestricted, nc_PublicAddr = own, nc_PrivateHost = demo_host,
        nc_MappingTTL = 10 * second\<rparr> 1 (a_Port own),
      si_host = demo_host, si_pub = own\<rparr>"

lemma demo_site_simps [simp]:
  "si_pub (demo_site n m own other) = own" "ag_relay (si_agent (demo_site n m own other)) = None"
  "map_of (ag_peers (si_agent (demo_site n m own other))) [m] = Some (demo_end n m other)"
  "ttl_of (demo_site n m own other) = 10 * second"
  by (simp_all add: demo_site_def demo_agent_def newAgent_def newBox_def)

lemma demo_stands: "v4_addr own \<Longrightarrow> stands (demo_site n m own other) [m] other"
  by (auto simp: stands_def demo_site_def demo_agent_def newAgent_def attends_def demo_end_def startRun_def newPeer_def
      DirectEndpoint_def maxEnvelopeName_def cone_def newBox_def box_inv_def)

lemma demo_end_ready: "ready (demo_keypair n) (demo_keypair m) (demo_end n m other)"
  "p_initiator (demo_end n m other) = RoleIsInitiator [n] [m]" "p_mode (demo_end n m other) = PathDirect"
  "p_DirectEP (demo_end n m other) = Some other" "p_phaseStart (demo_end n m other) = 0"
  "p_lastHS1 (demo_end n m other) = 0" "fst (hs1_draw 1 now (p_hsBurst (demo_end n m other)))"
  by (simp_all add: demo_end_def startRun_def ready_def keyed_def newPeer_def static_ok_def demo_keypair_def KeySize_def
      hs1_draw_def hs1MaxPerSec_def)

theorem hole_punching_connects_witness:
  "\<exists>x' y' a' b'. hole_punch demo_hapi demo_api demo_resolver () () [1, 1000000000, 1100000000, 1200000000, 1300000000] [2] [1]
       (demo_site 1 2 demo_ep demo_dst) (demo_site 2 1 demo_dst demo_ep) = Some (x', y')
     \<and> map_of (ag_peers (si_agent x')) [2] = Some a' \<and> map_of (ag_peers (si_agent y')) [1] = Some b'
     \<and> p_established a' \<and> p_path a' = PathDirect \<and> p_established b' \<and> p_path b' = PathDirect"
proof -
  have v4: "v4_addr demo_ep" by (simp add: v4_addr_def demo_ep_def To4_def)
  let ?x = "demo_site 1 2 demo_ep demo_dst"
  let ?y = "demo_site 2 1 demo_dst demo_ep"
  let ?t = "[1, 1000000000, 1100000000, 1200000000, 1300000000] :: gotime list"
  have x: "stands ?x [2] (si_pub ?y)" "ag_relay (si_agent ?x) = None" "map_of (ag_peers (si_agent ?x)) [2] = Some (demo_end 1 2 demo_dst)"
    and y: "stands ?y [1] (si_pub ?x)" "ag_relay (si_agent ?y) = None" "map_of (ag_peers (si_agent ?y)) [1] = Some (demo_end 2 1 demo_ep)"
    using demo_stands [OF v4] demo_stands [OF demo_dst_v4] by simp_all
  have e: "demo_end 1 2 demo_dst = a \<Longrightarrow> ready (demo_keypair 1) (demo_keypair 2) a \<and> p_initiator a \<and> p_mode a = PathDirect
      \<and> p_DirectEP a = Some (si_pub ?y) \<and> time_sub (?t ! 1) (p_lastHS1 a) \<ge> HS1ResendInterval
      \<and> time_sub (?t ! 1) (p_phaseStart a) \<le> DirectAttempt" for a
    using demo_end_ready by (auto simp: RoleIsInitiator_def demo_times)
  have f: "demo_end 2 1 demo_ep = b \<Longrightarrow> ready (demo_keypair 2) (demo_keypair 1) b \<and> \<not> p_initiator b \<and> p_mode b = PathDirect
      \<and> p_DirectEP b = Some (si_pub ?x) \<and> fst (hs1_draw 1 (?t ! 2) (p_hsBurst b)) \<and> time_sub (?t ! 0) (p_phaseStart b) \<le> DirectAttempt" for b
    using demo_end_ready by (auto simp: RoleIsInitiator_def demo_times)
  have live: "within_ttl (ttl_of ?y) (?t ! 0) (?t ! 2)" "within_ttl (ttl_of ?x) (?t ! 1) (?t ! 3)" "within_ttl (ttl_of ?y) (?t ! 2) (?t ! 4)"
    by (simp_all add: within_ttl_def demo_times)
  show ?thesis
    using hole_punching_connects [OF demo_laws demo_expansion demo_msg_law demo_xx_law x y _ _ _ _ _ _ _ _ _ _ _ _ live,
        where ra = "()" and rb = "()" and resolver = demo_resolver] e [OF refl] f [OF refl]
    by blast
qed

end
