(* ===== verification/Agent_Life.thy ===== *)
theory Agent_Life
  imports Agent_Ping
begin

text \<open>
  The life of an agent, \<^verbatim>\<open>Agent.setup\<close>, \<^verbatim>\<open>Run\<close> and \<^verbatim>\<open>QueryCoordinator\<close> of \<^verbatim>\<open>internal/agent\<close>: the
  endpoint is resolved and registered, the tunnel opened, then the agent registers again every
  thirty seconds until its context ends and it closes. Control connections are numbers; they are
  opened by registering and must all be closed in the end.
\<close>

section \<open>Starting\<close>

datatype setup_error = StunFailed | RegisterFailed agent_error | SetupCancelled

text \<open>How one registration went: the new connection, whether dialling, handshake and write succeeded.\<close>

record dial =
  d_conn :: nat
  d_dialled :: bool
  d_secured :: bool
  d_written :: bool

definition register_dial ::
    "gostring \<Rightarrow> dial \<Rightarrow> ('h, 'c) agent \<Rightarrow> agent_error option \<times> ('h, 'c) agent \<times> agent_effect list" where
  "register_dial coordKey d g = register coordKey (d_conn d) (d_dialled d) (d_secured d) (d_written d) g"

text \<open>\<open>cancelled\<close> tells whether the context ends within the 200 ms it waits for the broadcast.\<close>

definition setupAgent ::
    "(gostring \<Rightarrow> UDPAddr option) \<Rightarrow> gostring \<Rightarrow> gostring \<Rightarrow> bytes \<Rightarrow> (unit + bytes) list \<Rightarrow> dial \<Rightarrow> bool
     \<Rightarrow> ('h, 'c) agent \<Rightarrow> setup_error option \<times> ('h, 'c) agent \<times> agent_effect list" where
  "setupAgent resolver stunAddr coordKey txid deliveries d cancelled g =
     (case resolvePublicEndpoint resolver stunAddr txid deliveries g of
        (es, None) \<Rightarrow> (Some StunFailed, g, es)
      | (es, Some pub) \<Rightarrow>
          (case register_dial coordKey d (g\<lparr>ag_pub := Some pub\<rparr>) of
             (Some e, g, es') \<Rightarrow> (Some (RegisterFailed e), g, es @ es')
           | (None, g, es') \<Rightarrow> (if cancelled then Some SetupCancelled else None, g, es @ es')))"

section \<open>Running\<close>

text \<open>
  Between the ticks of \<open>Run\<close> the other goroutines take their steps. An error of a registration is
  only logged. The end of the list is the end of the context.
\<close>

datatype 'r life_event = Reregister dial | Meanwhile "'r agent_event"

fun run_loop ::
    "('h, 'c, 'r) handshake_api \<Rightarrow> ('c, 'k) cipher_api \<Rightarrow> (gostring \<Rightarrow> UDPAddr option)
     \<Rightarrow> (bytes \<Rightarrow> ping_msg option) \<Rightarrow> gostring \<Rightarrow> 'r life_event list \<Rightarrow> ('h, 'c) agent
     \<Rightarrow> (('h, 'c) agent \<times> agent_effect list) option" where
  "run_loop hapi api resolver unmarshal coordKey [] g = Some (CloseAgent g)"
| "run_loop hapi api resolver unmarshal coordKey (Reregister d # evs) g =
     (case register_dial coordKey d g of
        (err, g, es) \<Rightarrow> map_option (\<lambda>(g, es'). (g, es @ es')) (run_loop hapi api resolver unmarshal coordKey evs g))"
| "run_loop hapi api resolver unmarshal coordKey (Meanwhile ev # evs) g =
     (case agent_step hapi api resolver unmarshal ev g of
        None \<Rightarrow> None
      | Some (g, es) \<Rightarrow>
          map_option (\<lambda>(g, es'). (g, es @ es')) (run_loop hapi api resolver unmarshal coordKey evs g))"

datatype run_error = SetupError setup_error | TunError bridge_error

text \<open>
  \<open>Run\<close>: \<open>tunName\<close> and the outcome of \<^verbatim>\<open>newTunBridge\<close> decide about the tunnel. The error comes with
  the agent as it is left.
\<close>

definition runAgent ::
    "('h, 'c, 'r) handshake_api \<Rightarrow> ('c, 'k) cipher_api \<Rightarrow> (gostring \<Rightarrow> UDPAddr option)
     \<Rightarrow> (bytes \<Rightarrow> ping_msg option) \<Rightarrow> gostring \<Rightarrow> setup_error option \<times> ('h, 'c) agent \<times> agent_effect list
     \<Rightarrow> gostring \<Rightarrow> bridge_error + gostring bridge \<Rightarrow> 'r life_event list
     \<Rightarrow> (run_error option \<times> ('h, 'c) agent \<times> agent_effect list) option" where
  "runAgent hapi api resolver unmarshal coordKey started tunName bridge evs =
     (case started of
        (Some e, g, es) \<Rightarrow> Some (Some (SetupError e), g, es)
      | (None, g, es) \<Rightarrow>
          (case (if tunName \<noteq> [] then map_sum id (\<lambda>b. attachBridge b g) bridge else Inr g) of
             Inl e \<Rightarrow> Some (Some (TunError e), g, es)
           | Inr g \<Rightarrow>
               map_option (\<lambda>(g, es'). (None, g, es @ es')) (run_loop hapi api resolver unmarshal coordKey evs g)))"

text \<open>
  The wait of \<open>QueryCoordinator\<close> after \<open>startQuery\<close>: the reply that is in the channel, or the end of
  the context. The write may fail.
\<close>

datatype query_error = NoControlSession | SendQueryFailed | QueryContextDone

definition QueryCoordinator ::
    "bool \<Rightarrow> (('h, 'c) agent \<Rightarrow> Message option) \<Rightarrow> ('h, 'c) agent \<Rightarrow> query_error + Message" where
  "QueryCoordinator written reply g =
     (case startQuery g of
        None \<Rightarrow> Inl NoControlSession
      | Some (g, es) \<Rightarrow>
          if \<not> written then Inl SendQueryFailed
          else (case reply g of None \<Rightarrow> Inl QueryContextDone | Some m \<Rightarrow> Inr m))"

section \<open>What other goroutines leave alone\<close>

definition standing :: "('h, 'c) agent \<Rightarrow> (nat option \<times> nat option \<times> nat option) \<times> UDPAddr option \<times> UDPAddr option \<times> gostring \<times> Keypair option" where
  "standing g = ((ag_ctrl g, ag_ctrlConn g, ag_ctrlCancel g), ag_pub g, ag_relay g, ag_Name g, ag_kp g)"

lemma put_peer_standing [simp]: "standing (put_peer pid p g) = standing g"
  by (simp add: standing_def put_peer_def)

lemma steps_keep: "(\<And>x s. v (fst (f x s)) = v s) \<Longrightarrow> v (fst (steps f xs s)) = v s"
  by (induction xs arbitrary: s) (simp_all del: steps.simps(2))

lemma applyInfo_standing: "standing (fst (applyInfo resolver x g)) = standing g"
  by (auto simp: standing_def applyInfo_def Let_def split: option.splits sum.splits)

lemma prunePeer_standing: "standing (fst (prunePeer x g)) = standing g"
  by (simp add: standing_def prunePeer_def)

lemma infos_standing: "standing (fst (steps (applyInfo resolver) xs g)) = standing g"
  and prunes_standing: "standing (fst (steps prunePeer ys g)) = standing g"
  by (rule steps_keep, rule applyInfo_standing) (rule steps_keep, rule prunePeer_standing)

lemma applyPeers_standing: "standing (fst (applyPeers resolver infos g)) = standing g"
proof -
  obtain g1 es1 where 1: "steps (applyInfo resolver) infos g = (g1, es1)"
    by (cases "steps (applyInfo resolver) infos g") auto
  show ?thesis
    using infos_standing [of resolver infos g]
    by (simp add: prunes_standing applyPeers_def Let_def 1 case_prod_beta)
qed

lemma tunnelPacket_standing: "tunnelPacket api now ok pkt g = Some (g', es) \<Longrightarrow> standing g' = standing g"
proof (cases "ag_bridge g")
  case (Some b)
  assume t: "tunnelPacket api now ok pkt g = Some (g', es)"
  obtain x r h fs k where R: "RoutePacket (sinkSend api now ok) pkt (b_router b) (g, [], False) = (x, r, h, fs, k)"
    by (cases "RoutePacket (sinkSend api now ok) pkt (b_router b) (g, [], False)") auto
  have "standing h = standing g"
    using R RoutePacket_world [of "sinkSend api now ok" pkt "b_router b" "(g, [], False)"]
    by (auto simp: sinkSend_def standing_def split: option.splits prod.splits)
  then show ?thesis using t R Some by (auto simp: tunnelPacket_def standing_def split: if_splits)
qed (simp add: tunnelPacket_def)

lemma dispatchPing_standing: "dispatchPing api now ok m g p = Some (g', q, es) \<Longrightarrow> standing g' = standing g"
  by (auto simp: dispatchPing_def SendJSON_def standing_def split: if_splits option.splits)

lemma agent_step_standing:
  "agent_step hapi api resolver unmarshal ev g = Some (g', es) \<Longrightarrow> standing g' = standing g"
proof (cases ev)
  case (AgList infos)
  assume "agent_step hapi api resolver unmarshal ev g = Some (g', es)"
  then show ?thesis using AgList applyPeers_standing [of resolver infos g] by simp
next
  case (AgDatagram src pkt rnd now)
  assume "agent_step hapi api resolver unmarshal ev g = Some (g', es)"
  then have "receiveDatagram hapi api resolver rnd now src pkt g = Some (g', es)" using AgDatagram by simp
  then show ?thesis by (cases rule: receiveDatagram_cases) simp_all
next
  case (AgPayload pid now ok tok)
  assume "agent_step hapi api resolver unmarshal ev g = Some (g', es)"
  moreover have "standing h = standing g" if "handlePeerPayload unmarshal api now ok tok b g p = Some (h, q, es)" for b p q h es
    using that by (auto simp: handlePeerPayload_def dest: dispatchPing_standing split: if_splits option.splits)
  ultimately show ?thesis using AgPayload by (auto split: option.splits list.splits)
next
  case (AgTun pkt now ok)
  assume "agent_step hapi api resolver unmarshal ev g = Some (g', es)"
  then show ?thesis using AgTun tunnelPacket_standing by simp
next
  case (AgAttach b)
  assume "agent_step hapi api resolver unmarshal ev g = Some (g', es)"
  then show ?thesis using AgAttach by (auto simp: standing_def attachBridge_def)
qed (auto split: option.splits)

section \<open>Control connections are closed\<close>

definition closes :: "nat \<Rightarrow> agent_effect list \<Rightarrow> bool" where
  "closes c es \<longleftrightarrow> CloseCtrl c \<in> set es"

lemma closes_append [simp]: "closes c (es @ fs) \<longleftrightarrow> closes c es \<or> closes c fs"
  by (auto simp: closes_def)

definition good_key :: "gostring \<Rightarrow> bool" where
  "good_key coordKey \<longleftrightarrow> (\<exists>k. ParsePublicKeyHex coordKey = Inr k)"

text \<open>
  A registration that has a key to trust closes the connection there was, and the one it dials is
  then the agent's, or closed at once.
\<close>

lemma register_dial_closes:
  assumes "register_dial coordKey d g = (err, g', es)" "good_key coordKey"
  shows "(\<forall>c. ag_ctrl g = Some c \<longrightarrow> closes c es)
     \<and> (d_dialled d \<longrightarrow> ag_ctrl g' = Some (d_conn d) \<or> closes (d_conn d) es)"
  using assms by (auto simp: register_dial_def register_def good_key_def Let_def closes_def split: if_splits option.splits)

text \<open>The connections dialled so far are closed, but for the one the agent holds.\<close>

lemma run_loop_closes:
  assumes "run_loop hapi api resolver unmarshal coordKey evs g = Some (g', es)" "good_key coordKey"
  shows "(\<forall>c. ag_ctrl g = Some c \<longrightarrow> closes c es)
     \<and> (\<forall>d. Reregister d \<in> set evs \<longrightarrow> d_dialled d \<longrightarrow> closes (d_conn d) es)"
  using assms
proof (induction evs arbitrary: g es)
  case Nil
  then show ?case by (auto simp: CloseAgent_def closes_def split: option.splits)
next
  case (Cons ev evs)
  show ?case
  proof (cases ev)
    case (Reregister d)
    obtain err g1 e1 where r: "register_dial coordKey d g = (err, g1, e1)" by (metis surj_pair)
    obtain e2 where l: "run_loop hapi api resolver unmarshal coordKey evs g1 = Some (g', e2)" "es = e1 @ e2"
      using Cons.prems(1) Reregister r by auto
    show ?thesis
      using Cons.IH [OF l(1) Cons.prems(2)] register_dial_closes [OF r Cons.prems(2)] l(2) Reregister by auto
  next
    case (Meanwhile e)
    obtain g1 e1 e2 where l: "agent_step hapi api resolver unmarshal e g = Some (g1, e1)"
      "run_loop hapi api resolver unmarshal coordKey evs g1 = Some (g', e2)" "es = e1 @ e2"
      using Cons.prems(1) Meanwhile by (auto split: option.splits)
    have "ag_ctrl g1 = ag_ctrl g" using agent_step_standing [OF l(1)] by (simp add: standing_def)
    then show ?thesis using Cons.IH [OF l(2) Cons.prems(2)] l(3) Meanwhile by auto
  qed
qed

text \<open>C24: A daemon leaves no control connection behind. When \<open>Run\<close> returns without an error, after any
  number of registrations that succeeded or failed half-way, and whatever peers, pings and the
  tunnel did in between, every connection it dialled to the coordinator has been closed.\<close>

theorem control_connections_closed:
  assumes "good_key coordKey"
    and "runAgent hapi api resolver unmarshal coordKey
       (setupAgent resolver stunAddr coordKey txid deliveries d cancelled g) tunName bridge evs = Some (None, g', es)"
    and "d' = d \<or> Reregister d' \<in> set evs" "d_dialled d'"
  shows "CloseCtrl (d_conn d') \<in> set es"
proof -
  obtain g1 e0 where s: "setupAgent resolver stunAddr coordKey txid deliveries d cancelled g = (None, g1, e0)"
    using assms(2) by (auto simp: runAgent_def split: prod.splits option.splits)
  obtain g0 e1 where r: "register_dial coordKey d g0 = (None, g1, e1)" "\<And>c. closes c e1 \<Longrightarrow> closes c e0"
    using s by (auto simp: setupAgent_def split: prod.splits option.splits)
  obtain g2 e2 where l: "run_loop hapi api resolver unmarshal coordKey evs g2 = Some (g', e2)" "es = e0 @ e2"
    "ag_ctrl g2 = ag_ctrl g1"
    using assms(2) s by (cases bridge) (auto simp: runAgent_def attachBridge_def split: if_splits)
  show ?thesis
    using run_loop_closes [OF l(1) assms(1)] register_dial_closes [OF r(1) assms(1)] r(2) l(2,3) assms(3,4)
    by (auto simp flip: closes_def)
qed

text \<open>
  Registering again does not resolve the endpoint again: what a registration announces is the
  endpoint that \<^verbatim>\<open>Agent.setup\<close> learned.
\<close>

lemma reregistration_keeps_endpoint:
  assumes "register_dial coordKey d g = (err, g', es)"
  shows "ag_pub g' = ag_pub g \<and> registerMessage g' = registerMessage g"
  using assms by (auto simp: register_dial_def register_def Let_def registerMessage_def publicEndpoints_def split: sum.splits if_splits)

section \<open>Witnesses\<close>

text \<open>The answer of a STUN server that saw \<open>1.2.3.4:5\<close>, and an agent that registers with connection 0.\<close>

definition demo_answer :: bytes where
  "demo_answer = [1, 1, 0, 12, 0x21, 0x12, 0xA4, 0x42] @ replicate 12 9
     @ [0, 0x20, 0, 8, 0, 1, 0x21, 0x17, 0x20, 0x10, 0xA7, 0x46]"

definition demo_public :: UDPAddr where
  "demo_public = \<lparr>a_IP = Some [1, 2, 3, 4], a_Port = 5, a_Zone = []\<rparr>"

lemma demo_answer_decoded:
  "await_endpoint resolver False (replicate 12 9) [Inr demo_answer] = Inr demo_public"
  by code_simp

definition demo_dial :: "nat \<Rightarrow> dial" where
  "demo_dial c = \<lparr>d_conn = c, d_dialled = True, d_secured = True, d_written = True\<rparr>"

definition demo_coord_key :: gostring where
  "demo_coord_key = hex_encode (replicate 32 1)"

lemma demo_good_key: "good_key demo_coord_key" "ParsePublicKeyHex demo_coord_key = Inr (replicate 32 1)"
  by (simp_all add: good_key_def demo_coord_key_def ParsePublicKeyHex_def hex_roundtrip KeySize_def)

lemma demo_setup:
  "setupAgent (\<lambda>_. Some demo_ep) [] demo_coord_key (replicate 12 9) [Inr demo_answer] (demo_dial 0) False (demo_agent 1)
   = (None, (demo_agent 1)\<lparr>ag_pub := Some demo_public, ag_ctrl := Some 0, ag_ctrlConn := Some 0, ag_ctrlCancel := Some 0\<rparr>,
      [WriteUDP demo_ep (EncodeBindingRequest (replicate 12 9)),
       WriteCtrl 0 (EncodeLine (registerMessage ((demo_agent 1)\<lparr>ag_pub := Some demo_public, ag_ctrl := Some 0,
         ag_ctrlConn := Some 0, ag_ctrlCancel := Some 0\<rparr>)))])"
proof -
  have "ResolveUDPAddr (\<lambda>_. Some demo_ep) [] = Some demo_ep" by (simp add: ResolveUDPAddr_def parse_ip4_def)
  then have "resolvePublicEndpoint (\<lambda>_. Some demo_ep) [] (replicate 12 9) [Inr demo_answer] (demo_agent 1)
      = ([WriteUDP demo_ep (EncodeBindingRequest (replicate 12 9))], Some demo_public)"
    by (simp add: resolvePublicEndpoint_def sendDatagram_def demo_answer_decoded del: await_endpoint.simps)
  then show ?thesis
    by (simp add: setupAgent_def register_dial_def register_def demo_dial_def demo_good_key(2) demo_agent_def Let_def)
qed

theorem control_connections_closed_witness:
  "\<exists>g' es. runAgent demo_hapi demo_api (\<lambda>_. Some demo_ep) (\<lambda>_. None) demo_coord_key
       (setupAgent (\<lambda>_. Some demo_ep) [] demo_coord_key (replicate 12 9) [Inr demo_answer] (demo_dial 0) False (demo_agent 1))
       [] (Inl OpenTun) [Reregister (demo_dial 1)] = Some (None, g', es)
     \<and> CloseCtrl 0 \<in> set es \<and> CloseCtrl 1 \<in> set es"
proof -
  obtain g' es where run: "runAgent demo_hapi demo_api (\<lambda>_. Some demo_ep) (\<lambda>_. None) demo_coord_key
       (setupAgent (\<lambda>_. Some demo_ep) [] demo_coord_key (replicate 12 9) [Inr demo_answer] (demo_dial 0) False (demo_agent 1))
       [] (Inl OpenTun) [Reregister (demo_dial 1)] = Some (None, g', es)"
    by (simp add: runAgent_def demo_setup case_prod_beta)
  have "CloseCtrl (d_conn (demo_dial 0)) \<in> set es" "CloseCtrl (d_conn (demo_dial 1)) \<in> set es"
    by (rule control_connections_closed [OF demo_good_key(1) run]; simp add: demo_dial_def)+
  then show ?thesis using run by (auto simp: demo_dial_def)
qed

end
