(* ===== verification/Durations.thy ===== *)
theory Durations
  imports Netaddr
begin

text \<open>
  How durations are shown: \<^verbatim>\<open>Duration.Round\<close> and \<^verbatim>\<open>Duration.String\<close> of package \<^verbatim>\<open>time\<close> and
  the texts \<^verbatim>\<open>cmd/agent/status.go\<close> makes of them, \<^verbatim>\<open>fmtDur\<close> and \<^verbatim>\<open>joinDurs\<close>. \<open>duration_value\<close>
  reads such a text back, which says what it means.
\<close>

section \<open>Package time\<close>

text \<open>\<^verbatim>\<open>Round\<close> to a multiple of \<open>m\<close>, half away from zero, held within the 64-bit range.\<close>

definition Duration_Round :: "duration \<Rightarrow> duration \<Rightarrow> duration" where
  "Duration_Round m d =
     (if m \<le> 0 then d
      else let r = \<bar>d\<bar> mod m
           in if d < 0 then
                if r + r < m then d + r
                else if d - m + r \<ge> min_duration then d - m + r else min_duration
              else if r + r < m then d - r
              else if d + m - r \<le> max_duration then d + m - r else max_duration)"

text \<open>
  \<^verbatim>\<open>fmtFrac\<close> writes the last \<open>prec\<close> digits of \<open>v\<close> behind a point, from the right, once a digit is
  not zero; it gives back the digits and what is left of \<open>v\<close>.
\<close>

fun frac_digits :: "nat \<Rightarrow> nat \<Rightarrow> bool \<Rightarrow> gostring \<Rightarrow> gostring \<times> nat" where
  "frac_digits 0 v print buf = (if print then 46 # buf else buf, v)"
| "frac_digits (Suc prec) v print buf =
     (let digit = v mod 10; print = (print \<or> digit \<noteq> 0)
      in frac_digits prec (v div 10) print (if print then (48 + of_nat digit) # buf else buf))"

definition fmtFrac :: "nat \<Rightarrow> nat \<Rightarrow> gostring \<times> nat" where
  "fmtFrac v prec = frac_digits prec v False []"

definition micro :: gostring where "micro = [0xC2, 0xB5]"

definition below_second :: "nat \<Rightarrow> gostring" where
  "below_second u =
     (let (prec, unit) = (if u < 1000 then (0, lit ''n'') else if u < 1000000 then (3, micro) else (6, lit ''m''));
          (frac, v) = fmtFrac u prec
      in dec v @ frac @ unit @ lit ''s'')"

definition from_second :: "nat \<Rightarrow> gostring" where
  "from_second u =
     (let (frac, s) = fmtFrac u 9; m = s div 60; h = m div 60
      in (if m > 0 then (if h > 0 then dec h @ lit ''h'' else []) @ dec (m mod 60) @ lit ''m'' else [])
         @ dec (s mod 60) @ frac @ lit ''s'')"

definition Duration_String :: "duration \<Rightarrow> gostring" where
  "Duration_String d =
     (let u = nat \<bar>d\<bar>
      in if u = 0 then lit ''0s''
         else (if d < 0 then lit ''-'' else [])
           @ (if u < 1000000000 then below_second u else from_second u))"

section \<open>The texts of the commands\<close>

definition fmtDur :: "duration \<Rightarrow> gostring" where
  "fmtDur d =
     (if d = 0 then lit ''-''
      else if d < second then Duration_String (Duration_Round 1000 d)
      else Duration_String (Duration_Round millisecond d))"

definition joinDurs :: "duration list \<Rightarrow> gostring" where
  "joinDurs ds =
     foldl (\<lambda>out (i, d). (if i > 0 then out @ lit '','' else out) @ fmtDur d) [] (List.enumerate 0 ds)"

section \<open>Reading them back\<close>

text \<open>
  A text is a sequence of numbers with a unit each; a number has an integer part, perhaps a point
  and decimals.
\<close>

definition unit_ns :: "gostring \<Rightarrow> nat option" where
  "unit_ns = map_of [(lit ''ns'', 1), (micro @ lit ''s'', 1000), (lit ''ms'', 1000000),
     (lit ''s'', 1000000000), (lit ''m'', 60 * 1000000000), (lit ''h'', 3600 * 1000000000)]"

definition unit_char :: "byte \<Rightarrow> bool" where
  "unit_char c \<longleftrightarrow> c \<noteq> 46 \<and> \<not> isDigit c"

definition read_number :: "gostring \<Rightarrow> gostring \<times> gostring \<times> gostring" where
  "read_number s =
     (let whole = takeWhile isDigit s; s = dropWhile isDigit s
      in if s \<noteq> [] \<and> hd s = 46 then (whole, takeWhile isDigit (tl s), dropWhile isDigit (tl s))
         else (whole, [], s))"

lemma read_number_length: "read_number s = (whole, frac, s') \<Longrightarrow> length s' \<le> length s"
  by (auto simp: read_number_def Let_def split: if_splits intro: order_trans [OF length_dropWhile_le])
     (metis length_dropWhile_le length_tl diff_le_self order_trans)

lemma unit_ns_nonempty: "unit_ns u = Some ns \<Longrightarrow> u \<noteq> []"
  by (auto simp: unit_ns_def micro_def split: if_splits)

lemma read_terms_smaller:
  assumes "read_number s = (whole, frac, s')" "unit_ns (takeWhile unit_char s') = Some ns"
  shows "length (dropWhile unit_char s') < length s"
proof -
  have "takeWhile unit_char s' \<noteq> []" using unit_ns_nonempty [OF assms(2)] .
  then have "length (dropWhile unit_char s') < length s'"
    by (metis append_Nil2 length_append length_greater_0_conv less_add_same_cancel2 takeWhile_dropWhile_id)
  then show ?thesis using read_number_length [OF assms(1)] by simp
qed

function read_terms :: "gostring \<Rightarrow> nat option" where
  "read_terms s =
     (if s = [] then Some 0
      else case read_number s of (whole, frac, s') \<Rightarrow>
        (case unit_ns (takeWhile unit_char s') of
           None \<Rightarrow> None
         | Some ns \<Rightarrow>
             if whole = [] then None
             else map_option (\<lambda>rest. dec_val whole * ns + dec_val frac * ns div 10 ^ length frac + rest)
               (read_terms (dropWhile unit_char s'))))"
  by pat_completeness auto
termination by (relation "measure length", simp, metis in_measure read_terms_smaller)

declare read_terms.simps [simp del]

definition duration_value :: "gostring \<Rightarrow> duration option" where
  "duration_value s =
     (if take 1 s = lit ''-'' then map_option (\<lambda>n. - int n) (read_terms (drop 1 s))
      else map_option int (read_terms s))"

section \<open>What is shown is what was measured\<close>

lemma dec_val_Nil [simp]: "dec_val [] = 0"
  by (simp add: dec_val_def)

lemma dec_val_Cons: "dec_val (c # s) = unat (c - 48) * 10 ^ length s + dec_val s"
proof -
  have "foldl (\<lambda>a c. 10 * a + unat (c - 48)) x s = x * 10 ^ length s + foldl (\<lambda>a c. 10 * a + unat (c - 48)) 0 s" for x
  proof (induction s rule: rev_induct)
    case (snoc c s)
    then show ?case by (simp add: algebra_simps)
  qed simp
  from this [of "unat (c - 48)"] show ?thesis by (simp add: dec_val_def)
qed

text \<open>The digits behind the point are the remainder, without its trailing zeros.\<close>

lemma frac_digits_value:
  assumes "\<forall>c\<in>set buf. isDigit c" "print \<longleftrightarrow> buf \<noteq> []"
  shows "\<exists>ds. frac_digits prec v print buf = ((if ds = [] then [] else 46 # ds), v div 10 ^ prec)
     \<and> (\<forall>c\<in>set ds. isDigit c) \<and> length ds \<le> prec + length buf
     \<and> dec_val ds * 10 ^ (prec + length buf - length ds) = v mod 10 ^ prec * 10 ^ length buf + dec_val buf"
  using assms
proof (induction prec arbitrary: v print buf)
  case (Suc prec)
  have m: "v mod (10 * 10 ^ prec) = v div 10 mod 10 ^ prec * 10 + v mod 10"
    by (simp add: mod_mult2_eq mult.commute)
  have d: "v div (10 * 10 ^ prec) = v div 10 div 10 ^ prec" by (simp add: div_mult2_eq)
  show ?case
  proof (cases "print \<or> v mod 10 \<noteq> 0")
    case True
    let ?buf = "(48 + of_nat (v mod 10)) # buf"
    have dig: "isDigit (48 + of_nat (v mod 10))" "unat (48 + of_nat (v mod 10) - 48 :: byte) = v mod 10"
      using digit_of_nat [of "v mod 10"] by simp_all
    obtain ds where ds: "frac_digits prec (v div 10) True ?buf = ((if ds = [] then [] else 46 # ds), v div 10 div 10 ^ prec)"
      "\<forall>c\<in>set ds. isDigit c" "length ds \<le> prec + length ?buf"
      "dec_val ds * 10 ^ (prec + length ?buf - length ds) = v div 10 mod 10 ^ prec * 10 ^ length ?buf + dec_val ?buf"
      using Suc.IH [of ?buf True "v div 10"] Suc.prems(1) dig(1) by auto
    have "dec_val ?buf = v mod 10 * 10 ^ length buf + dec_val buf" by (simp only: dec_val_Cons dig(2))
    then show ?thesis
      using ds True by (intro exI [of _ ds]) (simp add: d m algebra_simps Let_def)
  next
    case False
    then have nil: "buf = []" "\<not> print" "v mod 10 = 0" using Suc.prems(2) by auto
    obtain ds where ds: "frac_digits prec (v div 10) False [] = ((if ds = [] then [] else 46 # ds), v div 10 div 10 ^ prec)"
      "\<forall>c\<in>set ds. isDigit c" "length ds \<le> prec"
      "dec_val ds * 10 ^ (prec - length ds) = v div 10 mod 10 ^ prec"
      using Suc.IH [of "[]" False "v div 10"] by auto
    have p: "(10::nat) ^ (Suc prec - length ds) = 10 * 10 ^ (prec - length ds)"
      using ds(3) by (simp add: Suc_diff_le)
    show ?thesis
      using ds(1-3) nil by (intro exI [of _ ds]) (simp add: d m p Let_def flip: ds(4))
  qed
qed (auto intro: exI [of _ buf])

lemma fmtFrac_value:
  obtains ds where "fmtFrac v prec = ((if ds = [] then [] else 46 # ds), v div 10 ^ prec)" "\<forall>c\<in>set ds. isDigit c"
    "dec_val ds * 10 ^ prec div 10 ^ length ds = v mod 10 ^ prec"
proof -
  obtain ds where ds: "fmtFrac v prec = ((if ds = [] then [] else 46 # ds), v div 10 ^ prec)" "\<forall>c\<in>set ds. isDigit c"
    "length ds \<le> prec" "dec_val ds * 10 ^ (prec - length ds) = v mod 10 ^ prec"
    using frac_digits_value [of "[]" False prec v] by (auto simp: fmtFrac_def)
  have "(10::nat) ^ prec = 10 ^ (prec - length ds) * 10 ^ length ds" using ds(3) by (simp flip: power_add)
  then have "dec_val ds * 10 ^ prec div 10 ^ length ds = v mod 10 ^ prec" using ds(4) by simp
  then show ?thesis using that ds by blast
qed

lemma takeWhile_block: "\<forall>c\<in>set xs. P c \<Longrightarrow> ys = [] \<or> \<not> P (hd ys) \<Longrightarrow> takeWhile P (xs @ ys) = xs \<and> dropWhile P (xs @ ys) = ys"
  by (cases ys) (auto simp: takeWhile_append2 dropWhile_append2)

lemma read_terms_step:
  assumes "ws \<noteq> []" "\<forall>c\<in>set ws. isDigit c" "\<forall>c\<in>set ds. isDigit c"
    and u: "unit_ns u = Some ns" "\<forall>c\<in>set u. unit_char c" and rest: "rest = [] \<or> isDigit (hd rest)"
  shows "read_terms (ws @ (if ds = [] then [] else 46 # ds) @ u @ rest)
     = map_option (\<lambda>r. dec_val ws * ns + dec_val ds * ns div 10 ^ length ds + r) (read_terms rest)"
proof -
  let ?s = "ws @ (if ds = [] then [] else 46 # ds) @ u @ rest"
  have hu: "u \<noteq> []" "\<not> isDigit (hd (u @ rest))" "hd (u @ rest) \<noteq> 46" "isDigit 46 = False"
    using unit_ns_nonempty [OF u(1)] u(2) by (cases u; auto simp: unit_char_def isDigit_def)+
  have ru: "takeWhile unit_char (u @ rest) = u \<and> dropWhile unit_char (u @ rest) = rest"
    using takeWhile_block [of u unit_char rest] u(2) rest by (auto simp: unit_char_def)
  have "takeWhile isDigit ?s = ws \<and> dropWhile isDigit ?s = (if ds = [] then [] else 46 # ds) @ u @ rest"
    using takeWhile_block [of ws isDigit "(if ds = [] then [] else 46 # ds) @ u @ rest"] assms(2) hu by auto
  moreover have "takeWhile isDigit (ds @ u @ rest) = ds \<and> dropWhile isDigit (ds @ u @ rest) = u @ rest"
    using takeWhile_block [of ds isDigit "u @ rest"] assms(3) hu by auto
  ultimately have n: "read_number ?s = (ws, ds, u @ rest)"
    using hu(1,3) by (auto simp: read_number_def Let_def)
  show ?thesis
    using assms(1) ru u(1) by (subst read_terms.simps) (simp add: n)
qed

lemma read_terms_Nil [simp]: "read_terms [] = Some 0"
  by (simp add: read_terms.simps)

lemma units [simp]:
  "unit_ns (lit ''ns'') = Some 1" "unit_ns (micro @ lit ''s'') = Some 1000" "unit_ns (lit ''ms'') = Some 1000000"
  "unit_ns (lit ''s'') = Some 1000000000" "unit_ns (lit ''m'') = Some (60 * 1000000000)"
  "unit_ns (lit ''h'') = Some (3600 * 1000000000)"
  "\<forall>c\<in>set (lit ''ns''). unit_char c" "\<forall>c\<in>set (micro @ lit ''s''). unit_char c" "\<forall>c\<in>set (lit ''ms''). unit_char c"
  "\<forall>c\<in>set (lit ''s''). unit_char c" "\<forall>c\<in>set (lit ''m''). unit_char c" "\<forall>c\<in>set (lit ''h''). unit_char c"
  by (simp_all add: unit_ns_def micro_def unit_char_def isDigit_def del: lit_Cons) (simp_all add: unit_char_def isDigit_def)

lemma read_dec:
  assumes "unit_ns u = Some ns" "\<forall>c\<in>set u. unit_char c" "rest = [] \<or> isDigit (hd rest)"
  shows "read_terms (dec n @ u @ rest) = map_option (\<lambda>r. n * ns + r) (read_terms rest)"
  using read_terms_step [of "dec n" "[]" u ns rest] assms dec_digits by simp

lemma read_frac:
  assumes "fmtFrac v prec = (frac, w)" "unit_ns u = Some (10 ^ prec)" "\<forall>c\<in>set u. unit_char c"
  shows "read_terms (dec n @ frac @ u) = Some (n * 10 ^ prec + v mod 10 ^ prec)"
proof -
  obtain ds where "fmtFrac v prec = ((if ds = [] then [] else 46 # ds), v div 10 ^ prec)" "\<forall>c\<in>set ds. isDigit c"
    "dec_val ds * 10 ^ prec div 10 ^ length ds = v mod 10 ^ prec"
    by (rule fmtFrac_value)
  then show ?thesis
    using assms read_terms_step [of "dec n" ds u "10 ^ prec" "[]"] dec_digits by auto
qed

lemma below_second_value: "read_terms (below_second u) = Some u"
proof -
  obtain prec :: nat and unit where pu: "(if u < 1000 then (0, lit ''n'') else if u < 1000000 then (3, micro) else (6, lit ''m'')) = (prec, unit)"
    by (metis surj_pair)
  obtain frac v where fv: "fmtFrac u prec = (frac, v)" by (metis surj_pair)
  have t: "below_second u = dec v @ frac @ unit @ lit ''s''"
    unfolding below_second_def pu Let_def by (simp add: fv)
  have v: "v = u div 10 ^ prec" using fmtFrac_value [of u prec] fv by auto
  have "unit_ns (unit @ lit ''s'') = Some (10 ^ prec) \<and> (\<forall>c\<in>set (unit @ lit ''s''). unit_char c)"
    using pu units by (auto split: if_splits simp del: units)
  then have "read_terms (dec v @ frac @ unit @ lit ''s'') = Some (v * 10 ^ prec + u mod 10 ^ prec)"
    by (intro read_frac [OF fv]) simp_all
  then show ?thesis by (simp only: t v div_mult_mod_eq)
qed

lemma dec_first: "isDigit (hd (dec n @ s))"
  using dec_digits [of n] by (simp add: hd_append)

lemma from_second_value: "read_terms (from_second u) = Some u"
proof -
  let ?s = "u div 1000000000"
  have "(10::nat) ^ 9 = 1000000000" by simp
  then obtain frac where f: "fmtFrac u 9 = (frac, ?s)" using fmtFrac_value [of u 9] by metis
  have secs: "read_terms (dec n @ frac @ lit ''s'') = Some (n * 1000000000 + u mod 1000000000)" for n
    using read_frac [OF f, of "lit ''s''" n] by (simp del: lit_Cons)
  have mins: "read_terms (dec k @ lit ''m'' @ dec n @ frac @ lit ''s'')
      = Some (k * (60 * 1000000000) + (n * 1000000000 + u mod 1000000000))" for k n
    using read_dec [of "lit ''m''" _ "dec n @ frac @ lit ''s''" k] dec_first secs [of n] by (simp del: lit_Cons)
  have hours: "read_terms (dec h @ lit ''h'' @ dec k @ lit ''m'' @ dec n @ frac @ lit ''s'')
      = Some (h * (3600 * 1000000000) + (k * (60 * 1000000000) + (n * 1000000000 + u mod 1000000000)))" for h k n
    using read_dec [of "lit ''h''" _ "dec k @ lit ''m'' @ dec n @ frac @ lit ''s''" h] dec_first mins [of k n]
    by (simp del: lit_Cons)
  define m where "m = ?s div 60"
  have t: "from_second u = (if m > 0 then (if m div 60 > 0 then dec (m div 60) @ lit ''h'' else []) @ dec (m mod 60) @ lit ''m'' else [])
         @ dec (?s mod 60) @ frac @ lit ''s''"
    by (simp add: from_second_def f Let_def m_def del: lit_Cons)
  have u: "u = ?s * 1000000000 + u mod 1000000000" "?s = m * 60 + ?s mod 60" "m = m div 60 * 60 + m mod 60"
    unfolding m_def by simp_all
  have sum: "m * 60000000000 + (?s mod 60 * 1000000000 + u mod 1000000000) = u" using u(1,2) by linarith
  consider "m = 0" | "m > 0" "m div 60 = 0" | "m > 0" "m div 60 > 0" by blast
  then show ?thesis
  proof cases
    case 1
    then show ?thesis using secs [of "?s mod 60"] sum by (simp add: t del: lit_Cons)
  next
    case 2
    then show ?thesis using mins [of "m mod 60" "?s mod 60"] u(3) sum by (simp add: t del: lit_Cons)
  next
    case 3
    have "m div 60 * 3600000000000 + (m mod 60 * 60000000000 + (?s mod 60 * 1000000000 + u mod 1000000000)) = u"
      using sum u(3) by linarith
    then show ?thesis using 3 hours [of "m div 60" "m mod 60" "?s mod 60"] by (simp add: t del: lit_Cons)
  qed
qed

lemma Duration_String_value:
  assumes "0 \<le> d"
  shows "duration_value (Duration_String d) = Some d"
proof -
  have first: "take 1 (below_second u) \<noteq> lit ''-''" "take 1 (from_second u) \<noteq> lit ''-''" for u
  proof -
    have hd: "take 1 (dec n @ s) \<noteq> lit ''-''" for n s
      using dec_first [of n s] by (cases "dec n @ s") (auto simp: isDigit_def)
    show "take 1 (below_second u) \<noteq> lit ''-''"
      using hd by (simp add: below_second_def Let_def split: prod.splits del: lit_Cons take_append)
    show "take 1 (from_second u) \<noteq> lit ''-''"
      using hd by (simp add: from_second_def Let_def split: prod.splits del: lit_Cons take_append)
  qed
  have "read_terms (dec 0 @ lit ''s'') = Some 0"
    using read_dec [of "lit ''s''" _ "[]" 0] by (simp del: lit_Cons)
  then have "duration_value (lit ''0s'') = Some 0" by (simp add: duration_value_def dec.simps)
  then show ?thesis
    using assms first below_second_value from_second_value
    by (auto simp: Duration_String_def Let_def duration_value_def simp del: lit_Cons)
qed

lemma Duration_Round_close:
  assumes "0 \<le> d" "d \<le> max_duration" "0 < m"
  shows "0 \<le> Duration_Round m d \<and> 2 * \<bar>Duration_Round m d - d\<bar> \<le> m"
proof -
  define r where "r = d mod m"
  have "0 \<le> r" "r < m" "r \<le> d" using assms zmod_le_nonneg_dividend by (auto simp: r_def)
  moreover have "\<bar>d\<bar> mod m = r" using assms(1) by (simp add: r_def)
  ultimately show ?thesis using assms by (auto simp: Duration_Round_def Let_def)
qed

lemma joinDurs_join: "joinDurs ds = join (lit '','') (map fmtDur ds)"
proof (cases ds)
  case (Cons d ds')
  have "foldl (\<lambda>out (i, d). (if i > 0 then out @ lit '','' else out) @ fmtDur d) out (List.enumerate (Suc n) ds)
      = out @ concat (map (\<lambda>d. lit '','' @ fmtDur d) ds)" for out n ds
    by (induction ds arbitrary: out n) (simp_all del: lit_Cons)
  then show ?thesis using Cons by (simp add: joinDurs_def join_def comp_def del: lit_Cons)
qed (simp add: joinDurs_def join_def)

lemma fmtDur_no_comma: "44 \<notin> set (fmtDur d)"
proof -
  have frac: "44 \<notin> set (fst (fmtFrac v k))" for v k
    by (rule fmtFrac_value [of v k]) (auto simp: isDigit_def split: if_splits)
  have "44 \<notin> set (dec n)" for n using dec_digits [of n] by (auto simp: isDigit_def)
  then have "44 \<notin> set (below_second u)" "44 \<notin> set (from_second u)" for u
    using frac by (simp_all add: below_second_def from_second_def Let_def micro_def case_prod_beta)
  then have "44 \<notin> set (Duration_String d)" for d by (simp add: Duration_String_def Let_def)
  then show ?thesis by (simp add: fmtDur_def)
qed

lemma split_join:
  assumes "ss \<noteq> []" "\<forall>s\<in>set ss. c \<notin> set s"
  shows "split_on c (join [c] ss) = ss"
proof -
  have split: "split_on c (s @ concat (map (\<lambda>t. [c] @ t) ts)) = s # ts" if "c \<notin> set s" "\<forall>t\<in>set ts. c \<notin> set t" for s ts
    using that
  proof (induction ts arbitrary: s)
    case (Cons t ts)
    then show ?case using split_on_append [of c s "t @ concat (map (\<lambda>t. [c] @ t) ts)"] by simp
  qed (simp add: split_on_plain)
  obtain s ts where "ss = s # ts" using assms(1) by (cases ss) auto
  then show ?thesis using split [of s ts] assms(2) by (simp add: join_def del: append_Cons append_Nil)
qed

text \<open>A shown history of round-trip times means what was measured. The text \<open>joinDurs\<close> makes of a
  list of positive durations splits at its commas into one text for each, and each text reads
  back as a duration that differs from the measured one by at most half a microsecond below a
  second and half a millisecond from a second on.\<close>

theorem shown_durations_accurate:
  assumes "ds \<noteq> []" "\<forall>d\<in>set ds. 0 < d \<and> d \<le> max_duration"
  shows "list_all2 (\<lambda>d s. \<exists>d'. duration_value s = Some d' \<and> \<bar>d' - d\<bar> \<le> (if d < second then 500 else 500000))
     ds (split_on 44 (joinDurs ds))"
proof -
  have "\<exists>d'. duration_value (fmtDur d) = Some d' \<and> \<bar>d' - d\<bar> \<le> (if d < second then 500 else 500000)"
    if "d \<in> set ds" for d
    using assms(2) that Duration_Round_close [of d 1000] Duration_Round_close [of d millisecond]
      Duration_String_value by (auto simp: fmtDur_def)
  moreover have "split_on 44 (joinDurs ds) = map fmtDur ds"
    using split_join [of "map fmtDur ds" 44] assms(1) fmtDur_no_comma by (simp add: joinDurs_join)
  ultimately show ?thesis by (simp add: list_all2_map2 list.rel_refl_strong)
qed

theorem shown_durations_accurate_witness:
  "list_all2 (\<lambda>d s. \<exists>d'. duration_value s = Some d' \<and> \<bar>d' - d\<bar> \<le> (if d < second then 500 else 500000))
     [1234567, 62000400000] (split_on 44 (joinDurs [1234567, 62000400000]))"
  by (rule shown_durations_accurate) (simp_all add: max_duration_def)

end
