(* ===== verification/Dashboard.thy ===== *)
theory Dashboard
  imports Durations Agent_Ping
begin

text \<open>
  The views of an agent in \<^verbatim>\<open>cmd/agent\<close>: the one-shot snapshot of \<^verbatim>\<open>status.go\<close>, as text and
  as the document that is encoded to JSON, and the terminal dashboard of \<^verbatim>\<open>tui.go\<close> with its gate
  of probes. The calls an agent answers and what the terminal library is told are lists.
\<close>

section \<open>Collecting a snapshot\<close>

datatype agent_call =
    CallStart duration
  | CallWaitPeers duration
  | CallPing duration gostring nat
  | CallWaitEstablished duration
  | CallProbeRTT duration gostring
  | CallQueryCoordinator duration
  | CallClose

text \<open>
  What the agent answers: the error of \<open>Start\<close>, the snapshot after the waits, the reply to the
  query, the snapshot at the end.
\<close>

record 'e collect_answers =
  ca_Start :: "'e option"
  ca_waited :: status
  ca_query :: "'e + Message option"
  ca_final :: status

definition blank_status :: status where
  "blank_status = \<lparr>st_Name = [], st_PubKey = [], st_PublicEP = [], st_Relay = [], st_Coordinator = [],
     st_Registry = \<lparr>cs_Count = 0, cs_Total = 0, cs_Up = 0\<rparr>, st_Peers = []\<rparr>"

definition registry_of :: "Message \<Rightarrow> CoordinatorStatus" where
  "registry_of qm = \<lparr>cs_Count = m_Count qm, cs_Total = m_Total qm, cs_Up = m_Up qm\<rparr>"

definition established_ids :: "status \<Rightarrow> gostring list" where
  "established_ids st = map ps_ID (filter ps_Established (st_Peers st))"

definition collectStatus :: "'e collect_answers \<Rightarrow> gostring \<Rightarrow> agent_call list \<times> status \<times> 'e option" where
  "collectStatus ans probePeer =
     (case ca_Start ans of
        Some e \<Rightarrow> ([CallStart (20 * second)], blank_status, Some e)
      | None \<Rightarrow>
          let calls = [CallStart (20 * second), CallWaitPeers (3 * second)]
                @ (if probePeer \<noteq> [] then [CallPing (8 * second) probePeer 1] else [CallWaitEstablished (8 * second)])
                @ map (CallProbeRTT (3 * second)) (established_ids (ca_waited ans))
                @ [CallQueryCoordinator (3 * second), CallClose];
              st = ca_final ans
          in (case ca_query ans of
                Inl e \<Rightarrow> (calls, st, Some e)
              | Inr None \<Rightarrow> (calls, st, None)
              | Inr (Some qm) \<Rightarrow> (calls, st\<lparr>st_Registry := registry_of qm\<rparr>, None)))"

text \<open>\<open>waitEstablished\<close> ends when every peer listed is established, or with its context.\<close>

fun allEstablished :: "PeerStatus list \<Rightarrow> bool" where
  "allEstablished [] = True"
| "allEstablished (p # ps) = (if \<not> ps_Established p then False else allEstablished ps)"

definition waitEstablished :: "(nat \<Rightarrow> status \<times> bool) \<Rightarrow> unit option" where
  "waitEstablished obs = map_option (\<lambda>_. ())
     (wait_loop (\<lambda>n. (allEstablished (st_Peers (fst (obs n))), if snd (obs n) then ContextDone else Ticked)) 0)"

section \<open>The text\<close>

definition newline :: gostring where "newline = [10]"

definition bool_text :: "bool \<Rightarrow> gostring" where
  "bool_text b = (if b then lit ''true'' else lit ''false'')"

definition peer_line :: "PeerStatus \<Rightarrow> gostring" where
  "peer_line p =
     lit ''peer '' @ ps_ID p @ lit '': established='' @ bool_text (ps_Established p) @ lit '' path='' @ ps_Path p
     @ lit '' rtt='' @ fmtDur (ps_LastRTT p) @ lit '' rekeys='' @ Itoa (uint (ps_RekeyCount p))
     @ lit '' age='' @ fmtDur (ps_SessionAge p) @ lit '' endpoint='' @ ps_DirectEP p
     @ (if length (ps_RTTHistory p) > 0 then lit '' rtt_hist='' @ joinDurs (ps_RTTHistory p) else [])
     @ newline"

definition renderStatusText :: "status \<Rightarrow> gostring option \<Rightarrow> gostring" where
  "renderStatusText st qerr =
     lit ''name: '' @ st_Name st @ newline
     @ lit ''pubkey: '' @ st_PubKey st @ newline
     @ lit ''public_endpoint: '' @ st_PublicEP st @ newline
     @ lit ''relay: '' @ st_Relay st @ newline
     @ lit ''coordinator: '' @ st_Coordinator st @ newline
     @ lit ''registry_count: '' @ Itoa (cs_Count (st_Registry st)) @ newline
     @ lit ''registry_total: '' @ Itoa (cs_Total (st_Registry st)) @ newline
     @ lit ''registry_up_s: '' @ Itoa (cs_Up (st_Registry st)) @ newline
     @ (case qerr of None \<Rightarrow> [] | Some e \<Rightarrow> lit ''registry_error: '' @ e @ newline)
     @ concat (map peer_line (st_Peers st))"

section \<open>The document\<close>

text \<open>
  Durations are divided as \<^verbatim>\<open>float64\<close> values, which \<open>over\<close> does, and \<open>secs\<close> is
  \<^verbatim>\<open>Duration.Seconds\<close>; the values of that type are \<open>'f\<close>.
\<close>

record registryJSON =
  rj_Count :: int
  rj_Total :: int
  rj_UpS :: int

record 'f peerJSON =
  pj_ID :: gostring
  pj_Established :: bool
  pj_Path :: gostring
  pj_RTTMs :: "'f option"
  pj_RTTHistoryMs :: "'f list"
  pj_Rekeys :: u64
  pj_AgeS :: 'f
  pj_BytesSent :: u64
  pj_BytesRecv :: u64
  pj_Endpoint :: gostring

record 'f statusJSON =
  sj_Name :: gostring
  sj_PubKey :: gostring
  sj_PublicEP :: gostring
  sj_Relay :: gostring
  sj_Coordinator :: gostring
  sj_Registry :: registryJSON
  sj_RegistryErr :: gostring
  sj_Peers :: "'f peerJSON list"

definition msOf :: "(int \<Rightarrow> int \<Rightarrow> 'f) \<Rightarrow> duration \<Rightarrow> 'f option" where
  "msOf over d = (if d = 0 then None else Some (over d millisecond))"

definition renderPeerJSON :: "(int \<Rightarrow> int \<Rightarrow> 'f) \<Rightarrow> (duration \<Rightarrow> 'f) \<Rightarrow> PeerStatus \<Rightarrow> 'f peerJSON" where
  "renderPeerJSON over secs p =
     \<lparr>pj_ID = ps_ID p, pj_Established = ps_Established p, pj_Path = ps_Path p,
      pj_RTTMs = msOf over (ps_LastRTT p),
      pj_RTTHistoryMs = map (\<lambda>d. over d millisecond) (ps_RTTHistory p),
      pj_Rekeys = ps_RekeyCount p, pj_AgeS = secs (ps_SessionAge p),
      pj_BytesSent = ps_BytesSent p, pj_BytesRecv = ps_BytesRecv p, pj_Endpoint = ps_DirectEP p\<rparr>"

definition renderStatusJSON ::
    "(int \<Rightarrow> int \<Rightarrow> 'f) \<Rightarrow> (duration \<Rightarrow> 'f) \<Rightarrow> status \<Rightarrow> gostring option \<Rightarrow> 'f statusJSON" where
  "renderStatusJSON over secs st qerr =
     \<lparr>sj_Name = st_Name st, sj_PubKey = st_PubKey st, sj_PublicEP = st_PublicEP st,
      sj_Relay = st_Relay st, sj_Coordinator = st_Coordinator st,
      sj_Registry = \<lparr>rj_Count = cs_Count (st_Registry st), rj_Total = cs_Total (st_Registry st),
         rj_UpS = cs_Up (st_Registry st)\<rparr>,
      sj_RegistryErr = (case qerr of None \<Rightarrow> [] | Some e \<Rightarrow> e),
      sj_Peers = map (renderPeerJSON over secs) (st_Peers st)\<rparr>"

text \<open>
  \<open>runStatus\<close>: what it prints, as text or as the document, and its error, that of the encoder;
  \<open>encoded\<close> tells whether the document could be written.
\<close>

definition runStatus ::
    "(int \<Rightarrow> int \<Rightarrow> 'f) \<Rightarrow> (duration \<Rightarrow> 'f) \<Rightarrow> bool \<Rightarrow> bool \<Rightarrow> gostring collect_answers \<Rightarrow> gostring
     \<Rightarrow> (gostring + 'f statusJSON) \<times> bool" where
  "runStatus over secs encoded asJSON ans probePeer =
     (case collectStatus ans probePeer of (calls, st, qerr) \<Rightarrow>
        if asJSON then (Inr (renderStatusJSON over secs st qerr), encoded)
        else (Inl (renderStatusText st qerr), True))"

text \<open>
  An agent that could not even start is shown under an empty status, its error in the line for
  the registry, and the command succeeds.
\<close>

lemma failed_start_succeeds:
  "ca_Start ans = Some e \<Longrightarrow>
   runStatus over secs encoded False ans probePeer = (Inl (renderStatusText blank_status (Some e)), True)"
  by (simp add: runStatus_def collectStatus_def)

section \<open>The header and the table of the dashboard\<close>

text \<open>The middle dot and the ellipsis are UTF-8.\<close>

definition dot_sep :: gostring where "dot_sep = [32, 0xC2, 0xB7, 32]"
definition ellipsis :: gostring where "ellipsis = [0xE2, 0x80, 0xA6]"

definition renderHeader :: "status \<Rightarrow> CoordinatorStatus \<Rightarrow> bool \<Rightarrow> gostring" where
  "renderHeader snap reg regOK =
     (let registry = (if regOK
             then lit ''coordinator registry: '' @ Itoa (cs_Count reg) @ lit '' peers registered (''
                  @ Itoa (cs_Total reg) @ lit '' served, up '' @ Itoa (cs_Up reg) @ lit ''s)''
             else lit ''coordinator registry: unknown'');
          key = (if length (st_PubKey snap) > 16 then take 16 (st_PubKey snap) @ ellipsis else st_PubKey snap)
      in lit ''[lime]meshlink [-:-:-]name=[aqua]'' @ st_Name snap @ lit ''[-]'' @ dot_sep @ lit ''key='' @ key @ newline
         @ lit ''public endpoint=[aqua]'' @ st_PublicEP snap @ lit ''[-]'' @ dot_sep @ lit ''relay=[aqua]'' @ st_Relay snap
         @ lit ''[-]'' @ dot_sep @ lit ''coordinator=[aqua]'' @ st_Coordinator snap @ lit ''[-]'' @ newline
         @ registry)"

datatype color = ColorWhite | ColorGray | ColorGreen | ColorYellow | ColorRed

record cell =
  cell_Text :: gostring
  cell_TextColor :: "color option"
  cell_Background :: "color option"

datatype table_call = TableClear | SetCell nat nat cell

definition plain_cell :: "gostring \<Rightarrow> cell" where
  "plain_cell t = \<lparr>cell_Text = t, cell_TextColor = None, cell_Background = None\<rparr>"

definition headers :: "gostring list" where
  "headers = [lit ''Peer'', lit ''Direct EP'', lit ''Est.'', lit ''Path'', lit ''RTT'', lit ''RTT history'',
     lit ''Rekeys'', lit ''Age'']"

definition path_color :: "gostring \<Rightarrow> color" where
  "path_color t = (if t = lit ''direct'' then ColorGreen else if t = lit ''relay'' then ColorYellow else ColorRed)"

definition peer_cells :: "PeerStatus \<Rightarrow> cell list" where
  "peer_cells p =
     (let (estText, estColor) = (if ps_Established p then (lit ''yes'', ColorGreen) else (lit ''no'', ColorRed))
      in [plain_cell (ps_ID p), plain_cell (ps_DirectEP p),
          plain_cell estText\<lparr>cell_TextColor := Some estColor\<rparr>,
          plain_cell (ps_Path p)\<lparr>cell_TextColor := Some (path_color (ps_Path p))\<rparr>,
          plain_cell (fmtDur (ps_LastRTT p)), plain_cell (joinDurs (ps_RTTHistory p)),
          plain_cell (Itoa (uint (ps_RekeyCount p))), plain_cell (fmtDur (ps_SessionAge p))])"

definition set_row :: "nat \<Rightarrow> cell list \<Rightarrow> table_call list" where
  "set_row row cells = map (\<lambda>(c, x). SetCell row c x) (List.enumerate 0 cells)"

definition renderTable :: "status \<Rightarrow> table_call list" where
  "renderTable snap =
     TableClear
     # set_row 0 (map (\<lambda>h. \<lparr>cell_Text = h, cell_TextColor = Some ColorWhite, cell_Background = Some ColorGray\<rparr>) headers)
     @ (if length (st_Peers snap) = 0
        then [SetCell 1 0 (plain_cell (lit ''no known peers yet (waiting for the coordinator peer list)'')
                \<lparr>cell_TextColor := Some ColorGray\<rparr>)]
        else concat (map (\<lambda>(r, p). set_row (r + 1) (peer_cells p)) (List.enumerate 0 (st_Peers snap))))"

text \<open>What a table shows after some calls: the last cell set at a place, unless it was cleared since.\<close>

fun shown_cells :: "table_call list \<Rightarrow> (nat \<times> nat \<Rightarrow> cell option) \<Rightarrow> nat \<times> nat \<Rightarrow> cell option" where
  "shown_cells [] t = t"
| "shown_cells (TableClear # calls) t = shown_cells calls Map.empty"
| "shown_cells (SetCell r c x # calls) t = shown_cells calls (t((r, c) \<mapsto> x))"

section \<open>The gate of probes\<close>

record tuiState =
  ts_registry :: CoordinatorStatus
  ts_registryOK :: bool
  ts_probing :: "(gostring, bool) gomap"

definition new_tuiState :: tuiState where
  "new_tuiState = \<lparr>ts_registry = \<lparr>cs_Count = 0, cs_Total = 0, cs_Up = 0\<rparr>, ts_registryOK = False, ts_probing = []\<rparr>"

definition setRegistry :: "CoordinatorStatus \<Rightarrow> tuiState \<Rightarrow> tuiState" where
  "setRegistry r s = s\<lparr>ts_registry := r, ts_registryOK := True\<rparr>"

definition snapshot :: "tuiState \<Rightarrow> CoordinatorStatus \<times> bool" where
  "snapshot s = (ts_registry s, ts_registryOK s)"

text \<open>
  One peer of a tick's snapshot: a probe of it is started, as a goroutine, unless it has no
  session or is still being probed. The goroutine's last act is to open the gate again.
\<close>

definition gate_probe :: "PeerStatus \<Rightarrow> tuiState \<Rightarrow> tuiState \<times> gostring list" where
  "gate_probe p s =
     (if \<not> ps_Established p then (s, [])
      else if map_of (ts_probing s) (ps_ID p) = Some True then (s, [])
      else (s\<lparr>ts_probing := AList.update (ps_ID p) True (ts_probing s)\<rparr>, [ps_ID p]))"

definition probe_done :: "gostring \<Rightarrow> tuiState \<Rightarrow> tuiState" where
  "probe_done pid s = s\<lparr>ts_probing := AList.delete pid (ts_probing s)\<rparr>"

text \<open>What a redraw tells the terminal library.\<close>

definition render :: "status \<Rightarrow> tuiState \<Rightarrow> gostring \<times> table_call list" where
  "render snap s = (case snapshot s of (reg, regOK) \<Rightarrow> (renderHeader snap reg regOK, renderTable snap))"

text \<open>
  The dashboard in steps: a tick takes a snapshot and goes through its peers, while probes end
  and the reply of the coordinator comes in. \<open>running\<close> are the probes in flight, \<open>todo\<close> the
  peers a tick has still to look at.
\<close>

record dashboard =
  db_state :: tuiState
  db_running :: "gostring list"
  db_todo :: "PeerStatus list"

inductive tui_step :: "dashboard \<Rightarrow> dashboard \<Rightarrow> bool" where
  tick: "db_todo d = [] \<Longrightarrow> tui_step d (d\<lparr>db_todo := st_Peers (snap :: status)\<rparr>)"
| gate: "db_todo d = p # ps \<Longrightarrow> gate_probe p (db_state d) = (s, started) \<Longrightarrow>
    tui_step d (d\<lparr>db_state := s, db_running := started @ db_running d, db_todo := ps\<rparr>)"
| ended: "pid \<in> set (db_running d) \<Longrightarrow>
    tui_step d (d\<lparr>db_state := probe_done pid (db_state d), db_running := remove1 pid (db_running d)\<rparr>)"
| registry: "tui_step d (d\<lparr>db_state := setRegistry r (db_state d)\<rparr>)"

definition new_dashboard :: dashboard where
  "new_dashboard = \<lparr>db_state = new_tuiState, db_running = [], db_todo = []\<rparr>"

inductive_cases tui_stepE: "tui_step d d'"

section \<open>The snapshot lists the tracked peers\<close>

lemma map_filter_total: "\<forall>x\<in>set xs. \<exists>y. f x = Some y \<and> g y = x \<Longrightarrow> map g (List.map_filter f xs) = xs"
  by (induction xs) (auto simp: List.map_filter_simps)

lemma Status_ids:
  assumes "agent_ok A g"
  shows "map ps_ID (st_Peers (Status now g)) = sorted_list_of_set (dom (map_of (ag_peers g)))"
proof -
  have ok: "distinct (map fst (ag_peers g))" using assms by (simp add: agent_ok_def)
  have "\<exists>y. map_option (peerStatus now g i) (map_of (ag_peers g) i) = Some y \<and> ps_ID y = i"
    if "i \<in> set (map fst (ag_peers g))" for i
  proof -
    have "map_of (ag_peers g) i \<noteq> None" using that by (simp add: map_of_eq_None_iff)
    then obtain p where p: "map_of (ag_peers g) i = Some p" by blast
    then have "p_ID p = i" using assms by (simp add: agent_ok_def tracked_ok_def)
    then show ?thesis using p by (simp add: peerStatus_def)
  qed
  then have "map ps_ID (st_Peers (Status now g)) = sort (map fst (ag_peers g))"
    by (simp add: Status_def map_filter_total)
  then show ?thesis
    using sorted_list_of_set_sort_remdups [of "map fst (ag_peers g)"] ok
    by (simp add: distinct_remdups_id dom_map_of_conv_image_fst)
qed

lemma Status_peers:
  assumes "s \<in> set (st_Peers (Status now g))"
  obtains i p where "map_of (ag_peers g) i = Some p" "s = peerStatus now g i p"
  using assms by (auto simp: Status_def List.map_filter_def)

text \<open>The snapshot is the peer table. Whatever an agent has been through, \<open>Status\<close> lists each
  peer it tracks exactly once, sorted by name and none else, each with the state of its session
  as it is.\<close>

theorem status_lists_tracked_peers:
  assumes "newAgent resolver name coordinator door rel keys bound = Inr g"
    and "agent_run hapi api resolver unmarshal evs g = Some (g', es)"
  shows "map ps_ID (st_Peers (Status now g')) = sorted_list_of_set (dom (map_of (ag_peers g')))
     \<and> (\<forall>s\<in>set (st_Peers (Status now g')). \<exists>p. map_of (ag_peers g') (ps_ID s) = Some p
          \<and> ps_Established s = p_established p \<and> ps_RekeyCount s = p_rekeyCount p)"
proof -
  have ok: "agent_ok (announced evs) g'"
    using agent_run_ok [OF assms(2) agent_ok_mono [OF newAgent_ok [OF assms(1)]]] by blast
  have "\<exists>p. map_of (ag_peers g') (ps_ID s) = Some p \<and> ps_Established s = p_established p \<and> ps_RekeyCount s = p_rekeyCount p"
    if l: "s \<in> set (st_Peers (Status now g'))" for s
  proof -
    obtain i p where p: "map_of (ag_peers g') i = Some p" "s = peerStatus now g' i p" by (rule Status_peers [OF l])
    then have "p_ID p = i" using ok unfolding agent_ok_def tracked_ok_def by blast
    then show ?thesis using p by (simp add: peerStatus_def)
  qed
  then show ?thesis using Status_ids [OF ok] by blast
qed

section \<open>The table shows the snapshot\<close>

lemma shown_append: "shown_cells (xs @ ys) t = shown_cells ys (shown_cells xs t)"
proof (induction xs arbitrary: t)
  case (Cons x xs)
  then show ?case by (cases x) (simp_all only: append_Cons shown_cells.simps)
qed simp

lemma shown_row_from:
  "shown_cells (map (\<lambda>(c, x). SetCell row c x) (List.enumerate n cells)) t (r, c)
   = (if r = row \<and> n \<le> c \<and> c < n + length cells then Some (cells ! (c - n)) else t (r, c))"
proof (induction cells arbitrary: n t)
  case (Cons x cells)
  show ?case using Cons.IH [of "Suc n"] by (auto simp: nth_Cons')
qed auto

lemma shown_row: "shown_cells (set_row row cells) t (r, c) = (if r = row \<and> c < length cells then Some (cells ! c) else t (r, c))"
  using shown_row_from [of row 0 cells t r c] by (simp add: set_row_def)

lemma shown_rows:
  assumes "\<forall>p\<in>set ps. length (f p) = k"
  shows "shown_cells (concat (map (\<lambda>(r, p). set_row (Suc r) (f p)) (List.enumerate n ps))) t (r, c)
   = (if n < r \<and> r \<le> n + length ps \<and> c < k then Some (f (ps ! (r - Suc n)) ! c) else t (r, c))"
  using assms
proof (induction ps arbitrary: n t)
  case (Cons p ps)
  then show ?case
    using Cons.IH [of "Suc n" "shown_cells (set_row (Suc n) (f p)) t"]
    by (auto simp: shown_append shown_row nth_Cons')
qed auto

lemma length_headers [simp]: "length headers = 8"
  by (simp add: headers_def)

lemma length_peer_cells [simp]: "length (peer_cells p) = 8"
  by (simp add: peer_cells_def Let_def split: prod.splits)

text \<open>The dashboard shows the snapshot and nothing else. After a redraw, whatever the table held
  before, row \<open>r + 1\<close> shows the cells of the r-th peer of the snapshot and no other row below the
  headers shows anything, so a peer that is gone leaves no stale row.\<close>

theorem table_shows_snapshot:
  assumes "st_Peers snap \<noteq> []" "0 < r"
  shows "shown_cells (earlier @ renderTable snap) t (r, c)
     = (if r \<le> length (st_Peers snap) \<and> c < length headers then Some (peer_cells (st_Peers snap ! (r - 1)) ! c) else None)"
  using assms by (simp add: renderTable_def shown_append shown_row shown_rows [where k = 8])

section \<open>Probes do not overlap\<close>

text \<open>The gate is closed exactly for the peers that are being probed, each by one probe.\<close>

definition gate_ok :: "dashboard \<Rightarrow> bool" where
  "gate_ok d \<longleftrightarrow> distinct (db_running d)
     \<and> (\<forall>pid. map_of (ts_probing (db_state d)) pid = (if pid \<in> set (db_running d) then Some True else None))"

lemma tui_step_ok: "tui_step d d' \<Longrightarrow> gate_ok d \<Longrightarrow> gate_ok d'"
  by (cases rule: tui_step.cases, assumption)
    (auto simp: gate_ok_def gate_probe_def probe_done_def setRegistry_def update_conv' delete_conv' split: if_splits)

lemma tui_run_ok: "tui_step\<^sup>*\<^sup>* new_dashboard d \<Longrightarrow> gate_ok d"
proof (induction rule: rtranclp_induct)
  case base
  then show ?case by (simp add: gate_ok_def new_dashboard_def new_tuiState_def)
qed (rule tui_step_ok)

text \<open>C25: The dashboard never floods a slow peer. However ticks, probes and replies interleave, no two
  probes of one peer are in flight, and the gate starts a probe of a peer exactly when it has a
  session and none is in flight.\<close>

theorem dashboard_probes_never_overlap:
  assumes "tui_step\<^sup>*\<^sup>* new_dashboard d"
  shows "distinct (db_running d)
     \<and> snd (gate_probe p (db_state d)) = (if ps_Established p \<and> ps_ID p \<notin> set (db_running d) then [ps_ID p] else [])"
  using tui_run_ok [OF assms] by (simp add: gate_ok_def gate_probe_def)

section \<open>Witnesses\<close>

theorem status_lists_tracked_peers_witness:
  "\<exists>g' es. agent_run demo_hapi demo_api demo_resolver (\<lambda>_. None) [AgList [demo_info] :: unit agent_event] (demo_agent 1) = Some (g', es)
     \<and> map ps_ID (st_Peers (Status 5 g')) = [[2]]"
proof -
  obtain g' es where r: "agent_run demo_hapi demo_api demo_resolver (\<lambda>_. None) [AgList [demo_info] :: unit agent_event] (demo_agent 1) = Some (g', es)"
    "g' = fst (applyPeers demo_resolver [demo_info] (demo_agent 1))"
    by (cases "applyPeers demo_resolver [demo_info] (demo_agent 1)") simp
  have "dom (map_of (ag_peers g')) = {[2]}"
    using r(2) by (simp add: fst_applyPeers applyInfo_def Let_def)
  then show ?thesis
    using status_lists_tracked_peers [OF demo_agent_new r(1), of 5] r(1) by auto
qed

definition demo_row :: PeerStatus where
  "demo_row = \<lparr>ps_ID = [98], ps_Established = True, ps_Path = lit ''direct'', ps_LastRTT = 1500000,
     ps_RTTHistory = [1500000], ps_RekeyCount = 0, ps_SessionAge = 3000000000, ps_BytesSent = 1, ps_BytesRecv = 2,
     ps_DirectEP = []\<rparr>"

lemma demo_row_fields [simp]: "ps_ID demo_row = [98]" "ps_Established demo_row"
  by (simp_all add: demo_row_def)

theorem table_shows_snapshot_witness:
  "shown_cells ([SetCell 2 0 (plain_cell [99])] @ renderTable (blank_status\<lparr>st_Peers := [demo_row]\<rparr>)) Map.empty (2, 0) = None
   \<and> shown_cells ([SetCell 1 0 (plain_cell [99])] @ renderTable (blank_status\<lparr>st_Peers := [demo_row]\<rparr>)) Map.empty (1, 0)
     = Some (plain_cell [98])"
  using table_shows_snapshot [of "blank_status\<lparr>st_Peers := [demo_row]\<rparr>" 2 "[SetCell 2 0 (plain_cell [99])]" Map.empty 0]
    table_shows_snapshot [of "blank_status\<lparr>st_Peers := [demo_row]\<rparr>" 1 "[SetCell 1 0 (plain_cell [99])]" Map.empty 0]
  by (simp add: peer_cells_def Let_def)

theorem dashboard_probes_never_overlap_witness:
  "\<exists>d. tui_step\<^sup>*\<^sup>* new_dashboard d \<and> db_running d = [[98]] \<and> snd (gate_probe demo_row (db_state d)) = []"
proof -
  let ?d1 = "new_dashboard\<lparr>db_todo := [demo_row]\<rparr>"
  let ?s = "fst (gate_probe demo_row new_tuiState)"
  have "tui_step new_dashboard ?d1"
    using tui_step.tick [of new_dashboard "blank_status\<lparr>st_Peers := [demo_row]\<rparr>"] by (simp add: new_dashboard_def)
  moreover have "tui_step ?d1 (?d1\<lparr>db_state := ?s, db_running := [[98]] @ db_running ?d1, db_todo := []\<rparr>)"
    by (rule tui_step.gate [of _ demo_row "[]"]) (simp_all add: new_dashboard_def gate_probe_def new_tuiState_def)
  ultimately have run: "tui_step\<^sup>*\<^sup>* new_dashboard (?d1\<lparr>db_state := ?s, db_running := [[98]] @ db_running ?d1, db_todo := []\<rparr>)"
    by (meson converse_rtranclp_into_rtranclp r_into_rtranclp)
  show ?thesis
    using run dashboard_probes_never_overlap [OF run, of demo_row]
    by (intro exI [of _ "?d1\<lparr>db_state := ?s, db_running := [[98]] @ db_running ?d1, db_todo := []\<rparr>"])
      (simp add: new_dashboard_def)
qed

end
