(* ===== verification/Servers.thy ===== *)
theory Servers
  imports Natbox Relay Stun Coordinator
begin

text \<open>
  The loops around the handlers: the goroutines of \<^verbatim>\<open>internal/nat/nat.go\<close> and of
  \<^verbatim>\<open>internal/relay/relay.go\<close> that read datagrams, and the coordinator's construction, STUN loop
  and \<open>Close\<close> in \<^verbatim>\<open>internal/coordinator/coordinator.go\<close>. A loop is a function of what its
  socket delivers to it.
\<close>

section \<open>The NAT box\<close>

text \<open>A datagram with what the handler asks of the world: the time, a new socket, the write.\<close>

type_synonym door_read = "bytes \<times> UDPAddr option \<times> gotime \<times> (sock \<times> int) option \<times> bool"
type_synonym public_read = "bytes \<times> UDPAddr \<times> gotime \<times> bool"

definition serveOutbound :: "(gostring \<Rightarrow> UDPAddr option) \<Rightarrow> (bool + door_read) list \<Rightarrow> box \<Rightarrow> (box \<times> delivery list) option" where
  "serveOutbound resolver =
     serve_loop incDroppedBox (\<lambda>(pkt, src, now, alloc, ok) b. handleOutbound resolver b pkt src now alloc ok)"

definition serveInbound :: "sock \<Rightarrow> (bool + public_read) list \<Rightarrow> box \<Rightarrow> (box \<times> delivery list) option" where
  "serveInbound conn = serve_loop incDroppedBox (\<lambda>(pkt, src, now, ok) b. Some (handleInbound b conn pkt src now ok))"

definition serveInboundFixed :: "(bool + public_read) list \<Rightarrow> box \<Rightarrow> (box \<times> delivery list) option" where
  "serveInboundFixed rs b = (case b_fixedConn b of None \<Rightarrow> None | Some conn \<Rightarrow> serveInbound conn rs b)"

definition serveInboundSymmetric :: "sock \<Rightarrow> (bool + public_read) list \<Rightarrow> box \<Rightarrow> (box \<times> delivery list) option" where
  "serveInboundSymmetric conn rs b = serveInbound conn rs b"

text \<open>
  \<open>Run\<close> has these loops and the cleanup in goroutines; what the box does is some interleaving of
  their turns, with reads of its statistics and the \<open>Close\<close> at the end.
\<close>

datatype nat_turn = Handles nat_event | ReadFails

fun nat_serve :: "(gostring \<Rightarrow> UDPAddr option) \<Rightarrow> nat_turn list \<Rightarrow> box \<Rightarrow> (box \<times> delivery list) option" where
  "nat_serve resolver [] b = Some (b, [])"
| "nat_serve resolver (ReadFails # ts) b = nat_serve resolver ts (incDroppedBox b)"
| "nat_serve resolver (Handles ev # ts) b =
     (case nat_step resolver b ev of
        None \<Rightarrow> None
      | Some (b, out) \<Rightarrow> map_option (\<lambda>(b, out'). (b, out @ out')) (nat_serve resolver ts b))"

definition door_turn :: "bool + door_read \<Rightarrow> nat_turn" where
  "door_turn r = (case r of Inl stop \<Rightarrow> ReadFails | Inr (pkt, src, now, alloc, ok) \<Rightarrow> Handles (EvDoor pkt src now alloc ok))"

definition public_turn :: "sock \<Rightarrow> bool + public_read \<Rightarrow> nat_turn" where
  "public_turn conn r = (case r of Inl stop \<Rightarrow> ReadFails | Inr (pkt, src, now, ok) \<Rightarrow> Handles (EvPublic conn pkt src now ok))"

text \<open>A loop alone takes its turns until the read that ends it.\<close>

lemma serveOutbound_turns:
  "serveOutbound resolver rs b = nat_serve resolver (map door_turn (takeWhile (\<lambda>r. r \<noteq> Inl True) rs)) b"
proof (induction rs arbitrary: b)
  case (Cons r rs)
  then show ?case
    by (cases r) (auto simp: serveOutbound_def door_turn_def split: prod.splits option.splits)
qed (simp add: serveOutbound_def)

lemma serveInbound_turns:
  "serveInbound conn rs b = nat_serve resolver (map (public_turn conn) (takeWhile (\<lambda>r. r \<noteq> Inl True) rs)) b"
proof (induction rs arbitrary: b)
  case (Cons r rs)
  then show ?case
    by (cases r) (auto simp: serveInbound_def public_turn_def split: prod.splits option.splits)
qed (simp add: serveInbound_def)

text \<open>The statistics of a box, summed as 64-bit numbers.\<close>

definition nat_total :: "box \<Rightarrow> u64" where
  "nat_total b = ns_Outbound (b_stats b) + ns_Inbound (b_stats b) + ns_Dropped (b_stats b)"

definition is_read :: "nat_turn \<Rightarrow> bool" where
  "is_read t = (case t of
       ReadFails \<Rightarrow> True
     | Handles ev \<Rightarrow> (case ev of EvDoor _ _ _ _ _ \<Rightarrow> True | EvPublic _ _ _ _ _ \<Rightarrow> True | _ \<Rightarrow> False))"

lemma closeSock_stats [simp]: "b_stats (closeSock c b) = b_stats b"
  by (simp add: closeSock_def split: option.splits)

lemma reclaim_stats [simp]: "b_stats (reclaimLocked k e b) = b_stats b"
  by (simp add: reclaimLocked_def Let_def)

lemma fold_stats: "(\<And>x b. b_stats (f x b) = b_stats b) \<Longrightarrow> b_stats (fold f xs b) = b_stats b"
  by (induction xs arbitrary: b) auto

lemma prune_stats [simp]: "b_stats (pruneExpired now b) = b_stats b"
  unfolding pruneExpired_def by (rule fold_stats) (auto split: prod.splits)

lemma close_stats [simp]: "b_stats (CloseBox b) = b_stats b"
  unfolding CloseBox_def Let_def by (simp, subst fold_stats) (auto split: prod.splits)

lemma outboundSocket_stats: "outboundSocket b dst now alloc = Some (r, b') \<Longrightarrow> b_stats b' = b_stats b"
  by (auto simp: outboundSocket_def Let_def split: option.splits if_splits prod.splits)

lemma nat_step_total:
  assumes "nat_step resolver b ev = Some (b', out)"
  shows "nat_total b' = nat_total b + (if is_read (Handles ev) then 1 else 0)"
proof (cases ev)
  case (EvDoor pkt src now alloc ok)
  then show ?thesis
    using assms by (auto simp: nat_total_def is_read_def handleOutbound_def incDroppedBox_def incOutbound_def
        dest!: outboundSocket_stats split: if_splits sum.splits option.splits prod.splits)
next
  case (EvPublic k pkt src now ok)
  then show ?thesis
    using assms by (auto simp: nat_total_def is_read_def handleInbound_def incDroppedBox_def incInbound_def split: if_splits)
qed (use assms in \<open>auto simp: nat_total_def is_read_def cleanup_def Stats_snd\<close>)

text \<open>The box accounts for every datagram. However its loops interleave with each other, with the
  cleanup, with reads of the statistics and with \<open>Close\<close>, the counters for outbound, inbound and
  dropped datagrams add up, modulo 2 to the 64, to the number of reads its loops made.\<close>

theorem nat_accounting:
  assumes "nat_serve resolver ts b = Some (b', out)"
  shows "nat_total b' = nat_total b + of_nat (length (filter is_read ts))"
  using assms
proof (induction ts arbitrary: b out)
  case (Cons t ts)
  show ?case
  proof (cases t)
    case (Handles ev)
    then obtain b1 o1 o2 where s: "nat_step resolver b ev = Some (b1, o1)" "nat_serve resolver ts b1 = Some (b', o2)"
      using Cons.prems by (auto split: option.splits)
    then show ?thesis using nat_step_total [OF s(1)] Cons.IH [OF s(2)] Handles by simp
  next
    case ReadFails
    then show ?thesis
      using Cons.IH [of "incDroppedBox b"] Cons.prems
      by (simp add: is_read_def nat_total_def incDroppedBox_def)
  qed
qed simp

section \<open>The relay\<close>

type_synonym relay_read = "bytes \<times> UDPAddr option \<times> gotime \<times> bool"

definition serveRelay :: "(bool + relay_read) list \<Rightarrow> relay_server \<Rightarrow> (relay_server \<times> (bytes \<times> UDPAddr option) list) option" where
  "serveRelay = serve_loop incDropped (\<lambda>(pkt, src, now, ok) s. Some (handlePacket s pkt src now ok))"

section \<open>What the loops count\<close>

lemma serve_turn_counts:
  "handleOutbound resolver b pkt src now alloc ok = Some (b', out) \<Longrightarrow> nat_total b' = nat_total b + 1"
  "handleInbound b conn pkt' from' now ok = (b', out) \<Longrightarrow> nat_total b' = nat_total b + 1"
  using nat_step_total [of resolver b "EvDoor pkt src now alloc ok" b' out]
    nat_step_total [of resolver b "EvPublic conn pkt' from' now ok" b' out] by (simp_all add: is_read_def)

lemma incDroppedBox_total: "nat_total (incDroppedBox b) = nat_total b + 1"
  by (simp add: nat_total_def incDroppedBox_def)

interpretation door: accounted_server incDroppedBox
    "\<lambda>(pkt, src, now, alloc, ok) b. handleOutbound resolver b pkt src now alloc ok" nat_total for resolver
  by unfold_locales (auto simp: incDroppedBox_total serve_turn_counts(1))

interpretation public: accounted_server incDroppedBox
    "\<lambda>(pkt, src, now, ok) b. Some (handleInbound b conn pkt src now ok)" nat_total for conn
  by unfold_locales (auto simp: incDroppedBox_total serve_turn_counts(2))

interpretation relayed: accounted_server incDropped
    "\<lambda>(pkt, src, now, ok) s. Some (handlePacket s pkt src now ok)" "\<lambda>s. outcome_sum (r_stats s)"
  by unfold_locales (auto simp: handlePacket_outcomes)

text \<open>C18: Every datagram is accounted for. The loops of the NAT box on its inside door and on a public
  socket and the loop of the relay each move the sum of their server's counters by the number
  of reads they made, whether a read gave a datagram that was passed on, one that was refused
  for any reason, or an error; the relay's loop always gets that far.\<close>

theorem read_loops_account:
  "(case serveOutbound resolver rs b of None \<Rightarrow> True
     | Some (b', out) \<Rightarrow> nat_total b' = nat_total b + of_nat (length (takeWhile (\<lambda>r. r \<noteq> Inl True) rs)))
   \<and> (case serveInboundSymmetric conn ps b of None \<Rightarrow> False
     | Some (b', out) \<Rightarrow> nat_total b' = nat_total b + of_nat (length (takeWhile (\<lambda>r. r \<noteq> Inl True) ps)))
   \<and> (case serveRelay qs s of None \<Rightarrow> False
     | Some (s', out) \<Rightarrow> outcome_sum (r_stats s') = outcome_sum (r_stats s) + of_nat (length (takeWhile (\<lambda>r. r \<noteq> Inl True) qs)))"
proof -
  have "serveInbound conn ps b \<noteq> None" "serveRelay qs s \<noteq> None"
    unfolding serveInbound_def serveRelay_def by (rule public.loop_total relayed.loop_total; auto)+
  then show ?thesis
    using door.loop_counts [of resolver rs b] public.loop_counts [of conn ps b] relayed.loop_counts [of qs s]
    by (auto simp: serveOutbound_def serveInboundSymmetric_def serveInbound_def serveRelay_def split: option.splits)
qed

section \<open>The coordinator\<close>

datatype coordinator_error = KeyfileRequired | KeyfileError key_error | ListenControlFailed | ListenStunFailed

record coordinator_server =
  cv_kp :: Keypair
  cv_coord :: coord
  cv_closed :: bool

datatype server_effect = CloseListener | CloseStun | CloseClient conn

text \<open>\<open>New\<close>: \<open>keys\<close> is what \<^verbatim>\<open>LoadOrCreateKeyfile\<close> returns; the listeners open or not.\<close>

definition newServer ::
    "gostring \<Rightarrow> key_error + Keypair \<Rightarrow> bool \<Rightarrow> bool \<Rightarrow> gotime
     \<Rightarrow> (coordinator_error + coordinator_server) \<times> server_effect list" where
  "newServer keyfile keys ctrl_bound stun_bound now =
     (if keyfile = [] then (Inl KeyfileRequired, [])
      else (case keys of
              Inl e \<Rightarrow> (Inl (KeyfileError e), [])
            | Inr kp \<Rightarrow>
                if \<not> ctrl_bound then (Inl ListenControlFailed, [])
                else if \<not> stun_bound then (Inl ListenStunFailed, [CloseListener])
                else (Inr \<lparr>cv_kp = kp, cv_coord = newCoord now, cv_closed = False\<rparr>, [])))"

definition PublicKeyHex :: "coordinator_server option \<Rightarrow> gostring" where
  "PublicKeyHex s = (case s of None \<Rightarrow> [] | Some s \<Rightarrow> PublicHex (Some (cv_kp s)))"

text \<open>\<open>Close\<close>: every client that is connected is closed too; only the first call does it.\<close>

definition closeServer :: "coordinator_server \<Rightarrow> coordinator_server \<times> server_effect list" where
  "closeServer s =
     (if cv_closed s then (s, [])
      else (s\<lparr>cv_closed := True\<rparr>,
            [CloseListener, CloseStun] @ map CloseClient (map fst (co_clients (cv_coord s)))))"

text \<open>\<open>serveSTUN\<close>: an error ends the loop only when the server is closed.\<close>

fun serveSTUN :: "(bool + bytes \<times> UDPAddr) list \<Rightarrow> (bytes \<times> UDPAddr) list" where
  "serveSTUN [] = []"
| "serveSTUN (Inl stop # rs) = (if stop then [] else serveSTUN rs)"
| "serveSTUN (Inr (pkt, src) # rs) =
     (case HandleBindingRequest pkt (Some src) of
        Inl e \<Rightarrow> serveSTUN rs
      | Inr resp \<Rightarrow> (resp, src) # serveSTUN rs)"

end
