(* ===== verification/Commands.thy ===== *)
theory Commands
  imports Agent_Life Servers Dashboard
begin

text \<open>
  The commands \<^verbatim>\<open>cmd/agent\<close>, \<^verbatim>\<open>cmd/relay\<close>, \<^verbatim>\<open>cmd/natbox\<close> and \<^verbatim>\<open>cmd/coordinator\<close>: their
  options after package \<^verbatim>\<open>flag\<close> has read them, the checks they make and what they do with the
  packages. \<open>Inl\<close> is an exit through \<^verbatim>\<open>log.Fatal\<close> or \<^verbatim>\<open>os.Exit\<close>.
\<close>

section \<open>The agent\<close>

record agent_config =
  cf_Name :: gostring
  cf_Keyfile :: gostring
  cf_Coordinator :: gostring
  cf_CoordKey :: gostring
  cf_StunAddr :: gostring
  cf_RelayAddr :: gostring
  cf_DataAddr :: gostring
  cf_NatDoor :: gostring
  cf_TunName :: gostring
  cf_TunIP :: gostring
  cf_TunMTU :: int
  cf_TunPeers :: "(gostring, gostring) gomap option"

definition configFlags :: agent_config where
  "configFlags =
     \<lparr>cf_Name = [], cf_Keyfile = [], cf_Coordinator = lit ''127.0.0.1:19200'', cf_CoordKey = [],
      cf_StunAddr = lit ''127.0.0.1:19201'', cf_RelayAddr = lit ''127.0.0.1:19205'',
      cf_DataAddr = lit ''127.0.0.1:19501'', cf_NatDoor = [], cf_TunName = [], cf_TunIP = [],
      cf_TunMTU = 1500, cf_TunPeers = None\<rparr>"

text \<open>\<^verbatim>\<open>strings.Cut\<close> at a separator of one byte.\<close>

definition Cut :: "gostring \<Rightarrow> byte \<Rightarrow> (gostring \<times> gostring) option" where
  "Cut s sep = (if sep \<in> set s then Some (takeWhile (\<lambda>c. c \<noteq> sep) s, drop 1 (dropWhile (\<lambda>c. c \<noteq> sep) s)) else None)"

definition tunPeers :: "agent_config \<Rightarrow> (gostring, gostring) gomap" where
  "tunPeers cfg = (case cf_TunPeers cfg of None \<Rightarrow> [] | Some m \<Rightarrow> m)"

text \<open>Each \<^verbatim>\<open>-tun-peer\<close> option enters one route; \<open>None\<close> refuses it.\<close>

definition tunPeerFlag :: "gostring \<Rightarrow> agent_config \<Rightarrow> agent_config option" where
  "tunPeerFlag s cfg =
     (case Cut s 61 of
        None \<Rightarrow> None
      | Some (peer, ip) \<Rightarrow>
          Some (cfg\<lparr>cf_TunPeers := Some (AList.update peer ip (tunPeers cfg))\<rparr>))"

datatype agent_mode = ModeUp | ModePing | ModeStatus | ModeTui

definition agentMode :: "gostring \<Rightarrow> agent_mode option" where
  "agentMode arg =
     (if arg = lit ''up'' then Some ModeUp else if arg = lit ''ping'' then Some ModePing
      else if arg = lit ''status'' then Some ModeStatus else if arg = lit ''tui'' then Some ModeTui else None)"

datatype tui_error = TuiStartFailed setup_error | TerminalFailed

datatype fatal =
    Usage
  | FlagsRequired
  | TunOnlyUp
  | AgentFatal agent_error
  | PeerRequired
  | StartFatal setup_error
  | PingFatal ping_error
  | PingCutShort
  | RunFatal run_error
  | EncodeFatal
  | TuiFatal tui_error
  | BadAddr gostring
  | BehaviorFatal nat_error
  | ServerFatal

definition checkFlags :: "agent_mode \<Rightarrow> agent_config \<Rightarrow> fatal option" where
  "checkFlags mode cfg =
     (if cf_Name cfg = [] \<or> cf_Keyfile cfg = [] \<or> cf_CoordKey cfg = [] then Some FlagsRequired
      else if mode \<noteq> ModeUp \<and> (cf_TunName cfg \<noteq> [] \<or> cf_TunIP cfg \<noteq> [] \<or> tunPeers cfg \<noteq> [])
      then Some TunOnlyUp else None)"

text \<open>What the ping mode prints.\<close>

definition ping_line :: "PingResult \<Rightarrow> gostring" where
  "ping_line res =
     lit ''ping '' @ pr_Peer res @ lit '': count='' @ Itoa (pr_Count res) @ lit '' received='' @ Itoa (pr_Received res)
     @ lit '' avg_rtt='' @ Duration_String (pr_AvgRTT res) @ lit '' path='' @ pr_Path res @ newline"

text \<open>
  \<^verbatim>\<open>main\<close> up to the run: the mode, the options, the checks, \<^verbatim>\<open>agent.New\<close>. \<open>parsed\<close> is the
  configuration package \<^verbatim>\<open>flag\<close> leaves, \<open>peerID\<close> the value of \<^verbatim>\<open>-peer\<close>.
\<close>

definition agentMain ::
    "gostring list \<Rightarrow> agent_config \<Rightarrow> (agent_error + ('h, 'c) agent) \<Rightarrow> fatal + agent_mode \<times> ('h, 'c) agent" where
  "agentMain args parsed made =
     (case args of
        [] \<Rightarrow> Inl Usage
      | arg # _ \<Rightarrow>
          (case agentMode arg of
             None \<Rightarrow> Inl Usage
           | Some mode \<Rightarrow>
               (case checkFlags mode parsed of
                  Some e \<Rightarrow> Inl e
                | None \<Rightarrow> (case made of Inl e \<Rightarrow> Inl (AgentFatal e) | Inr g \<Rightarrow> Inr (mode, g)))))"

text \<open>\<^verbatim>\<open>agent.New\<close> on a configuration.\<close>

definition newAgent_config ::
    "(gostring \<Rightarrow> UDPAddr option) \<Rightarrow> agent_config \<Rightarrow> key_error + Keypair \<Rightarrow> bool \<Rightarrow> agent_error + ('h, 'c) agent" where
  "newAgent_config resolver cfg keys bound =
     newAgent resolver (cf_Name cfg) (cf_Coordinator cfg) (cf_NatDoor cfg) (cf_RelayAddr cfg) keys bound"

definition pingMain :: "gostring \<Rightarrow> setup_error option \<Rightarrow> ping_error + bool \<times> PingResult \<Rightarrow> fatal + gostring" where
  "pingMain peerID started result =
     (if peerID = [] then Inl PeerRequired
      else (case started of
              Some e \<Rightarrow> Inl (StartFatal e)
            | None \<Rightarrow> (case result of
                  Inl e \<Rightarrow> Inl (PingFatal e)
                | Inr (False, _) \<Rightarrow> Inl PingCutShort
                | Inr (True, res) \<Rightarrow> Inr (ping_line res))))"

text \<open>
  The run of a mode, with what each function it may call returns: the error of \<open>Run\<close>, the status shown and
  whether it could be written, the error of \<open>runTUI\<close>, and what the ping mode does. The process ends
  with a status and what it has printed, \<open>usage\<close> to the standard error, the rest to the standard output.
\<close>

definition usage :: gostring where
  "usage = lit ''usage:'' @ newline
     @ lit ''  meshlink agent up     --name <id> ...      run daemon'' @ newline
     @ lit ''  meshlink agent ping   --name <id> --peer <id> [--count N] ...'' @ newline
     @ lit ''  meshlink agent status --name <id> [--json] ...  print one-shot status snapshot and exit'' @ newline
     @ lit ''  meshlink agent tui    --name <id> ...      live terminal dashboard'' @ newline"

definition run_mode ::
    "run_error option \<Rightarrow> gostring \<times> bool \<Rightarrow> tui_error option \<Rightarrow> fatal + gostring \<Rightarrow> agent_mode \<Rightarrow> fatal + gostring" where
  "run_mode up shown tui pinged mode =
     (case mode of
        ModeUp \<Rightarrow> (case up of None \<Rightarrow> Inr [] | Some e \<Rightarrow> Inl (RunFatal e))
      | ModeStatus \<Rightarrow> if snd shown then Inr (fst shown) else Inl EncodeFatal
      | ModeTui \<Rightarrow> (case tui of None \<Rightarrow> Inr [] | Some e \<Rightarrow> Inl (TuiFatal e))
      | ModePing \<Rightarrow> pinged)"

definition agentProcess ::
    "gostring list \<Rightarrow> agent_config \<Rightarrow> (agent_error + ('h, 'c) agent) \<Rightarrow> (agent_mode \<Rightarrow> ('h, 'c) agent \<Rightarrow> fatal + gostring)
     \<Rightarrow> nat \<times> gostring" where
  "agentProcess args parsed made run =
     (case (case agentMain args parsed made of Inl e \<Rightarrow> Inl e | Inr (mode, g) \<Rightarrow> run mode g) of
        Inl Usage \<Rightarrow> (2, usage)
      | Inl e \<Rightarrow> (1, [])
      | Inr printed \<Rightarrow> (0, printed))"

section \<open>The terminal dashboard\<close>

text \<open>A key event of the terminal library: whether its key is Ctrl-C, and its rune.\<close>

record key_event =
  ke_CtrlC :: bool
  ke_Rune :: int

text \<open>The key is passed on, or swallowed with the application stopped.\<close>

definition inputCapture :: "key_event \<Rightarrow> key_event option \<times> bool" where
  "inputCapture ev = (if ke_CtrlC ev \<or> ke_Rune ev = 113 \<or> ke_Rune ev = 81 then (None, True) else (Some ev, False))"

text \<open>The widgets from top to bottom, with their fixed height, proportion and focus.\<close>

datatype widget = HeaderView | TableView bool | HelpView gostring color

definition helpText :: gostring where
  "helpText = lit ''q / Ctrl+C quit'' @ dot_sep @ lit ''refreshes every 1s'' @ dot_sep
     @ lit ''RTT sampled once per peer per refresh''"

definition tui_rows :: "(widget \<times> nat \<times> nat \<times> bool) list" where
  "tui_rows = [(HeaderView, 4, 0, False), (TableView True, 0, 1, True), (HelpView helpText ColorGray, 1, 0, False)]"

text \<open>
  What happens while the application runs: a key, the end of the context, 24 hours, the reply of the
  coordinator to the query, a redraw of a snapshot.
\<close>

datatype ui_event =
    UiKey key_event
  | UiContextDone
  | UiDay
  | UiReply "query_error + Message"
  | UiDraw status

datatype ui_output = PassKey key_event | Draw gostring "table_call list"

text \<open>The run ends at a stop; without one in the list it still goes on.\<close>

fun ui_run :: "ui_event list \<Rightarrow> tuiState \<Rightarrow> ui_output list \<times> bool" where
  "ui_run [] s = ([], False)"
| "ui_run (UiKey ev # evs) s =
     (case inputCapture ev of
        (_, True) \<Rightarrow> ([], True)
      | (Some ev, False) \<Rightarrow> (let (out, stopped) = ui_run evs s in (PassKey ev # out, stopped))
      | (None, False) \<Rightarrow> ui_run evs s)"
| "ui_run (UiContextDone # evs) s = ([], True)"
| "ui_run (UiDay # evs) s = ([], True)"
| "ui_run (UiReply (Inl e) # evs) s = ui_run evs s"
| "ui_run (UiReply (Inr m) # evs) s =
     ui_run evs (setRegistry (registry_of m) s)"
| "ui_run (UiDraw snap # evs) s =
     (case render snap s of (header, calls) \<Rightarrow>
        (let (out, stopped) = ui_run evs s in (Draw header calls # out, stopped)))"

text \<open>
  \<open>runTUI\<close>: \<open>started\<close> is the outcome of \<open>Start\<close>, \<open>opened\<close> whether the terminal could be set up, and \<open>g\<close>
  the agent as it is when the function returns. \<open>None\<close> stands for a dashboard that is still running.
\<close>

definition runTUI ::
    "setup_error option \<Rightarrow> bool \<Rightarrow> ui_event list \<Rightarrow> ('h, 'c) agent
     \<Rightarrow> (tui_error option \<times> ('h, 'c) agent \<times> agent_effect list \<times> ui_output list) option" where
  "runTUI started opened evs g =
     (case started of
        Some e \<Rightarrow> Some (Some (TuiStartFailed e), g, [], [])
      | None \<Rightarrow>
          (case CloseAgent g of (g, es) \<Rightarrow>
             if \<not> opened then Some (Some TerminalFailed, g, es, [])
             else (case ui_run evs new_tuiState of
                     (out, True) \<Rightarrow> Some (None, g, es, out)
                   | (_, False) \<Rightarrow> None)))"

definition stops_ui :: "ui_event \<Rightarrow> bool" where
  "stops_ui ev = (case ev of UiKey k \<Rightarrow> snd (inputCapture k) | UiContextDone \<Rightarrow> True | UiDay \<Rightarrow> True | _ \<Rightarrow> False)"

lemma ui_run_stops: "snd (ui_run evs s) \<longleftrightarrow> (\<exists>ev\<in>set evs. stops_ui ev)"
  by (induction evs s rule: ui_run.induct) (auto simp: stops_ui_def inputCapture_def Let_def split: prod.splits)

text \<open>Until it stops, every key goes to the focused widget, in order, and the last reply is shown.\<close>

lemma ui_run_keys:
  "List.map_filter (\<lambda>x. case x of PassKey k \<Rightarrow> Some k | _ \<Rightarrow> None) (fst (ui_run evs s))
     = List.map_filter (\<lambda>x. case x of UiKey k \<Rightarrow> Some k | _ \<Rightarrow> None) (takeWhile (\<lambda>ev. \<not> stops_ui ev) evs)"
  by (induction evs s rule: ui_run.induct)
    (auto simp: stops_ui_def inputCapture_def Let_def List.map_filter_simps split: prod.splits)

text \<open>Once the agent has started, the dashboard never leaves it open.\<close>

lemma runTUI_closes:
  "runTUI None opened evs g = Some (e, g', es, out) \<Longrightarrow> (g', es) = CloseAgent g \<and> (e = None \<longleftrightarrow> opened)"
  by (auto simp: runTUI_def split: if_splits prod.splits bool.splits)

section \<open>The servers\<close>

definition mustUDPAddr :: "(gostring \<Rightarrow> UDPAddr option) \<Rightarrow> gostring \<Rightarrow> fatal + UDPAddr" where
  "mustUDPAddr resolver s = (case ResolveUDPAddr resolver s of None \<Rightarrow> Inl (BadAddr s) | Some a \<Rightarrow> Inr a)"

text \<open>The relay: a zero option leaves the default of its configuration.\<close>

definition relayMain ::
    "(gostring \<Rightarrow> UDPAddr option) \<Rightarrow> gostring \<Rightarrow> int \<Rightarrow> int \<Rightarrow> bool \<Rightarrow> fatal + UDPAddr \<times> relay_server" where
  "relayMain resolver addr globalMaxPPS globalMaxBytesPS bound =
     (case mustUDPAddr resolver addr of
        Inl e \<Rightarrow> Inl e
      | Inr a \<Rightarrow>
          if \<not> bound then Inl ServerFatal
          else Inr (a, newRelay \<lparr>rc_PinGrace = 0, rc_MaxPPS = 0, rc_MaxBytesPS = 0, rc_NameQuotaBytes = 0,
                 rc_GlobalMaxPPS = globalMaxPPS, rc_GlobalMaxBytesPS = globalMaxBytesPS\<rparr>))"

text \<open>
  The NAT box: \<open>New\<close> needs the address of the host to have an IP; \<open>door\<close> and \<open>public\<close> are the
  sockets it could bind, with the port of the public one.
\<close>

definition natboxMain ::
    "(gostring \<Rightarrow> UDPAddr option) \<Rightarrow> gostring \<Rightarrow> gostring \<Rightarrow> gostring \<Rightarrow> gostring \<Rightarrow> bool \<Rightarrow> (sock \<times> int) option
     \<Rightarrow> fatal + box" where
  "natboxMain resolver behavior public door host door_bound public_bound =
     (case ParseBehavior behavior of
        Inl e \<Rightarrow> Inl (BehaviorFatal e)
      | Inr beh \<Rightarrow>
          (case (mustUDPAddr resolver public, mustUDPAddr resolver door, mustUDPAddr resolver host) of
             (Inl e, _, _) \<Rightarrow> Inl e
           | (Inr _, Inl e, _) \<Rightarrow> Inl e
           | (Inr _, Inr _, Inl e) \<Rightarrow> Inl e
           | (Inr pub, Inr _, Inr h) \<Rightarrow>
               let cfg = \<lparr>nc_Behavior = beh, nc_PublicAddr = pub, nc_PrivateHost = h, nc_MappingTTL = 0\<rparr>
               in if a_IP h = None \<or> \<not> door_bound then Inl ServerFatal
                  else if beh = BehaviorSymmetric then Inr (newBox cfg 0 0)
                  else (case public_bound of None \<Rightarrow> Inl ServerFatal | Some (k, port) \<Rightarrow> Inr (newBox cfg k port))))"

definition coordinatorMain ::
    "gostring \<Rightarrow> key_error + Keypair \<Rightarrow> bool \<Rightarrow> bool \<Rightarrow> gotime \<Rightarrow> fatal + coordinator_server" where
  "coordinatorMain keyfile keys ctrl_bound stun_bound now =
     (case fst (newServer keyfile keys ctrl_bound stun_bound now) of Inl _ \<Rightarrow> Inl ServerFatal | Inr s \<Rightarrow> Inr s)"

section \<open>Routes on the command line\<close>

lemma Cut_join:
  assumes "sep \<notin> set a"
  shows "Cut (a @ sep # b) sep = Some (a, b)"
proof -
  have "\<forall>c\<in>set a. c \<noteq> sep" using assms by auto
  from takeWhile_block [OF this, of "sep # b"] show ?thesis by (simp add: Cut_def)
qed

text \<open>The last option for a peer decides its address; a peer whose name has an equals sign cannot be named.\<close>

lemma tunPeerFlag_enters:
  assumes "61 \<notin> set peer"
  shows "\<exists>cfg'. tunPeerFlag (peer @ 61 # ip) cfg = Some cfg'
     \<and> map_of (tunPeers cfg') = (map_of (tunPeers cfg))(peer \<mapsto> ip)"
  by (auto simp: tunPeerFlag_def Cut_join [OF assms] tunPeers_def update_conv')

lemma tunPeerFlag_splits_first: "tunPeerFlag s cfg = Some cfg' \<Longrightarrow> dom (map_of (tunPeers cfg')) \<subseteq> insert (takeWhile (\<lambda>c. c \<noteq> 61) s) (dom (map_of (tunPeers cfg)))"
  by (auto simp: tunPeerFlag_def Cut_def tunPeers_def update_conv' split: if_splits)

end
