(* ===== verification/Httptest.thy ===== *)
theory Httptest
  imports Durations Gotext
begin

text \<open>
  The payload side of the HTTPS test server, \<^verbatim>\<open>cmd/httptest/main.go\<close>: the size option with the
  multiplication of \<^verbatim>\<open>int64\<close>, the file of random bytes that is written once, the
  certificate, the start of the server with what it prints, and what a request gets.
\<close>

section \<open>Sizes\<close>

datatype num_error = ErrSyntax | ErrRange

text \<open>\<^verbatim>\<open>strconv.ParseInt(s, 10, 64)\<close>: digits are read from the left until one is bad or the value too big.\<close>

fun parse_uint :: "gostring \<Rightarrow> nat \<Rightarrow> num_error + nat" where
  "parse_uint [] n = Inr n"
| "parse_uint (c # s) n =
     (if \<not> isDigit c then Inl ErrSyntax
      else let n = 10 * n + unat (c - 48) in if n \<ge> 2 ^ 64 then Inl ErrRange else parse_uint s n)"

definition ParseInt :: "gostring \<Rightarrow> num_error + int" where
  "ParseInt s =
     (if s = [] then Inl ErrSyntax
      else let neg = hd s = 45; ds = (if hd s = 43 \<or> hd s = 45 then tl s else s)
           in if ds = [] then Inl ErrSyntax
              else (case parse_uint ds 0 of
                      Inl e \<Rightarrow> Inl e
                    | Inr un \<Rightarrow>
                        if \<not> neg \<and> un \<ge> 2 ^ 63 then Inl ErrRange
                        else if neg \<and> un > 2 ^ 63 then Inl ErrRange
                        else Inr (if neg then - int un else int un)))"

text \<open>A product of 64-bit integers wraps around.\<close>

definition int64 :: "int \<Rightarrow> int" where
  "int64 x = (x + 2 ^ 63) mod 2 ^ 64 - 2 ^ 63"

datatype size_error = EmptySize | BadSize | BadNumber num_error

definition size_unit :: "byte \<Rightarrow> int" where
  "size_unit c = (if c = 107 \<or> c = 75 then 2 ^ 10 else if c = 109 \<or> c = 77 then 2 ^ 20
     else if c = 103 \<or> c = 71 then 2 ^ 30 else 1)"

definition parseSize :: "gostring \<Rightarrow> size_error + int" where
  "parseSize s =
     (let s = TrimSpace s
      in if s = [] then Inl EmptySize
         else let mult = size_unit (last s)
              in if mult = 1 \<and> (last s < 48 \<or> last s > 57) then Inl BadSize
                 else (case ParseInt (if mult \<noteq> 1 then take (length s - 1) s else s) of
                         Inl e \<Rightarrow> Inl (BadNumber e)
                       | Inr n \<Rightarrow> Inr (int64 (n * mult))))"

section \<open>The payload file\<close>

datatype file_error = OpenError | RandomError | WriteError

definition chunk :: int where "chunk = 2 ^ 20"

text \<open>
  The loop writes at most a mebibyte at a time. \<open>rnd i n\<close> are the \<open>n\<close> random bytes of the i-th
  turn, or a failure; \<open>wr i\<close> says after how many bytes its write fails, if it does.
\<close>

function write_loop ::
    "(nat \<Rightarrow> int \<Rightarrow> bytes option) \<Rightarrow> (nat \<Rightarrow> nat option) \<Rightarrow> int \<Rightarrow> nat \<Rightarrow> int \<Rightarrow> bytes
     \<Rightarrow> bytes \<times> file_error option" where
  "write_loop rnd wr sz i written content =
     (if written < sz then
        let n = (if sz - written < chunk then sz - written else chunk)
        in (case rnd i n of
              None \<Rightarrow> (content, Some RandomError)
            | Some buf \<Rightarrow>
                (case wr i of
                   Some k \<Rightarrow> (content @ take k buf, Some WriteError)
                 | None \<Rightarrow> write_loop rnd wr sz (i + 1) (written + n) (content @ buf)))
      else (content, None))"
  by pat_completeness auto
termination
  by (relation "measure (\<lambda>(rnd, wr, sz, i, written, content). nat (sz - written))") (auto simp: chunk_def)

declare write_loop.simps [simp del]

text \<open>
  The file is opened with \<^verbatim>\<open>O_CREATE\<close> and \<^verbatim>\<open>O_EXCL\<close>: one that exists is left alone, and
  \<open>creatable\<close> says whether a new one can be made. \<open>fs\<close> maps paths to contents.
\<close>

definition ensureFile ::
    "bool \<Rightarrow> (nat \<Rightarrow> int \<Rightarrow> bytes option) \<Rightarrow> (nat \<Rightarrow> nat option) \<Rightarrow> gostring \<Rightarrow> int
     \<Rightarrow> (gostring \<rightharpoonup> bytes) \<Rightarrow> (gostring \<rightharpoonup> bytes) \<times> file_error option" where
  "ensureFile creatable rnd wr path sz fs =
     (if fs path \<noteq> None then (fs, None)
      else if \<not> creatable then (fs, Some OpenError)
      else (case write_loop rnd wr sz 0 0 [] of (content, err) \<Rightarrow> (fs(path \<mapsto> content), err)))"

section \<open>The certificate's names\<close>

text \<open>
  The entries of \<^verbatim>\<open>-san\<close> between commas go to the IP addresses or to the DNS names, after those
  every certificate has; \<open>parse_ip\<close> is \<^verbatim>\<open>net.ParseIP\<close>.
\<close>

fun san_entries :: "(gostring \<Rightarrow> bytes option) \<Rightarrow> gostring list \<Rightarrow> bytes option list \<times> gostring list \<Rightarrow> bytes option list \<times> gostring list" where
  "san_entries parse_ip [] acc = acc"
| "san_entries parse_ip (e # es) (ips, names) =
     (let e = TrimSpace e
      in if e = [] then san_entries parse_ip es (ips, names)
         else (case parse_ip e of
                 Some ip \<Rightarrow> san_entries parse_ip es (ips @ [Some ip], names)
               | None \<Rightarrow> san_entries parse_ip es (ips, names @ [e])))"

definition genCert_names :: "(gostring \<Rightarrow> bytes option) \<Rightarrow> gostring \<Rightarrow> bytes option list \<times> gostring list" where
  "genCert_names parse_ip sanExtra =
     san_entries parse_ip (split_on 44 sanExtra)
       ([parse_ip (lit ''127.0.0.1''), parse_ip (lit ''::1'')], [lit ''localhost''])"

section \<open>Requests\<close>

record fileServer =
  fv_filePath :: gostring
  fv_name :: gostring
  fv_sha :: gostring

datatype response = Body gostring | NotFound | ServeFile gostring

definition fileSize :: "(gostring \<rightharpoonup> bytes) \<Rightarrow> gostring \<Rightarrow> int" where
  "fileSize fs path = (case fs path of None \<Rightarrow> - 1 | Some content \<Rightarrow> int (length content))"

definition ServeHTTP :: "(gostring \<rightharpoonup> bytes) \<Rightarrow> fileServer \<Rightarrow> gostring \<Rightarrow> response" where
  "ServeHTTP fs s url_path =
     (if url_path = lit ''/'' then
        Body (lit ''meshlink httptest'' @ [10] @ lit ''file: '' @ fv_name s @ [10]
              @ lit ''size: '' @ Itoa (fileSize fs (fv_filePath s)) @ [10]
              @ lit ''sha256: '' @ fv_sha s @ [10])
      else if url_path \<noteq> lit ''/'' @ fv_name s then NotFound
      else ServeFile (fv_filePath s))"

text \<open>How it serves: plain or TLS, with a certificate of its own or a given one, and with HTTP/2.\<close>

record tls_setup =
  ts_scheme :: gostring
  ts_h2 :: bool
  ts_given :: bool

definition tls_plan :: "bool \<Rightarrow> bool \<Rightarrow> gostring \<Rightarrow> gostring \<Rightarrow> tls_setup" where
  "tls_plan plain forceH1 certFile keyFile =
     (if plain then \<lparr>ts_scheme = lit ''http'', ts_h2 = False, ts_given = False\<rparr>
      else \<lparr>ts_scheme = lit ''https'', ts_h2 = \<not> forceH1, ts_given = (certFile \<noteq> [] \<and> keyFile \<noteq> [])\<rparr>)"

section \<open>The start of the server\<close>

record http_options =
  ho_dir :: gostring
  ho_file :: gostring
  ho_size :: gostring
  ho_plain :: bool
  ho_h1 :: bool
  ho_cert :: gostring
  ho_key :: gostring
  ho_san :: gostring

text \<open>
  What the start is answered: by the file system, by \<^verbatim>\<open>crypto/sha256\<close> with the hex digits of a
  content, by the listener with its address and port, by the certificate code with the PEM text for the
  names asked for. \<open>he_pair\<close> is whether a key pair is accepted, from the files or from memory;
  \<open>he_join\<close> is \<^verbatim>\<open>filepath.Join\<close>, and \<open>he_certWrite\<close> says after how many bytes writing the PEM file fails, if it does.
\<close>

record http_env =
  he_join :: "gostring \<Rightarrow> gostring \<Rightarrow> gostring"
  he_mkdir :: bool
  he_creatable :: bool
  he_rnd :: "nat \<Rightarrow> int \<Rightarrow> bytes option"
  he_wr :: "nat \<Rightarrow> nat option"
  he_readable :: bool
  he_sha :: "bytes \<Rightarrow> gostring"
  he_listen :: "(gostring \<times> int) option"
  he_parse_ip :: "gostring \<Rightarrow> bytes option"
  he_certPEM :: "bytes option list \<times> gostring list \<Rightarrow> bytes option"
  he_certOpen :: bool
  he_certWrite :: "nat option"
  he_pair :: bool

datatype http_fatal = MkdirFatal | SizeFatal size_error | FileFatal file_error | HashFatal | ListenFatal | CertFatal

definition sha256File :: "http_env \<Rightarrow> gostring \<Rightarrow> (gostring \<rightharpoonup> bytes) \<Rightarrow> gostring option" where
  "sha256File env path fs =
     (case fs path of None \<Rightarrow> None | Some content \<Rightarrow> if he_readable env then Some (he_sha env content) else None)"

text \<open>\<open>genCert\<close> writes the certificate in any case that it could be made, over a file that is there.\<close>

definition genCert :: "http_env \<Rightarrow> gostring \<Rightarrow> gostring \<Rightarrow> (gostring \<rightharpoonup> bytes) \<Rightarrow> (gostring \<rightharpoonup> bytes) \<times> bool" where
  "genCert env sanExtra certPath fs =
     (case he_certPEM env (genCert_names (he_parse_ip env) sanExtra) of
        None \<Rightarrow> (fs, False)
      | Some pem \<Rightarrow>
          if \<not> he_certOpen env then (fs, False)
          else (case he_certWrite env of
                  Some k \<Rightarrow> (fs(certPath \<mapsto> take k pem), False)
                | None \<Rightarrow> (fs(certPath \<mapsto> pem), he_pair env)))"

text \<open>The certificate main serves with: none, the given one, or one of its own; with its path.\<close>

definition chooseCert ::
    "http_env \<Rightarrow> http_options \<Rightarrow> (gostring \<rightharpoonup> bytes) \<Rightarrow> (gostring \<rightharpoonup> bytes) \<times> gostring option" where
  "chooseCert env opt fs =
     (let plan = tls_plan (ho_plain opt) (ho_h1 opt) (ho_cert opt) (ho_key opt)
      in if ho_plain opt then (fs, Some [])
         else if ts_given plan then (fs, if he_pair env then Some (ho_cert opt) else None)
         else let certPath = he_join env (ho_dir opt) (lit ''cert.pem'')
              in (case genCert env (ho_san opt) certPath fs of
                    (fs, ok) \<Rightarrow> (fs, if ok then Some certPath else None)))"

definition start_line ::
    "http_options \<Rightarrow> gostring \<Rightarrow> int \<Rightarrow> gostring \<Rightarrow> int \<Rightarrow> gostring \<Rightarrow> gostring \<Rightarrow> gostring" where
  "start_line opt host port filePath sz sha certPath =
     (let plan = tls_plan (ho_plain opt) (ho_h1 opt) (ho_cert opt) (ho_key opt)
      in lit ''httptest addr='' @ host @ lit '' port='' @ Itoa port
         @ lit '' url='' @ ts_scheme plan @ lit ''://'' @ host @ lit ''/'' @ ho_file opt
         @ lit '' file='' @ filePath @ lit '' size='' @ Itoa sz @ lit '' sha256='' @ sha
         @ lit '' cert='' @ certPath @ lit '' h2='' @ (if ts_h2 plan then lit ''true'' else lit ''false'') @ [10])"

text \<open>
  \<^verbatim>\<open>main\<close> up to serving: the files it leaves, and the failure it exits with or the line it prints
  and the handler it serves.
\<close>

definition httptestMain ::
    "http_env \<Rightarrow> http_options \<Rightarrow> (gostring \<rightharpoonup> bytes) \<Rightarrow> (gostring \<rightharpoonup> bytes) \<times> (http_fatal + gostring \<times> fileServer)" where
  "httptestMain env opt fs =
     (let filePath = he_join env (ho_dir opt) (ho_file opt)
      in if \<not> he_mkdir env then (fs, Inl MkdirFatal)
         else (case parseSize (ho_size opt) of
           Inl e \<Rightarrow> (fs, Inl (SizeFatal e))
         | Inr sz \<Rightarrow>
             (case ensureFile (he_creatable env) (he_rnd env) (he_wr env) filePath sz fs of
                (fs, Some e) \<Rightarrow> (fs, Inl (FileFatal e))
              | (fs, None) \<Rightarrow>
                  (case sha256File env filePath fs of
                     None \<Rightarrow> (fs, Inl HashFatal)
                   | Some sha \<Rightarrow>
                       (case he_listen env of
                          None \<Rightarrow> (fs, Inl ListenFatal)
                        | Some (host, port) \<Rightarrow>
                            (case chooseCert env opt fs of
                               (fs, None) \<Rightarrow> (fs, Inl CertFatal)
                             | (fs, Some certPath) \<Rightarrow>
                                 (fs, Inr (start_line opt host port filePath (fileSize fs filePath) sha certPath,
                                           \<lparr>fv_filePath = filePath, fv_name = ho_file opt, fv_sha = sha\<rparr>))))))))"

section \<open>What a size means\<close>

lemma trim_plain:
  assumes "s \<noteq> []" "hd s < 128" "last s < 128" "\<not> ascii_space (hd s)" "\<not> ascii_space (last s)"
  shows "TrimSpace s = s"
proof -
  let ?W = "set wide_spaces2 \<union> set wide_spaces3"
  have h: "hd w \<ge> 128 \<and> last w \<ge> 128 \<and> w \<noteq> []" if "w \<in> ?W" for w
    using that by (auto simp: wide_spaces2_def wide_spaces3_def)
  have t: "take k s \<notin> ?W" for k
  proof
    assume m: "take k s \<in> ?W"
    have "hd (take k s) = hd s" using h [OF m] by (cases s; cases k) simp_all
    then show False using h [OF m] assms(2) leD by metis
  qed
  have d: "drop k s \<notin> ?W" for k
  proof
    assume m: "drop k s \<in> ?W"
    have "last (drop k s) = last s" using h [OF m] by (intro last_drop) (metis drop_all not_le_imp_less)
    then show False using h [OF m] assms(3) leD by metis
  qed
  have "space_len s = 0" "space_end s = 0"
    using t [of 2] t [of 3] d [of "length s - 2"] d [of "length s - 3"] assms(4,5) by (simp_all add: space_len_def space_end_def)
  then show ?thesis by (simp add: TrimSpace_def trim_left.simps [of s] trim_right.simps [of s])
qed

lemma digits_grow: "(x::nat) \<le> x * 10 ^ k + y"
proof -
  have "x * 1 \<le> x * 10 ^ k" by (intro mult_le_mono2) simp
  then show ?thesis by linarith
qed

lemma parse_uint_digits:
  assumes "\<forall>c\<in>set s. isDigit c" "n * 10 ^ length s + dec_val s < 2 ^ 64"
  shows "parse_uint s n = Inr (n * 10 ^ length s + dec_val s)"
  using assms
proof (induction s arbitrary: n)
  case (Cons c s)
  let ?n = "10 * n + unat (c - 48)"
  have e: "n * 10 ^ length (c # s) + dec_val (c # s) = ?n * 10 ^ length s + dec_val s"
    by (simp add: dec_val_Cons algebra_simps)
  have "?n \<le> ?n * 10 ^ length s + dec_val s" by (rule digits_grow)
  then have "?n < 2 ^ 64" using Cons.prems(2) unfolding e by (rule le_less_trans)
  moreover have "parse_uint s ?n = Inr (?n * 10 ^ length s + dec_val s)"
    using Cons.IH [of ?n] Cons.prems e by simp
  ultimately show ?case using Cons.prems(1) e by (simp add: Let_def not_le)
qed simp

lemma ParseInt_dec: "n < 2 ^ 63 \<Longrightarrow> ParseInt (dec n) = Inr (int n)"
proof -
  assume n: "n < 2 ^ 63"
  have "isDigit (hd (dec n))" using dec_digits [of n] by simp
  then have "hd (dec n) \<noteq> 43 \<and> hd (dec n) \<noteq> 45" by (auto simp: isDigit_def)
  moreover have "parse_uint (dec n) 0 = Inr n"
    using parse_uint_digits [of "dec n" 0] dec_digits [of n] n by simp
  ultimately show ?thesis using n by (simp add: ParseInt_def Let_def)
qed

lemma isDigit_plain: "isDigit c \<Longrightarrow> c < 128 \<and> \<not> ascii_space c \<and> size_unit c = 1 \<and> \<not> (c < 48 \<or> c > 57)"
  by (auto simp: isDigit_def ascii_space_def size_unit_def intro: le_less_trans [of c 57])

definition unit_letters :: bytes where
  "unit_letters = lit ''kKmMgG''"

lemma unit_letters_plain: "c \<in> set unit_letters \<Longrightarrow> c < 128 \<and> \<not> ascii_space c \<and> size_unit c \<noteq> 1"
  by (auto simp: unit_letters_def ascii_space_def size_unit_def)

lemma parseSize_digits: "n < 2 ^ 63 \<Longrightarrow> parseSize (dec n) = Inr (int64 (int n))"
  using dec_digits [of n] isDigit_plain [of "hd (dec n)"] isDigit_plain [of "last (dec n)"] trim_plain [of "dec n"]
  by (simp add: parseSize_def Let_def ParseInt_dec)

lemma parseSize_unit:
  assumes "n < 2 ^ 63" "c \<in> set unit_letters"
  shows "parseSize (dec n @ [c]) = Inr (int64 (int n * size_unit c))"
  using dec_digits [of n] isDigit_plain [of "hd (dec n)"] unit_letters_plain [OF assms(2)] trim_plain [of "dec n @ [c]"]
  by (simp add: parseSize_def Let_def ParseInt_dec [OF assms(1)])

lemma int64_id: "- (2 ^ 63) \<le> x \<Longrightarrow> x < 2 ^ 63 \<Longrightarrow> int64 x = x"
  by (simp add: int64_def mod_pos_pos_trivial)

lemma int64_range: "- (2 ^ 63) \<le> int64 x \<and> int64 x < 2 ^ 63"
  using pos_mod_bound [of "2 ^ 64" "x + 2 ^ 63"] pos_mod_sign [of "2 ^ 64" "x + 2 ^ 63"] by (simp add: int64_def)

text \<open>The size option is read exactly, as far as 64 bits go. A number with a unit gives the
  number of bytes it names, in any letter case, if that fits; a product that does not fit is
  not refused but gives some other number without an error.\<close>

theorem size_option_value:
  assumes "n < 2 ^ 63" "c \<in> set unit_letters"
  shows "if int n * size_unit c < 2 ^ 63 then parseSize (dec n @ [c]) = Inr (int n * size_unit c)
     else \<exists>m. parseSize (dec n @ [c]) = Inr m \<and> m \<noteq> int n * size_unit c"
proof -
  have "0 \<le> int n * size_unit c" by (simp add: size_unit_def)
  then show ?thesis
    using parseSize_unit [OF assms] int64_range [of "int n * size_unit c"] int64_id [of "int n * size_unit c"] by auto
qed

theorem size_option_value_witness:
  "parseSize (dec 2 @ [109]) = Inr 2097152 \<and> (\<exists>m. parseSize (dec (2 ^ 33) @ [103]) = Inr m \<and> m \<noteq> 2 ^ 63)"
  using size_option_value [of 2 109] size_option_value [of "2 ^ 33" 103] by (simp add: unit_letters_def size_unit_def)

section \<open>What the payload file holds\<close>

lemma write_loop_content:
  assumes "\<forall>i n b. rnd i n = Some b \<longrightarrow> length b = nat n" "0 \<le> written" "length content = nat written"
  shows "(case write_loop rnd wr sz i written content of (content', err) \<Rightarrow>
     (err = None \<longrightarrow> length content' = nat (max written sz))
     \<and> (err \<noteq> None \<longrightarrow> length content' \<le> nat sz))"
  using assms
proof (induction rnd wr sz i written content rule: write_loop.induct)
  case (1 rnd wr sz i written content)
  let ?n = "if sz - written < chunk then sz - written else chunk"
  show ?case
  proof (cases "written < sz")
    case True
    have n: "0 < ?n" "written + ?n \<le> sz" using True by (auto simp: chunk_def)
    show ?thesis
    proof (cases "rnd i ?n")
      case None
      then show ?thesis using True 1(4) n by (simp add: write_loop.simps [of rnd wr sz i] Let_def)
    next
      case (Some buf)
      then have b: "length buf = nat ?n" using 1(2) by blast
      show ?thesis
      proof (cases "wr i")
        case None
        then have "write_loop rnd wr sz i written content = write_loop rnd wr sz (i + 1) (written + ?n) (content @ buf)"
          using Some True by (subst write_loop.simps) (simp add: Let_def)
        then show ?thesis
          using 1(1) [OF True refl Some None] 1(2,3,4) b n by (auto simp: nat_add_distrib)
      next
        case (Some k)
        then have "write_loop rnd wr sz i written content = (content @ take k buf, Some WriteError)"
          using \<open>rnd i ?n = Some buf\<close> True by (subst write_loop.simps) (simp add: Let_def)
        then show ?thesis using b n 1(3,4) by (auto simp: nat_le_eq_zle simp flip: nat_add_distrib)
      qed
    qed
  next
    case False
    then show ?thesis using 1(4) by (simp add: write_loop.simps [of rnd wr sz i] max_def)
  qed
qed

text \<open>The payload file is made once and whole. When \<open>ensureFile\<close> succeeds, a file that existed is
  as it was, and one that did not holds exactly as many bytes as asked for, none for a size
  that is not positive; other files stay as they are.\<close>

theorem payload_file_whole:
  assumes "\<forall>i n b. rnd i n = Some b \<longrightarrow> length b = nat n"
    and "ensureFile creatable rnd wr path sz fs = (fs', None)"
  shows "(\<forall>q. q \<noteq> path \<longrightarrow> fs' q = fs q)
     \<and> (case fs path of Some old \<Rightarrow> fs' path = Some old
        | None \<Rightarrow> \<exists>content. fs' path = Some content \<and> length content = nat sz)"
proof -
  obtain content err where w: "write_loop rnd wr sz 0 0 [] = (content, err)" by fastforce
  have "err = None \<Longrightarrow> length content = nat sz"
    using write_loop_content [OF assms(1), of 0 "[]" sz wr 0] w by (simp add: max_def split: if_splits)
  then show ?thesis using assms(2) w by (auto simp: ensureFile_def split: option.splits if_splits)
qed

text \<open>A payload that could not be written whole is served as if it were. When writing fails, the
  file stays with what was written, and every later start takes it for the payload: \<open>ensureFile\<close>
  then succeeds and does not touch it, whatever size it is asked for.\<close>

theorem partial_payload_kept:
  assumes "fs path = None" "ensureFile creatable rnd wr path sz fs = (fs', Some e)" "e \<noteq> OpenError"
  shows "fs' path \<noteq> None \<and> ensureFile creatable' rnd' wr' path sz' fs' = (fs', None)"
  using assms by (auto simp: ensureFile_def split: if_splits prod.splits)

text \<open>
  The file the certificate goes to: it is not the payload's unless both have one path.
\<close>

lemma chooseCert_kept:
  assumes "chooseCert env opt fs = (fs', c)"
    and "ho_plain opt \<or> (ho_cert opt \<noteq> [] \<and> ho_key opt \<noteq> []) \<or> path \<noteq> he_join env (ho_dir opt) (lit ''cert.pem'')"
  shows "fs' path = fs path"
  using assms by (auto simp: chooseCert_def genCert_def tls_plan_def Let_def split: if_splits prod.splits option.splits)

text \<open>What the server says of the payload is true. When the start gets to serving, the file it serves
  holds the content whose hash it prints and answers with, the size it prints is that content's, and a file that
  it made has the size asked for; this is so for plain HTTP, with a given certificate, or when the payload
  is not named like the certificate.\<close>

theorem announced_payload_is_served:
  assumes "httptestMain env opt fs = (fs', Inr (line, srv))"
    and "\<forall>i n b. he_rnd env i n = Some b \<longrightarrow> length b = nat n"
    and "ho_plain opt \<or> (ho_cert opt \<noteq> [] \<and> ho_key opt \<noteq> [])
      \<or> he_join env (ho_dir opt) (ho_file opt) \<noteq> he_join env (ho_dir opt) (lit ''cert.pem'')"
  shows "\<exists>content host port certPath sz. fs' (fv_filePath srv) = Some content \<and> fv_sha srv = he_sha env content
     \<and> line = start_line opt host port (fv_filePath srv) (int (length content)) (fv_sha srv) certPath
     \<and> parseSize (ho_size opt) = Inr sz
     \<and> (fs (fv_filePath srv) = None \<longrightarrow> length content = nat sz)
     \<and> (\<forall>old. fs (fv_filePath srv) = Some old \<longrightarrow> content = old)"
proof -
  let ?p = "he_join env (ho_dir opt) (ho_file opt)"
  obtain sz fs1 sha host port certPath where st: "parseSize (ho_size opt) = Inr sz"
    "ensureFile (he_creatable env) (he_rnd env) (he_wr env) ?p sz fs = (fs1, None)"
    "sha256File env ?p fs1 = Some sha" "chooseCert env opt fs1 = (fs', Some certPath)"
    "line = start_line opt host port ?p (fileSize fs' ?p) sha certPath"
    "srv = \<lparr>fv_filePath = ?p, fv_name = ho_file opt, fv_sha = sha\<rparr>"
    using assms(1) by (auto simp: httptestMain_def Let_def split: if_splits sum.splits prod.splits option.splits)
  obtain content where c: "fs1 ?p = Some content" "sha = he_sha env content"
    using st(3) by (auto simp: sha256File_def split: option.splits if_splits)
  have "fs' ?p = Some content" using chooseCert_kept [OF st(4) assms(3)] c(1) by simp
  then show ?thesis
    using payload_file_whole [OF assms(2) st(2)] st(1,5,6) c by (auto simp: fileSize_def split: option.splits)
qed

text \<open>A payload named like the certificate is overwritten by it after it was hashed: the server then
  serves the certificate under the hash of the payload.\<close>

theorem certificate_overwrites_payload:
  assumes "httptestMain env opt fs = (fs', Inr (line, srv))" "\<not> ho_plain opt" "ho_cert opt = []"
    and "ho_file opt = lit ''cert.pem''" "fs (he_join env (ho_dir opt) (lit ''cert.pem'')) = Some old"
  shows "\<exists>pem. he_certPEM env (genCert_names (he_parse_ip env) (ho_san opt)) = Some pem
     \<and> fs' (fv_filePath srv) = Some pem \<and> fv_sha srv = he_sha env old"
  using assms
  by (auto simp: httptestMain_def ensureFile_def sha256File_def chooseCert_def genCert_def tls_plan_def Let_def
      split: if_splits sum.splits prod.splits option.splits)

section \<open>Witnesses\<close>

definition demo_rnd :: "nat \<Rightarrow> int \<Rightarrow> bytes option" where
  "demo_rnd i n = Some (replicate (nat n) 7)"

lemma demo_loop: "write_loop demo_rnd wr 3 0 0 [] = (case wr 0 of Some k \<Rightarrow> (take k [7, 7, 7], Some WriteError) | None \<Rightarrow> ([7, 7, 7], None))"
  by (simp add: write_loop.simps [of demo_rnd wr 3 0] write_loop.simps [of demo_rnd wr 3 "Suc 0"] demo_rnd_def chunk_def
      eval_nat_numeral split: option.splits)

theorem payload_file_whole_witness:
  "\<exists>fs'. ensureFile True demo_rnd (\<lambda>_. None) [97] 3 Map.empty = (fs', None)
     \<and> (\<exists>content. fs' [97] = Some content \<and> length content = 3)"
proof -
  have r: "ensureFile True demo_rnd (\<lambda>_. None) [97] 3 Map.empty = ([[97] \<mapsto> [7, 7, 7]], None)"
    by (simp add: ensureFile_def demo_loop)
  then show ?thesis using payload_file_whole [OF _ r] by (auto simp: demo_rnd_def)
qed

theorem partial_payload_kept_witness:
  "\<exists>fs' e. ensureFile True demo_rnd (\<lambda>_. Some 1) [97] 3 Map.empty = (fs', Some e) \<and> fs' [97] = Some [7]
     \<and> ensureFile True demo_rnd (\<lambda>_. None) [97] 3 fs' = (fs', None)"
proof -
  have r: "ensureFile True demo_rnd (\<lambda>_. Some 1) [97] 3 Map.empty = ([[97] \<mapsto> [7]], Some WriteError)"
    by (simp add: ensureFile_def demo_loop)
  then show ?thesis using partial_payload_kept [OF _ r] by auto
qed

text \<open>A start in an empty directory with a size of three bytes, and one with the payload's name taken by the certificate.\<close>

definition demo_env :: http_env where
  "demo_env = \<lparr>he_join = (\<lambda>d f. d @ [47] @ f), he_mkdir = True, he_creatable = True, he_rnd = demo_rnd,
     he_wr = (\<lambda>_. None), he_readable = True, he_sha = (\<lambda>c. c), he_listen = Some ([120], 80),
     he_parse_ip = (\<lambda>_. None), he_certPEM = (\<lambda>_. Some [45]), he_certOpen = True, he_certWrite = None, he_pair = True\<rparr>"

definition demo_options :: "gostring \<Rightarrow> http_options" where
  "demo_options f = \<lparr>ho_dir = [46], ho_file = f, ho_size = dec 3, ho_plain = False, ho_h1 = False,
     ho_cert = [], ho_key = [], ho_san = []\<rparr>"

lemma demo_size: "parseSize (dec 3) = Inr 3"
  using parseSize_digits [of 3] by (simp add: int64_def)

theorem announced_payload_is_served_witness:
  "\<exists>fs' line srv content. httptestMain demo_env (demo_options [97]) Map.empty = (fs', Inr (line, srv))
     \<and> fs' (fv_filePath srv) = Some content \<and> fv_sha srv = content \<and> length content = 3"
proof -
  obtain fs' line srv where r: "httptestMain demo_env (demo_options [97]) Map.empty = (fs', Inr (line, srv))"
    by (simp add: httptestMain_def demo_env_def demo_options_def demo_size ensureFile_def demo_loop sha256File_def
        chooseCert_def tls_plan_def genCert_def Let_def)
  have "fv_filePath srv = [46, 47, 97]"
    using r by (auto simp: httptestMain_def demo_env_def demo_options_def demo_size ensureFile_def demo_loop sha256File_def
        chooseCert_def tls_plan_def genCert_def Let_def)
  then show ?thesis
    using announced_payload_is_served [OF r] r
    by (auto simp: demo_env_def demo_options_def demo_size demo_rnd_def lit_def)
qed

theorem certificate_overwrites_payload_witness:
  "\<exists>fs' line srv. httptestMain demo_env (demo_options (lit ''cert.pem'')) [[46, 47] @ lit ''cert.pem'' \<mapsto> [1, 2]]
       = (fs', Inr (line, srv)) \<and> fs' (fv_filePath srv) = Some [45] \<and> fv_sha srv = [1, 2]"
proof -
  obtain fs' line srv where r: "httptestMain demo_env (demo_options (lit ''cert.pem''))
      [[46, 47] @ lit ''cert.pem'' \<mapsto> [1, 2]] = (fs', Inr (line, srv))"
    by (simp add: httptestMain_def demo_env_def demo_options_def demo_size ensureFile_def sha256File_def
        chooseCert_def tls_plan_def genCert_def Let_def)
  then show ?thesis
    using certificate_overwrites_payload [OF r, of "[1, 2]"] by (auto simp: demo_env_def demo_options_def)
qed

end
