(* ===== verification/Spec2Isabelle.thy ===== *)
theory Spec2Isabelle
  imports Prelude Gotext Interfaces Framing Replay_Window Noise_Session Keys Noise_Handshake Netaddr Relay
    Natbox Stun Control Protocol Coordinator Directory Disco Peer Peer_Safety Peer_Link Peer_Pair Tun Devices Agent Agent_Safety Agent_Ping Overlay
    Relayed Punch Agent_Life Durations Dashboard Servers Commands Httptest
begin

text \<open>
  A verification library for meshlink, a peer-to-peer mesh written in Go: agents find each other
  through a coordinator, punch holes through their NATs or fall back to a relay, and talk over
  sessions encrypted end to end with Noise. The theories follow the packages under
  \<^verbatim>\<open>src/internal\<close> and the commands under \<^verbatim>\<open>src/cmd\<close>, one or more per package; this theory
  imports them all and holds the properties that span components.

  \<^bold>\<open>The program.\<close> An agent (\<^verbatim>\<open>agent\<close>) learns its public endpoint by STUN (\<^verbatim>\<open>stun\<close>), registers
  name, key and endpoints with the coordinator (\<^verbatim>\<open>coordinator\<close>) over an encrypted control channel
  (\<^verbatim>\<open>control\<close>, messages in \<^verbatim>\<open>protocol\<close>) and receives the list of peers by broadcast. For each
  entry it runs a peer (\<^verbatim>\<open>peer\<close>), a state machine that chooses between the direct path and the relay
  (\<^verbatim>\<open>disco\<close>, \<^verbatim>\<open>relay\<close>), does the Noise handshake and carries data through a session
  (\<^verbatim>\<open>noisework\<close>) with a replay window, framed by \<^verbatim>\<open>record\<close>. Payloads are pings or packets of a tunnel
  device (\<^verbatim>\<open>tun\<close>). \<^verbatim>\<open>nat\<close> simulates the NAT boxes in between.

  \<^bold>\<open>Theories.\<close>
  \<^item> \<open>Prelude\<close>, \<open>Gotext\<close>, \<open>Netaddr\<close>, \<open>Durations\<close>: words and byte strings, big-endian integers, maps as
    association lists, instants and durations, byte streams; the functions of packages \<^verbatim>\<open>strings\<close>,
    \<^verbatim>\<open>strconv\<close>, \<^verbatim>\<open>net\<close> and \<^verbatim>\<open>time\<close> the program calls, with \<^verbatim>\<open>fmtDur\<close> and \<^verbatim>\<open>joinDurs\<close> of the status command.
  \<^item> \<open>Interfaces\<close>: the contracts between components as locales, each interpreted where its provider
    is: the replay gate (\<open>Replay_Window\<close>), texts of addresses (\<open>Natbox\<close>), rate budgets (\<open>Relay\<close>, \<open>Peer_Safety\<close>),
    packet sinks and queues (\<open>Agent\<close>, \<open>Tun\<close>), read loops that account for every datagram
    (\<open>Servers\<close>), links that lose messages (\<open>Relayed\<close>), and those of them whose losses are known
    beforehand (\<open>Overlay\<close>).
  \<^item> \<open>Framing\<close> (\<^verbatim>\<open>record.go\<close>), \<open>Replay_Window\<close> (\<^verbatim>\<open>replay.go\<close>), \<open>Keys\<close>, \<open>Noise_Session\<close> and
    \<open>Noise_Handshake\<close> (\<^verbatim>\<open>noisework.go\<close>): codecs and their exactness; the bitmap refines the set
    of accepted nonces; key files; nonces, epochs and rekeying; what both ends of a handshake know.
  \<^item> \<open>Relay\<close>, \<open>Natbox\<close>, \<open>Stun\<close>, \<open>Servers\<close>: handlers of datagrams over explicit server states, the
    loops around them, pins, budgets, filtering and accounting.
  \<^item> \<open>Control\<close>, \<open>Protocol\<close>, \<open>Coordinator\<close>, \<open>Directory\<close>: the encrypted stream, JSON lines, the
    registry with its clients as interleaved steps, and the abstract directory that it refines.
  \<^item> \<open>Disco\<close>, \<open>Peer\<close>, \<open>Peer_Safety\<close>, \<open>Peer_Link\<close>, \<open>Peer_Pair\<close>: the peer state machine; what holds in
    every history of one peer (authenticated session, no replay, no panic, bounds); what two
    peers at the ends of a path achieve, and what can keep them apart.
  \<^item> \<open>Tun\<close>, \<open>Devices\<close>: the packet router, the bridge, the devices of the operating systems.
  \<^item> \<open>Agent\<close>, \<open>Agent_Safety\<close>, \<open>Agent_Ping\<close>, \<open>Agent_Life\<close>: the agent's operations; its table,
    sessions and routes in every history; pings as rounds interleaved with everything else; its
    life from the start to \<open>Close\<close>.
  \<^item> \<open>Overlay\<close>, \<open>Relayed\<close>, \<open>Punch\<close>: two agents with a session between them; packets from device to
    device over a network that loses datagrams and through the relay among the traffic of others, a
    ping and its answer; two agents behind NAT boxes that connect by punching holes in them.
  \<^item> \<open>Dashboard\<close>, \<open>Commands\<close>, \<open>Httptest\<close>: status snapshot, terminal dashboard, the checks of the
    commands, and the HTTPS test server up to serving.

  \<^bold>\<open>How code is rendered.\<close> A struct is a record, a method a function from its receiver to the
  receiver updated, its results and the effects it has: datagrams, writes, closes, in order. A
  section under a mutex is one step; goroutines are steps that interleave in runs, either lists of
  events or inductive relations. The current time, random bytes, whether a write or a bind
  succeeds, and what a socket delivers are arguments. Counters are 64-bit words, lengths checked
  by the code are checked at their width, \<^verbatim>\<open>int\<close> values that cannot overflow are integers. A panic
  is \<open>None\<close>, an error the left side of a sum. Instants are integers of nanoseconds, with the
  saturation of \<^verbatim>\<open>Time.Sub\<close>. A Go map is an association list; where its order matters the theorem
  says for which order it holds.

  \<^bold>\<open>What is assumed.\<close> Code outside the repository is a parameter with its documented laws as named
  hypotheses: the Noise library (\<open>xx_law\<close>, \<open>msg_law\<close>), its AEAD (\<open>cipher_laws\<close>, \<open>expansion_law\<close>),
  Curve25519, the JSON parser, the resolver of host names. Each has a concrete instance in the
  witnesses, so the hypotheses can hold together.

  \<^bold>\<open>Termination and bounds.\<close> There is no fuel: every function is total, with a measure where the recursion
  is not structural, except the waits of \<open>Agent_Ping\<close>, which may never return and are partial
  functions whose result is characterised in every case. A receiver follows the keys of its sender as long as
  less than \<open>max_lost\<close> messages are lost in a row, 64 intervals of the default rekeying.

  \<^bold>\<open>Not modelled.\<close> Sockets, deadlines and the kernel's side of device files; the bodies of the Noise,
  Curve25519, AEAD and JSON-parser libraries; package \<^verbatim>\<open>flag\<close>, signal handling, log lines and what the
  terminal library does with the widgets; \<^verbatim>\<open>float64\<close> values of the JSON status, which are a
  parameter; the making of certificates, hashing and \<^verbatim>\<open>net/http\<close> of the HTTPS test server. They are I/O or library
  calls whose code is not in the repository. The payload loop of a peer that a peer list has dropped
  may still hand over what its channel had buffered; the model forgets those payloads with the peer.
\<close>

section \<open>Registration and discovery\<close>

text \<open>An agent whose registration is within the coordinator's limits.\<close>

definition registrable :: "Keypair \<Rightarrow> ('h, 'c) agent \<Rightarrow> bool" where
  "registrable kp g \<longleftrightarrow> ag_kp g = Some kp \<and> static_ok (Some kp)
     \<and> ag_Name g \<noteq> [] \<and> length (ag_Name g) \<le> maxIDLen
     \<and> (\<exists>a. ag_pub g = Some a \<and> v4_addr a) \<and> (\<forall>a. ag_relay g = Some a \<longrightarrow> v4_addr a)"

lemma registerMessage_fields [simp]:
  "m_Type (registerMessage g) = TypeRegister" "m_ID (registerMessage g) = ag_Name g"
  "m_PubKey (registerMessage g) = PublicHex (ag_kp g)"
  "m_Endpoints (registerMessage g) = Some (publicEndpoints g)"
  by (simp_all add: registerMessage_def)

lemma registrable_valid:
  assumes "registrable kp g"
  shows "validateRegistration (registerMessage g) = None"
proof -
  have l: "length (UDPAddr_String (Some a)) \<le> maxEndpointLen" if "v4_addr a" for a
    using length_UDPAddr_String_v4 [OF that] by (simp add: maxEndpointLen_def)
  have "\<forall>e\<in>set (publicEndpoints g). length e \<le> maxEndpointLen"
    using assms l by (auto simp: publicEndpoints_def registrable_def)
  moreover have "length (publicEndpoints g) \<le> maxEndpointsPerPeer"
    by (simp add: publicEndpoints_def maxEndpointsPerPeer_def)
  ultimately show ?thesis
    using assms by (simp add: validateRegistration_None endpoints_of_def registrable_def)
qed

lemma registrable_key:
  assumes "registrable kp g"
  shows "PublicHex (ag_kp g) = hex_encode (raw (kp_Public kp))" "length (raw (kp_Public kp)) = 32"
    "ParsePublicKeyHex (PublicHex (ag_kp g)) = Inr (raw (kp_Public kp))"
proof -
  have k: "ag_kp g = Some kp" "length (raw (kp_Public kp)) = 32"
    using assms by (auto simp: registrable_def static_ok_def KeySize_def)
  then obtain b where b: "kp_Public kp = Some b" by (cases "kp_Public kp") auto
  show "PublicHex (ag_kp g) = hex_encode (raw (kp_Public kp))" using k b by (simp add: PublicHex_def)
  then show "ParsePublicKeyHex (PublicHex (ag_kp g)) = Inr (raw (kp_Public kp))"
    using k(2) by (simp add: ParsePublicKeyHex_def KeySize_def hex_roundtrip)
  show "length (raw (kp_Public kp)) = 32" by (rule k(2))
qed

lemma peer_infos_ids:
  assumes "registry_ok A s"
  shows "map pi_ID (peer_infos s) = map fst (co_registrations s)"
proof -
  have "rg_ID r = k" if "(k, r) \<in> set (co_registrations s)" for k r
    using assms that by (auto simp: registry_ok_def registration_ok_def map_of_is_SomeI)
  then show ?thesis by (auto simp: peer_infos_def)
qed

lemma find_by_key:
  "gm_ok (map (\<lambda>x. (f x, x)) xs) \<Longrightarrow> x \<in> set xs \<Longrightarrow> find (\<lambda>y. f y = f x) xs = Some x"
  by (induction xs) (auto simp: image_iff)

lemma discovery:
  assumes "coord_run unmarshal (newCoord t) tr s"
    and "registrable kp g" "DecodeLine unmarshal p = Inr (registerMessage g)" "pin_free s (registerMessage g)"
    and "ag_Name h \<noteq> ag_Name g" "map_of (ag_peers h) (ag_Name g) = None"
    and "ag_kp h = Some kh" "static_ok (Some kh)"
  shows "\<exists>s' b q ep. handleMessage unmarshal s c (raw (kp_Public kp)) p now = (s', [], Some b)
     \<and> map_of (ag_peers (fst (applyPeers resolver (m_Peers b) h))) (ag_Name g) = Some q
     \<and> ready kh kp q \<and> p_initiator q = RoleIsInitiator (ag_Name h) (ag_Name g)
     \<and> p_DirectEP q = Some ep \<and> addrEqual (ag_pub g) (Some ep)
     \<and> UDPAddr_String (Some ep) = UDPAddr_String (ag_pub g) \<and> p_lastHS1 q = 0 \<and> p_hsBurst q = (0, 0)"
proof -
  let ?m = "registerMessage g"
  let ?s = "enter c ?m s"
  let ?info = "\<lparr>pi_ID = ag_Name g, pi_PubKey = PublicHex (ag_kp g), pi_Endpoints = Some (publicEndpoints g)\<rparr>"
  note k = registrable_key [OF assms(2)]
  have hm: "handleMessage unmarshal s c (raw (kp_Public kp)) p now = (?s, [], Some (peer_list ?s))"
    by (rule handleMessage_entered [OF assms(3) _ registrable_valid [OF assms(2)] _ assms(4)]) (simp_all add: k(1))
  have ok: "registry_ok (insert (c, raw (kp_Public kp)) (authenticated tr)) ?s"
  proof (rule enter_registry)
    show "registry_ok (insert (c, raw (kp_Public kp)) (authenticated tr)) s"
      using coord_run_ok [OF assms(1) refl] registry_ok_mono by blast
  qed (use registrable_valid [OF assms(2)] k assms(4) in simp_all)
  have peers: "m_Peers (peer_list ?s) = peer_infos ?s" by (simp add: peer_list_def)
  have dist: "distinct (map pi_ID (peer_infos ?s))"
    using peer_infos_ids [OF ok] ok by (simp add: registry_ok_def)
  have "(ag_Name g, entry c ?m) \<in> set (co_registrations ?s)"
    by (simp add: enter_def map_of_SomeD update_conv')
  then have mem: "?info \<in> set (peer_infos ?s)" by (force simp: peer_infos_def entry_def)
  have fnd: "find (\<lambda>x. pi_ID x = ag_Name g) (peer_infos ?s) = Some ?info"
    using find_by_key [of pi_ID "peer_infos ?s" ?info] dist mem by (simp add: comp_def)
  obtain a where a: "ag_pub g = Some a" "v4_addr a" using assms(2) by (auto simp: registrable_def)
  obtain ep where ep: "ResolveUDPAddr resolver (UDPAddr_String (Some a)) = Some ep" "addrEqual (Some a) (Some ep)"
    "UDPAddr_String (Some ep) = UDPAddr_String (Some a)"
    using Resolve_text [OF a(2)] by blast
  have "infoEndpoint resolver ?info = Some ep"
    by (simp add: infoEndpoint_def endpoints_of_def publicEndpoints_def a(1) ep(1))
  then have look: "map_of (ag_peers (fst (applyPeers resolver (m_Peers (peer_list ?s)) h))) (ag_Name g)
      = Some (newPeer (ag_Name h) (ag_Name g) (raw (kp_Public kp)) (Some ep) (Some kh))"
    using applyPeers_lookup [OF dist, of "ag_Name g" h resolver] assms(5-7) fnd k(3)
    by (simp add: peers entry_after_def)
  have "ready kh kp (newPeer (ag_Name h) (ag_Name g) (raw (kp_Public kp)) (Some ep) (Some kh))"
    using assms(2,8) by (simp add: ready_def keyed_def newPeer_def registrable_def)
  moreover have "addrEqual (ag_pub g) (Some ep) \<and> UDPAddr_String (Some ep) = UDPAddr_String (ag_pub g)"
    using ep(2,3) a(1) by simp
  ultimately show ?thesis using hm look by (auto simp: newPeer_def)
qed

lemma applyPeers_omitted:
  "i \<notin> pi_ID ` set infos \<Longrightarrow> map_of (ag_peers (fst (applyPeers resolver infos g))) i = None"
  by (cases "i \<in> fst ` set (ag_peers (fst (steps (applyInfo resolver) infos g)))")
    (auto simp: fst_applyPeers prunePeers_lookup map_of_eq_None_iff)

text \<open>C1: The system does what it is for. Take two agents with different names that register with the
  coordinator, whatever its history, each with the key its control session authenticated, and
  apply each other's peer list, not knowing each other before. Each then tracks the other with
  the other's key and public endpoint; the two have opposite roles, and when their loops run
  and the datagrams between those endpoints are delivered, three of them establish the session
  at both ends, each with the other's static key, and all messages in either direction are
  accepted unchanged and in order.\<close>

theorem agents_discover_and_talk:
  assumes laws: "cipher_laws api seal opn rk" "expansion_law api" "msg_law hapi"
      "xx_law hapi api (Some Prologue) kg kh"
    and g: "registrable kg g" "DecodeLine unmarshal pg = Inr (registerMessage g)"
      "coord_run unmarshal (newCoord t) trg sg" "pin_free sg (registerMessage g)"
    and h: "registrable kh h" "DecodeLine unmarshal ph = Inr (registerMessage h)"
      "coord_run unmarshal (newCoord t') trh sh" "pin_free sh (registerMessage h)"
    and names: "RoleIsInitiator (ag_Name g) (ag_Name h)" "ag_Name g \<noteq> ag_Name h"
      "map_of (ag_peers g) (ag_Name h) = None" "map_of (ag_peers h) (ag_Name g) = None"
    and direct: "UDPAddr_String (ag_pub g) \<noteq> UDPAddr_String relay"
      "UDPAddr_String (ag_pub h) \<noteq> UDPAddr_String relay"
    and later: "HS1ResendInterval \<le> t1" "time_sub t1 t0 \<le> DirectAttempt"
  shows "\<exists>sg' bg sh' bh p q eg eh.
      handleMessage unmarshal sg c (raw (kp_Public kg)) pg now = (sg', [], Some bg)
    \<and> handleMessage unmarshal sh d (raw (kp_Public kh)) ph now' = (sh', [], Some bh)
    \<and> map_of (ag_peers (fst (applyPeers resolver (m_Peers bh) g))) (ag_Name h) = Some p
    \<and> map_of (ag_peers (fst (applyPeers resolver (m_Peers bg) h))) (ag_Name g) = Some q
    \<and> addrEqual (ag_pub g) (Some eg) \<and> addrEqual (ag_pub h) (Some eh)
    \<and> p_initiator p \<and> \<not> p_initiator q
    \<and> connects hapi api relay PathDirect ra rb t1 (t2, t3, t4, t5) kg kh eg eh
        (startRun relay t0 p) (startRun relay t0' q)"
proof -
  have kg: "ag_kp g = Some kg" "static_ok (Some kg)" "ag_kp h = Some kh" "static_ok (Some kh)"
    using g(1) h(1) by (simp_all add: registrable_def)
  obtain sg' bg q eg where q: "handleMessage unmarshal sg c (raw (kp_Public kg)) pg now = (sg', [], Some bg)"
    "map_of (ag_peers (fst (applyPeers resolver (m_Peers bg) h))) (ag_Name g) = Some q"
    "ready kh kg q" "p_initiator q = RoleIsInitiator (ag_Name h) (ag_Name g)"
    "p_DirectEP q = Some eg" "addrEqual (ag_pub g) (Some eg)"
    "UDPAddr_String (Some eg) = UDPAddr_String (ag_pub g)" "p_hsBurst q = (0, 0)"
    using discovery [OF g(3,1,2,4) names(2) [symmetric] names(4) kg(3,4), of c now resolver]
    by (elim exE conjE) (rule that; assumption)
  obtain sh' bh p eh where p: "handleMessage unmarshal sh d (raw (kp_Public kh)) ph now' = (sh', [], Some bh)"
    "map_of (ag_peers (fst (applyPeers resolver (m_Peers bh) g))) (ag_Name h) = Some p"
    "ready kg kh p" "p_initiator p = RoleIsInitiator (ag_Name g) (ag_Name h)"
    "p_DirectEP p = Some eh" "addrEqual (ag_pub h) (Some eh)"
    "UDPAddr_String (Some eh) = UDPAddr_String (ag_pub h)" "p_lastHS1 p = 0"
    using discovery [OF h(3,1,2,4) names(2) names(3) kg(1,2), of d now' resolver]
    by (elim exE conjE) (rule that; assumption)
  have roles: "p_initiator p" "\<not> p_initiator q"
    using p(4) q(4) names(1,2) roles_split by metis+
  have "HS1ResendInterval \<le> time_sub t1 (p_lastHS1 p)"
    using later(1) by (simp add: p(8) time_sub_ge HS1ResendInterval_def max_duration_def)
  moreover have "fst (hs1_draw 1 t2 (p_hsBurst q))" by (simp add: q(8) hs1_draw_def hs1MaxPerSec_def)
  moreover have "usable PathDirect relay eg eh" using direct q(7) p(7) by (simp add: usable_def)
  ultimately have "connects hapi api relay PathDirect ra rb t1 (t2, t3, t4, t5) kg kh eg eh
      (startRun relay t0 p) (startRun relay t0' q)"
    using roles p(5) q(5) later(2) startRun_ready [OF p(3)] startRun_ready [OF q(3)]
    by (intro pair_connects [OF laws]) (simp_all add: attemptFor_def)
  with p q roles show ?thesis by blast
qed

section \<open>The public endpoint\<close>

text \<open>A datagram of the data socket that is not an answer to the request with this transaction.\<close>

definition foreign_answer :: "(gostring \<Rightarrow> UDPAddr option) \<Rightarrow> bool \<Rightarrow> bytes \<Rightarrow> bytes \<Rightarrow> bool" where
  "foreign_answer resolver door txid pkt \<longleftrightarrow>
     (case (if door then map_sum id snd (UnwrapInbound resolver pkt) else Inr pkt) of
        Inl _ \<Rightarrow> True
      | Inr buf \<Rightarrow> length buf < 20 \<or> buf ! 0 \<noteq> 1 \<or> buf ! 1 \<noteq> 1 \<or> take 12 (drop 8 buf) \<noteq> txid)"

lemma txidMatches_iff: "length b = length txid \<Longrightarrow> txidMatches b txid \<longleftrightarrow> b = txid"
  by (auto simp: txidMatches_def list_all_iff intro: nth_equalityI)

lemma await_endpoint_skips:
  "length txid = 12 \<Longrightarrow> \<forall>pkt\<in>set noise. foreign_answer resolver door txid pkt \<Longrightarrow>
   await_endpoint resolver door txid (map Inr noise @ ds) = await_endpoint resolver door txid ds"
proof (induction noise)
  case (Cons x noise)
  have "await_endpoint resolver door txid (Inr x # map Inr noise @ ds)
      = await_endpoint resolver door txid (map Inr noise @ ds)"
    using Cons.prems
    by (auto simp: foreign_answer_def txidMatches_iff split: sum.splits)
  then show ?case using Cons by simp
qed simp

lemma decoded_type:
  assumes "DecodeXORMappedAddress d = Inr m"
  shows "d ! 0 = 1 \<and> d ! 1 = 1"
proof -
  have "get16 (d ! 0) (d ! 1) = messageTypeBindingResponse"
    using assms by (auto simp: DecodeXORMappedAddress_def Let_def split: if_splits)
  then have "[d ! 0, d ! 1] = put16 messageTypeBindingResponse" by (metis put16_get16)
  then show ?thesis by (simp add: put16_def messageTypeBindingResponse_def)
qed

text \<open>C28: An agent learns its own public endpoint through its NAT box. After any datagrams that are
  not answers to its request, the answer that the coordinator's STUN responder makes for the
  source it saw, plain or in the envelope of the box the agent sits behind, gives the agent an
  endpoint equal to that source.\<close>

theorem agent_learns_public_endpoint:
  assumes "length txid = 12" "a_IP src = Some ip" "length ip = 4 \<or> length ip = 16"
    and "0 \<le> a_Port src" "a_Port src < 65536" "a_Zone src = []"
    and "ResolveUDPAddr resolver stunAddr = Some server"
    and "sendDatagram g server (EncodeBindingRequest txid) = Inr (to, pkt)"
    and "\<forall>x\<in>set noise. foreign_answer resolver (ag_door g \<noteq> None) txid x"
  shows "\<exists>resp m. HandleBindingRequest (EncodeBindingRequest txid) (Some src) = Inr resp
    \<and> addrEqual (Some m) (Some src)
    \<and> (\<forall>d rest. openEnvelope resolver g doorsrc d = Some (ext, resp) \<longrightarrow>
          resolvePublicEndpoint resolver stunAddr txid (map Inr noise @ Inr d # rest) g
            = ([WriteUDP to pkt], Some m))"
proof -
  obtain resp m where r: "HandleBindingRequest (EncodeBindingRequest txid) (Some src) = Inr resp"
    "DecodeXORMappedAddress resp = Inr m" "addrEqual (Some m) (Some src)" "20 \<le> length resp"
    "take 12 (drop 8 resp) = txid"
    using Handle_Decode [OF assms(1-6)] by blast
  have "resolvePublicEndpoint resolver stunAddr txid (map Inr noise @ Inr d # rest) g
      = ([WriteUDP to pkt], Some m)" if "openEnvelope resolver g doorsrc d = Some (ext, resp)" for d rest
  proof -
    have "(if ag_door g \<noteq> None then map_sum id snd (UnwrapInbound resolver d) else Inr d) = Inr resp"
      using that by (auto simp: openEnvelope_def split: if_splits sum.splits)
    then have "await_endpoint resolver (ag_door g \<noteq> None) txid (Inr d # rest)
        = (if length resp < 20 \<or> resp ! 0 \<noteq> 1 \<or> resp ! 1 \<noteq> 1
           then await_endpoint resolver (ag_door g \<noteq> None) txid rest
           else if \<not> txidMatches (take 12 (drop 8 resp)) txid
           then await_endpoint resolver (ag_door g \<noteq> None) txid rest
           else DecodeXORMappedAddress resp)"
      by (simp only: await_endpoint.simps sum.case)
    also have "\<dots> = Inr m"
      using r(2,4,5) decoded_type [OF r(2)] txidMatches_iff [of txid txid] by simp
    finally have "await_endpoint resolver (ag_door g \<noteq> None) txid (map Inr noise @ Inr d # rest) = Inr m"
      using await_endpoint_skips [OF assms(1,9)] by simp
    then show ?thesis using assms(7,8) by (simp add: resolvePublicEndpoint_def)
  qed
  with r show ?thesis by blast
qed

section \<open>Peer lists out of order\<close>

text \<open>C40: A peer list that arrives late cuts a live session. Two registrations can be broadcast in the
  opposite order of their entry, so that the last list every client gets omits a registered
  peer; an agent that applies it drops that peer, with an established session, from its table.\<close>

theorem stale_list_cuts_session:
  assumes "coord_run unmarshal (newCoord t) tr0 s" "c \<noteq> d"
    and "map_of (co_routines s) c = Some (Serving st)" "map_of (co_routines s) d = Some (Serving st')"
    and "DecodeLine unmarshal p = Inr m" "m_Type m = TypeRegister" "validateRegistration m = None"
      "m_PubKey m = hex_encode st" "map_of (co_registrations s) (m_ID m) = None"
    and "DecodeLine unmarshal q = Inr m'" "m_Type m' = TypeRegister" "validateRegistration m' = None"
      "m_PubKey m' = hex_encode st'" "map_of (co_registrations s) (m_ID m') = None"
    and "m_ID m \<noteq> m_ID m'" "length (co_registrations s) + 1 < maxRegistrations"
    and "length (EncodeLine (peer_list (enter c m s))) \<le> maxControlLineLen"
    and "map_of (ag_peers g) (m_ID m') = Some x" "p_established x" "m_ID m' \<noteq> ag_Name g"
  shows "\<exists>o1 b s'. coord_run unmarshal s
        [(LMessage c p now, []), (LMessage d q now, []), (LBroadcast d, o1),
         (LBroadcast c, map (\<lambda>(x, _). (x, EncodeLine b)) (co_ctrlConns s))] s'
     \<and> m_ID m' \<in> dom (map_of (co_registrations s'))
     \<and> map_of (ag_peers (fst (applyPeers resolver (m_Peers b) g))) (m_ID m') = None"
proof -
  obtain o1 b s' where r: "coord_run unmarshal s
        [(LMessage c p now, []), (LMessage d q now, []), (LBroadcast d, o1),
         (LBroadcast c, map (\<lambda>(x, _). (x, EncodeLine b)) (co_ctrlConns s))] s'"
    "m_ID m' \<in> dom (map_of (co_registrations s'))" "m_ID m' \<notin> pi_ID ` set (m_Peers b)"
    using stale_list_broadcast_last [OF assms(1-17), of now] by (elim exE conjE) (rule that; assumption)
  then show ?thesis using applyPeers_omitted [OF r(3)] by blast
qed

section \<open>Witnesses\<close>

text \<open>Agents 1 and 2, registered with an empty coordinator by the lines A and B.\<close>

abbreviation demo_reg :: "byte \<Rightarrow> (demo_hs, nat \<times> u64) agent" where
  "demo_reg n \<equiv> (demo_agent n)\<lparr>ag_pub := Some demo_ep\<rparr>"

definition demo_lines :: "bytes \<Rightarrow> Message option" where
  "demo_lines b = Some (registerMessage (demo_reg (if b = [65] then 1 else 2)))"

lemma demo_registrable: "registrable (demo_keypair n) (demo_reg n)"
  by (simp add: registrable_def static_ok_def demo_keypair_def KeySize_def maxIDLen_def v4_addr_def demo_ep_def
      To4_def)

lemma demo_line: "b = 65 \<or> b = 66 \<Longrightarrow>
    DecodeLine demo_lines [b] = Inr (registerMessage (demo_reg (if b = 65 then 1 else 2)))"
proof -
  assume "b = 65 \<or> b = 66"
  then have "TrimSpace [b] = [b]" by (intro TrimSpace_hex) (auto simp: from_hex_def)
  then show ?thesis by (simp add: DecodeLine_def demo_lines_def)
qed

theorem agents_discover_and_talk_witness:
  "\<exists>p q eg eh. p_initiator p \<and> \<not> p_initiator q
     \<and> connects demo_hapi demo_api None PathDirect () () 1000000000 (2, 3, 4, 5) (demo_keypair 1) (demo_keypair 2)
         eg eh (startRun None 0 p) (startRun None 0 q)"
proof -
  have names: "RoleIsInitiator (ag_Name (demo_reg 1)) (ag_Name (demo_reg 2))" "ag_Name (demo_reg 1) \<noteq> ag_Name (demo_reg 2)"
    "map_of (ag_peers (demo_reg 1)) (ag_Name (demo_reg 2)) = None"
    "map_of (ag_peers (demo_reg 2)) (ag_Name (demo_reg 1)) = None"
    "UDPAddr_String (ag_pub (demo_reg n)) \<noteq> UDPAddr_String None" for n
    by (simp_all add: RoleIsInitiator_def demo_agent_def demo_ep_text)
  have free: "pin_free (newCoord 0) m" for m by (simp add: pin_free_def newCoord_def maxRegistrations_def)
  show ?thesis
    using agents_discover_and_talk [OF demo_laws demo_expansion demo_msg_law demo_xx_law
        demo_registrable demo_line [of 65, simplified] coord_run.init free
        demo_registrable demo_line [of 66, simplified] coord_run.init free
        names(1-4) names(5) names(5), where ?t1.0 = 1000000000 and ?t0.0 = 0 and t0' = 0 and ?t2.0 = 2 and ?t3.0 = 3 and ?t4.0 = 4
        and ?t5.0 = 5 and c = 0 and d = 0 and now = 0 and now' = 0 and resolver = "\<lambda>_. None" and ra = "()"
        and rb = "()"]
    by (simp add: demo_times) blast
qed

text \<open>Agent 1, without a box, after one stray datagram.\<close>

theorem agent_learns_public_endpoint_witness:
  "\<exists>resp m. HandleBindingRequest (EncodeBindingRequest (replicate 12 9)) (Some demo_dst) = Inr resp
     \<and> addrEqual (Some m) (Some demo_dst)
     \<and> resolvePublicEndpoint (\<lambda>_. Some demo_ep) [] (replicate 12 9) [Inr [1, 2, 3], Inr resp] (demo_agent 1)
         = ([WriteUDP demo_ep (EncodeBindingRequest (replicate 12 9))], Some m)"
proof -
  have ip: "a_IP demo_dst = Some [203, 0, 113, 9]" "0 \<le> a_Port demo_dst" "a_Port demo_dst < 65536" "a_Zone demo_dst = []"
    by (simp_all add: demo_dst_def)
  have len: "length (replicate 12 9 :: bytes) = 12" "length [203, 0, 113, 9 :: byte] = 4 \<or> length [203, 0, 113, 9 :: byte] = 16"
    by simp_all
  have resolved: "ResolveUDPAddr (\<lambda>_. Some demo_ep) [] = Some demo_ep"
    by (simp add: ResolveUDPAddr_def parse_ip4_def)
  have s: "sendDatagram (demo_agent 1) demo_ep (EncodeBindingRequest (replicate 12 9))
      = Inr (demo_ep, EncodeBindingRequest (replicate 12 9))"
    by (simp add: sendDatagram_def)
  have noise: "\<forall>x\<in>set [[1, 2, 3]]. foreign_answer (\<lambda>_. Some demo_ep) (ag_door (demo_agent 1) \<noteq> None)
      (replicate 12 9) x"
    by (simp add: foreign_answer_def)
  have opened: "openEnvelope (\<lambda>_. Some demo_ep) (demo_agent 1) demo_ep d = Some (demo_ep, d)" for d
    by (simp add: openEnvelope_def)
  obtain resp m where "HandleBindingRequest (EncodeBindingRequest (replicate 12 9)) (Some demo_dst) = Inr resp"
    "addrEqual (Some m) (Some demo_dst)"
    "\<forall>d rest. openEnvelope (\<lambda>_. Some demo_ep) (demo_agent 1) demo_ep d = Some (demo_ep, resp) \<longrightarrow>
        resolvePublicEndpoint (\<lambda>_. Some demo_ep) [] (replicate 12 9) (map Inr [[1, 2, 3]] @ Inr d # rest) (demo_agent 1)
          = ([WriteUDP demo_ep (EncodeBindingRequest (replicate 12 9))], Some m)"
    using agent_learns_public_endpoint [OF len(1) ip(1) len(2) ip(2-4) resolved s noise, where doorsrc = demo_ep and ext = demo_ep]
    by (elim exE conjE) (rule that; assumption)
  with opened [of resp] show ?thesis by force
qed

text \<open>Two registrations broadcast in the opposite order, and an agent with a session to the second.\<close>

theorem stale_list_cuts_session_witness:
  "\<exists>tr b s'. coord_run (demo_unmarshal []) demo_joined
       (tr @ [(LBroadcast 1, [(1, EncodeLine b), (2, EncodeLine b)])]) s'
     \<and> demo_name 1 \<in> dom (map_of (co_registrations s'))
     \<and> map_of (ag_peers (fst (applyPeers (\<lambda>_. None) (m_Peers b)
          ((demo_agent 1)\<lparr>ag_peers := [(demo_name 1, demo_p3)]\<rparr>)))) (demo_name 1) = None"
proof -
  let ?g = "(demo_agent 1)\<lparr>ag_peers := [(demo_name 1, demo_p3)]\<rparr>"
  obtain tr where run: "coord_run (demo_unmarshal []) (newCoord 0) tr demo_joined"
    using demo_joined_run by blast
  have g: "map_of (ag_peers ?g) (m_ID (demo_msg 1)) = Some demo_p3" "p_established demo_p3"
    "m_ID (demo_msg 1) \<noteq> ag_Name ?g"
    using demo_name_length [of 1] by (auto simp: demo_p3_def)
  obtain o1 b s' where "coord_run (demo_unmarshal []) demo_joined
        [(LMessage 1 (demo_name 0) 0, []), (LMessage 2 (demo_name 1) 0, []), (LBroadcast 2, o1),
         (LBroadcast 1, map (\<lambda>(x, _). (x, EncodeLine b)) (co_ctrlConns demo_joined))] s'"
     "demo_name 1 \<in> dom (map_of (co_registrations s'))"
     "map_of (ag_peers (fst (applyPeers (\<lambda>_. None) (m_Peers b) ?g))) (demo_name 1) = None"
    using stale_list_cuts_session [OF run _ _ _ demo_decode [of "[]" 0] _ _ _ _ demo_decode [of "[]" 1]
        _ _ _ _ _ _ _ g, where c = 1 and d = 2 and st = demo_key and st' = demo_key and now = 0 and resolver = "\<lambda>_. None"]
      demo_valid demo_line_length demo_names_differ
    by (auto simp: maxRegistrations_def)
  then show ?thesis
    by (intro exI [of _ "[(LMessage 1 (demo_name 0) 0, []), (LMessage 2 (demo_name 1) 0, []), (LBroadcast 2, o1)]"]
          exI [of _ b] exI [of _ s']) simp
qed

end
